(* ===== verification/Prelude.thy ===== *)
theory Prelude
  imports Main "HOL-Library.Word" "HOL-Library.Sublist"
begin

text \<open>
  Shared vocabulary of the development. It fixes how Go values are represented, how
  failing code is represented, and holds the generic lemmas and the one interface that
  every component with several steps uses (a transition system with an invariant).

  \<^item> A Go \<^verbatim>\<open>byte\<close> is an \<open>8 word\<close>, a \<^verbatim>\<open>uint32\<close> a \<open>32 word\<close>, a \<^verbatim>\<open>[]byte\<close> a list of
    bytes. A Go \<^verbatim>\<open>string\<close> is a sequence of bytes; it is an Isabelle \<open>string\<close>, whose
    characters are exactly the 256 byte values. The conversions \<^verbatim>\<open>[]byte(s)\<close> and
    \<^verbatim>\<open>string(b)\<close> are \<open>bytes_of_string\<close> and \<open>string_of_bytes\<close>.
  \<^item> Code that can fail returns a value of \<open>'a res\<close>: \<open>Inl (Error m)\<close> is an \<^verbatim>\<open>error\<close> with
    message \<open>m\<close>, \<open>Inl (Panic m)\<close> a run-time panic, \<open>Inr x\<close> a normal return.
  \<^item> Instants and durations are integers that count nanoseconds, as \<^verbatim>\<open>time.Duration\<close> does.
\<close>

unbundle bit_operations_syntax

section \<open>Representation of Go values\<close>

type_synonym byte = "8 word"
type_synonym bytes = "byte list"
type_synonym uint32 = "32 word"
type_synonym nanos = int

datatype go_fail = Panic string | Error string

type_synonym 'a res = "go_fail + 'a"

abbreviation ok_res :: "'a \<Rightarrow> 'a res" where
  "ok_res x \<equiv> Inr x"

definition byte_of_char :: "char \<Rightarrow> byte" where
  "byte_of_char c = word_of_nat (of_char c)"

definition char_of_byte :: "byte \<Rightarrow> char" where
  "char_of_byte b = char_of (unat b)"

definition bytes_of_string :: "string \<Rightarrow> bytes" where
  "bytes_of_string s = map byte_of_char s"

definition string_of_bytes :: "bytes \<Rightarrow> string" where
  "string_of_bytes b = map char_of_byte b"

text \<open>Nanoseconds per second, \<^verbatim>\<open>time.Second\<close>.\<close>

definition Second :: nanos where
  "Second = 1000000000"

text \<open>
  Decimal notation of integers, the \<^verbatim>\<open>%d\<close> verb of \<^verbatim>\<open>fmt\<close> and \<^verbatim>\<open>strconv.Itoa\<close>.
\<close>

definition digit_char :: "nat \<Rightarrow> char" where
  "digit_char d = char_of (48 + d mod 10)"

fun show_nat :: "nat \<Rightarrow> string" where
  "show_nat n = (if n < 10 then [digit_char n] else show_nat (n div 10) @ [digit_char (n mod 10)])"

declare show_nat.simps [simp del]

definition show_int :: "int \<Rightarrow> string" where
  "show_int i = (if i < 0 then CHR ''-'' # show_nat (nat (- i)) else show_nat (nat i))"

section \<open>Conversions between strings and bytes\<close>

named_theorems conv_simps \<open>the conversions between strings, bytes and words\<close>

lemma char_of_byte_of_char [simp]: "char_of_byte (byte_of_char c) = c"
  by (simp add: char_of_byte_def byte_of_char_def unat_of_nat)

lemma byte_of_char_of_byte [simp]: "byte_of_char (char_of_byte b) = b"
proof -
  have "unat b < 256"
    by (rule order.strict_trans2 [OF unsigned_less]) simp
  then show ?thesis
    by (simp add: char_of_byte_def byte_of_char_def of_char_of)
qed

lemma string_of_bytes_of_string [simp, conv_simps]: "string_of_bytes (bytes_of_string s) = s"
  by (simp add: string_of_bytes_def bytes_of_string_def comp_def)

lemma bytes_of_string_of_bytes [simp, conv_simps]: "bytes_of_string (string_of_bytes b) = b"
  by (simp add: string_of_bytes_def bytes_of_string_def comp_def)

lemma length_bytes_of_string [simp]: "length (bytes_of_string s) = length s"
  by (simp add: bytes_of_string_def)

lemma length_string_of_bytes [simp]: "length (string_of_bytes b) = length b"
  by (simp add: string_of_bytes_def)

lemma bytes_of_string_inj [simp]: "bytes_of_string s = bytes_of_string t \<longleftrightarrow> s = t"
  by (metis string_of_bytes_of_string)

section \<open>Decimal notation\<close>

lemma of_char_digit_char [simp]: "of_char (digit_char d) = (48 + d mod 10 :: nat)"
  by (simp add: digit_char_def of_char_of)

lemma digit_char_inj: "d < 10 \<Longrightarrow> e < 10 \<Longrightarrow> digit_char d = digit_char e \<Longrightarrow> d = e"
  by (metis add_left_cancel mod_less of_char_digit_char)

abbreviation digit_codes :: "nat set" where
  "digit_codes \<equiv> {48..57}"

lemma digit_char_code [simp]: "of_char (digit_char d) \<in> digit_codes"
  by simp

lemma show_nat_nonempty [simp]: "show_nat n \<noteq> []"
  by (subst show_nat.simps) simp

lemma show_nat_digits: "c \<in> set (show_nat n) \<Longrightarrow> of_char c \<in> digit_codes"
proof (induction n rule: show_nat.induct)
  case (1 n)
  show ?case
  proof (cases "n < 10")
    case True
    with "1.prems" show ?thesis by (simp add: show_nat.simps [of n])
  next
    case False
    with "1.prems" consider "c \<in> set (show_nat (n div 10))" | "c = digit_char (n mod 10)"
      by (auto simp: show_nat.simps [of n])
    then show ?thesis
    proof cases
      case 1
      with "1.IH" False show ?thesis by simp
    next
      case 2
      then show ?thesis by simp
    qed
  qed
qed

text \<open>Reading decimal digits back: the value of a digit string.\<close>

definition digit_val :: "char \<Rightarrow> nat" where
  "digit_val c = of_char c - 48"

definition read_nat :: "string \<Rightarrow> nat" where
  "read_nat s = foldl (\<lambda>n c. 10 * n + digit_val c) 0 s"

lemma digit_val_digit_char [simp]: "digit_val (digit_char d) = d mod 10"
  by (simp add: digit_val_def)

lemma read_show_nat [simp]: "read_nat (show_nat n) = n"
proof (induction n rule: show_nat.induct)
  case (1 n)
  show ?case
  proof (cases "n < 10")
    case True
    then show ?thesis by (simp add: show_nat.simps [of n] read_nat_def)
  next
    case False
    with "1.IH" have "read_nat (show_nat (n div 10)) = n div 10" by simp
    with False show ?thesis
      by (simp add: show_nat.simps [of n] read_nat_def)
  qed
qed

lemma show_nat_inj: "show_nat m = show_nat n \<Longrightarrow> m = n"
  by (metis read_show_nat)

section \<open>Transition systems and invariants\<close>

text \<open>
  The states reachable from an initial state by a step relation, and the interface every
  stepwise component implements: an invariant that holds initially and that each step keeps.
\<close>

inductive reach :: "('s \<Rightarrow> bool) \<Rightarrow> ('s \<Rightarrow> 's \<Rightarrow> bool) \<Rightarrow> 's \<Rightarrow> bool"
  for init :: "'s \<Rightarrow> bool" and step :: "'s \<Rightarrow> 's \<Rightarrow> bool" where
  reach_init: "init s \<Longrightarrow> reach init step s"
| reach_step: "reach init step s \<Longrightarrow> step s t \<Longrightarrow> reach init step t"

locale inv_system =
  fixes start :: "'s \<Rightarrow> bool"
    and trans :: "'s \<Rightarrow> 's \<Rightarrow> bool"
    and I :: "'s \<Rightarrow> bool"
  assumes start_inv: "start s \<Longrightarrow> I s"
    and trans_inv: "I s \<Longrightarrow> trans s t \<Longrightarrow> I t"
begin

lemma reach_inv: "reach start trans s \<Longrightarrow> I s"
  by (induction rule: reach.induct) (auto intro: start_inv trans_inv)

lemma star_inv: "trans\<^sup>*\<^sup>* s t \<Longrightarrow> I s \<Longrightarrow> I t"
  by (induction rule: rtranclp_induct) (auto intro: trans_inv)

end

lemma reach_star: "reach init step s \<Longrightarrow> step\<^sup>*\<^sup>* s t \<Longrightarrow> reach init step t"
  by (rotate_tac, induction rule: rtranclp_induct) (auto intro: reach.reach_step)

section \<open>Joining and splitting strings (\<^verbatim>\<open>strings.Join\<close>, \<^verbatim>\<open>strings.Split\<close>)\<close>

fun strings_Join :: "string list \<Rightarrow> string \<Rightarrow> string" where
  "strings_Join [] sep = []"
| "strings_Join [x] sep = x"
| "strings_Join (x # y # xs) sep = x @ sep @ strings_Join (y # xs) sep"

text \<open>\<^verbatim>\<open>strings.Split\<close> with a separator of one character.\<close>

fun strings_Split :: "string \<Rightarrow> char \<Rightarrow> string list" where
  "strings_Split [] sep = [[]]"
| "strings_Split (c # s) sep =
     (if c = sep then [] # strings_Split s sep
      else (case strings_Split s sep of [] \<Rightarrow> [[c]] | t # ts \<Rightarrow> (c # t) # ts))"

lemma strings_Split_nonempty [simp]: "strings_Split s sep \<noteq> []"
  by (induction s) (auto split: list.splits)

lemma strings_Split_no_sep: "t \<in> set (strings_Split s sep) \<Longrightarrow> sep \<notin> set t"
  by (induction s arbitrary: t) (auto split: if_splits list.splits)

lemma strings_Join_Cons [simp]:
  "xs \<noteq> [] \<Longrightarrow> strings_Join (x # xs) sep = x @ sep @ strings_Join xs sep"
  by (cases xs) auto

lemma Split_append_sep: "sep \<notin> set x \<Longrightarrow> strings_Split (x @ sep # s) sep = x # strings_Split s sep"
  by (induction x) (auto split: list.splits)

lemma Split_no_sep: "sep \<notin> set x \<Longrightarrow> strings_Split x sep = [x]"
  by (induction x) auto

lemma Split_Join:
  assumes "ts \<noteq> []" and "\<forall>t \<in> set ts. sep \<notin> set t"
  shows "strings_Split (strings_Join ts [sep]) sep = ts"
  using assms
proof (induction ts)
  case (Cons t ts)
  then show ?case
    by (cases "ts = []") (auto simp: Split_no_sep Split_append_sep)
qed simp

lemma Join_Split: "strings_Join (strings_Split s sep) [sep] = s"
proof (induction s)
  case (Cons c s)
  then show ?case
    by (cases "strings_Split s sep"; cases "tl (strings_Split s sep) = []")
      (auto split: list.splits)
qed simp

lemma Join_inj:
  assumes "strings_Join ts [sep] = strings_Join us [sep]" and "ts \<noteq> []" and "us \<noteq> []"
    and "\<forall>t \<in> set ts. sep \<notin> set t" and "\<forall>t \<in> set us. sep \<notin> set t"
  shows "ts = us"
  using assms Split_Join by metis

lemma Join_append:
  "xs \<noteq> [] \<Longrightarrow> ys \<noteq> [] \<Longrightarrow> strings_Join (xs @ ys) sep = strings_Join xs sep @ sep @ strings_Join ys sep"
proof (induction xs)
  case (Cons x xs)
  then show ?case by (cases "xs = []") auto
qed simp

lemma set_Join: "set (strings_Join ts sep) \<subseteq> (\<Union>t \<in> set ts. set t) \<union> set sep"
  by (induction ts sep rule: strings_Join.induct) auto

end
