(* ===== verification/Clock.thy ===== *)
theory Clock
  imports Prelude
begin

text \<open>
  \<^verbatim>\<open>internal/ratelimit/clock.go\<close>. The limiter reads time through an interface; \<^verbatim>\<open>RealClock\<close> is \<^verbatim>\<open>time.Now\<close>, so
  its readings are the instants the limiter model takes as arguments. \<^verbatim>\<open>FakeClock\<close> is the clock the tests drive by hand. Its mutex makes each
  operation atomic.
\<close>

record FakeClock =
  fk_now :: nanos

definition NewFakeClock :: "nanos \<Rightarrow> FakeClock" where
  "NewFakeClock start = \<lparr> fk_now = start \<rparr>"

definition FakeClock_Now :: "FakeClock \<Rightarrow> nanos" where
  "FakeClock_Now f = fk_now f"

definition Advance :: "nanos \<Rightarrow> FakeClock \<Rightarrow> FakeClock res" where
  "Advance d f =
     (if d < 0 then Inl (Panic ''FakeClock.Advance: negative duration'')
      else Inr (f\<lparr>fk_now := fk_now f + d\<rparr>))"

text \<open>The interface the limiter relies on: what a clock reads never decreases.\<close>

locale clock =
  fixes read :: "'c \<Rightarrow> nanos" and move :: "nanos \<Rightarrow> 'c \<Rightarrow> 'c res"
  assumes forward: "move d c = Inr c' \<Longrightarrow> read c' = read c + d \<and> 0 \<le> d"
begin

primrec moves :: "nanos list \<Rightarrow> 'c \<Rightarrow> 'c res" where
  "moves [] c = Inr c"
| "moves (d # ds) c = (case move d c of Inl e \<Rightarrow> Inl e | Inr c' \<Rightarrow> moves ds c')"

lemma moves_read: "moves ds c = Inr c' \<Longrightarrow> read c' = read c + sum_list ds \<and> read c \<le> read c'"
proof (induction ds arbitrary: c)
  case (Cons d ds)
  then obtain c1 where m: "move d c = Inr c1" and r: "moves ds c1 = Inr c'" by (auto split: sum.splits)
  from forward [OF m] Cons.IH [OF r] show ?case by simp
qed simp

end

interpretation fake: clock FakeClock_Now Advance
  by unfold_locales (auto simp: Advance_def FakeClock_Now_def split: if_splits)

lemma FakeClock_reads:
  "fake.moves ds (NewFakeClock t) = Inr c \<Longrightarrow> FakeClock_Now c = t + sum_list ds \<and> t \<le> FakeClock_Now c"
  using fake.moves_read [of ds "NewFakeClock t" c] by (simp add: NewFakeClock_def FakeClock_Now_def)

end
