(* ===== verification/NetIP.thy ===== *)
theory NetIP
  imports Prelude
begin

text \<open>
  The part of Go's \<^verbatim>\<open>net\<close> package that \<^verbatim>\<open>minisshd\<close> uses on client addresses: \<^verbatim>\<open>net.IP\<close> as a
  byte slice of length 4 or 16 (the nil address is the empty slice), \<^verbatim>\<open>To4\<close>, and the textual
  form \<^verbatim>\<open>String\<close>, dotted decimal for IPv4 and the RFC 5952 form for IPv6 (the first longest
  run of at least two zero groups is written \<^verbatim>\<open>::\<close>). The main result is that the text
  determines the address up to \<^verbatim>\<open>To4\<close>.
\<close>

type_synonym IP = bytes

definition nil_ip :: IP where
  "nil_ip = []"

definition To4 :: "IP \<Rightarrow> IP option" where
  "To4 ip =
     (if length ip = 4 then Some ip
      else if length ip = 16 \<and> (\<forall>b \<in> set (take 10 ip). b = 0) \<and> ip ! 10 = 255 \<and> ip ! 11 = 255
      then Some (drop 12 ip)
      else None)"

section \<open>Hexadecimal groups\<close>

definition hex_char :: "nat \<Rightarrow> char" where
  "hex_char d = (if d < 10 then char_of (48 + d) else char_of (87 + d))"

fun show_hex :: "nat \<Rightarrow> string" where
  "show_hex n = (if n < 16 then [hex_char n] else show_hex (n div 16) @ [hex_char (n mod 16)])"

declare show_hex.simps [simp del]

definition hex_val :: "char \<Rightarrow> nat" where
  "hex_val c = (let k = of_char c in if k < 87 then k - 48 else k - 87)"

definition read_hex :: "string \<Rightarrow> nat" where
  "read_hex s = foldl (\<lambda>n c. 16 * n + hex_val c) 0 s"

section \<open>Textual form\<close>

definition string4 :: "IP \<Rightarrow> string" where
  "string4 ip = strings_Join (map (\<lambda>b. show_nat (unat b)) ip) ''.''"

text \<open>The eight 16-bit groups of a 16-byte address.\<close>

fun groups :: "bytes \<Rightarrow> nat list" where
  "groups (a # b # r) = (256 * unat a + unat b) # groups r"
| "groups _ = []"

text \<open>Length of the run of zero groups at the front.\<close>

definition zero_run :: "nat list \<Rightarrow> nat" where
  "zero_run gs = length (takeWhile (\<lambda>g. g = 0) gs)"

text \<open>
  The compressed run \<open>(start, end)\<close>: the scan keeps a run only when it is at least two groups
  long and longer than the one found before.
\<close>

fun find_zeros :: "nat \<Rightarrow> nat list \<Rightarrow> nat \<times> nat \<Rightarrow> nat \<times> nat" where
  "find_zeros i [] best = best"
| "find_zeros i (g # gs) (s, e) =
     (let l = zero_run (g # gs) in
      find_zeros (Suc i) gs (if 2 \<le> l \<and> e - s < l then (i, i + l) else (s, e)))"

definition string6 :: "nat list \<Rightarrow> string" where
  "string6 gs =
     (case find_zeros 0 gs (0, 0) of (s, e) \<Rightarrow>
        if s = e then strings_Join (map show_hex gs) '':''
        else strings_Join (map show_hex (take s gs)) '':'' @ ''::'' @
             strings_Join (map show_hex (drop e gs)) '':'')"

text \<open>\<^verbatim>\<open>hexString\<close> of the package, used for lengths other than 4 and 16.\<close>

definition hexString :: "bytes \<Rightarrow> string" where
  "hexString b = concat (map (\<lambda>x. [hex_char (unat x div 16), hex_char (unat x mod 16)]) b)"

definition IP_String :: "IP \<Rightarrow> string" where
  "IP_String ip =
     (if ip = [] then ''<nil>''
      else if length ip \<noteq> 4 \<and> length ip \<noteq> 16 then ''?'' @ hexString ip
      else case To4 ip of Some p4 \<Rightarrow> string4 p4 | None \<Rightarrow> string6 (groups ip))"

section \<open>Groups and hexadecimal text determine the address\<close>

lemma hex_val_hex_char [simp]: "d < 16 \<Longrightarrow> hex_val (hex_char d) = d"
  by (auto simp: hex_val_def hex_char_def of_char_of)

lemma read_show_hex [simp]: "read_hex (show_hex n) = n"
proof (induction n rule: show_hex.induct)
  case (1 n)
  show ?case
  proof (cases "n < 16")
    case True
    then show ?thesis by (simp add: show_hex.simps [of n] read_hex_def)
  next
    case False
    with "1.IH" have "read_hex (show_hex (n div 16)) = n div 16" by simp
    with False show ?thesis by (simp add: show_hex.simps [of n] read_hex_def)
  qed
qed

lemma show_hex_nonempty [simp]: "show_hex n \<noteq> []"
  by (subst show_hex.simps) simp

lemma hex_char_not_sep: "d < 16 \<Longrightarrow> hex_char d \<noteq> CHR '':'' \<and> hex_char d \<noteq> CHR ''.''"
proof -
  assume d: "d < 16"
  then have "of_char (hex_char d) = (if d < 10 then 48 + d else 87 + d :: nat)"
    by (simp add: hex_char_def of_char_of)
  with d have "of_char (hex_char d) \<noteq> (58 :: nat)" and "of_char (hex_char d) \<noteq> (46 :: nat)"
    by (simp_all split: if_splits)
  moreover have "of_char (CHR '':'') = (58 :: nat)" and "of_char (CHR ''.'') = (46 :: nat)"
    by simp_all
  ultimately show ?thesis by metis
qed

lemma show_hex_no_colon: "CHR '':'' \<notin> set (show_hex n)"
proof (induction n rule: show_hex.induct)
  case (1 n)
  show ?case
  proof (cases "n < 16")
    case True
    then show ?thesis using hex_char_not_sep [of n] by (auto simp: show_hex.simps [of n])
  next
    case False
    then show ?thesis using 1 hex_char_not_sep [of "n mod 16"] by (auto simp: show_hex.simps [of n])
  qed
qed

lemma show_hex_inj: "show_hex m = show_hex n \<Longrightarrow> m = n"
  by (metis read_show_hex)

lemma groups_inj:
  "length a = length b \<Longrightarrow> even (length a) \<Longrightarrow> groups a = groups b \<Longrightarrow> a = b"
proof (induction a arbitrary: b rule: groups.induct)
  case (1 x y r)
  then obtain x' y' r' where b: "b = x' # y' # r'"
    by (metis length_Suc_conv length_Cons)
  have lt: "unat y < 256" "unat y' < 256"
    using unsigned_less [of y] unsigned_less [of y'] by auto
  from 1(4) b have eq: "256 * unat x + unat y = 256 * unat x' + unat y'" and r: "groups r = groups r'"
    by auto
  from eq lt have "unat x = unat x'" by linarith
  moreover from this eq have "unat y = unat y'" by simp
  moreover from 1(1) [of r'] 1(2,3) b r have "r = r'" by simp
  ultimately show ?case using b by (simp add: word_unat_eq_iff)
qed auto

lemma length_groups: "length (groups b) = length b div 2"
  by (induction b rule: groups.induct) auto

section \<open>The RFC 5952 form determines the groups\<close>

lemma zero_run_zero: "k < zero_run gs \<Longrightarrow> gs ! k = 0"
  by (induction gs arbitrary: k) (auto simp: zero_run_def nth_Cons split: nat.splits if_splits)

lemma zero_run_le: "zero_run gs \<le> length gs"
  unfolding zero_run_def by (rule length_takeWhile_le)

text \<open>Every group inside the run that the scan selects is zero.\<close>

lemma find_zeros_zeros:
  assumes "find_zeros (length pre) gs (s, e) = (s', e')"
    and "s \<le> e" and "e \<le> length (pre @ gs)" and "\<forall>k. s \<le> k \<and> k < e \<longrightarrow> (pre @ gs) ! k = 0"
  shows "s' \<le> e' \<and> e' \<le> length (pre @ gs) \<and> (\<forall>k. s' \<le> k \<and> k < e' \<longrightarrow> (pre @ gs) ! k = 0)"
  using assms
proof (induction gs arbitrary: pre s e)
  case Nil
  then show ?case by auto
next
  case (Cons g gs)
  let ?l = "zero_run (g # gs)" and ?i = "length pre"
  define b where "b = (if 2 \<le> ?l \<and> e - s < ?l then (?i, ?i + ?l) else (s, e))"
  obtain bs be where b': "b = (bs, be)" by (cases b)
  have run: "find_zeros (length (pre @ [g])) gs (bs, be) = (s', e')"
    using Cons.prems(1) by (simp add: b'[symmetric] b_def Let_def)
  have zeros: "\<forall>k. ?i \<le> k \<and> k < ?i + ?l \<longrightarrow> (pre @ g # gs) ! k = 0"
    using zero_run_zero [of _ "g # gs"] by (auto simp: nth_append)
  have "bs \<le> be \<and> be \<le> length (pre @ g # gs) \<and> (\<forall>k. bs \<le> k \<and> k < be \<longrightarrow> (pre @ g # gs) ! k = 0)"
    using b' Cons.prems(2-4) zeros zero_run_le [of "g # gs"]
    by (auto simp: b_def split: if_splits)
  with Cons.IH [OF run] show ?case by simp
qed

lemma find_zeros_split:
  assumes "find_zeros 0 gs (0, 0) = (s, e)"
  shows "s \<le> e" and "e \<le> length gs" and "gs = take s gs @ replicate (e - s) 0 @ drop e gs"
proof -
  have *: "s \<le> e \<and> e \<le> length gs \<and> (\<forall>k. s \<le> k \<and> k < e \<longrightarrow> gs ! k = 0)"
    using find_zeros_zeros [of "[]" gs 0 0 s e] assms by simp
  then show "s \<le> e" and "e \<le> length gs" by auto
  have "take (e - s) (drop s gs) = replicate (e - s) 0"
    using * by (intro nth_equalityI) auto
  then show "gs = take s gs @ replicate (e - s) 0 @ drop e gs"
    using * by (metis append_take_drop_id drop_drop le_add_diff_inverse2)
qed

text \<open>Reading the text back.\<close>

definition parse6 :: "string \<Rightarrow> nat list" where
  "parse6 t =
     (let toks = strings_Split t (CHR '':''); pre = takeWhile (\<lambda>x. x \<noteq> []) toks in
      if pre = toks then map read_hex toks
      else let post = rev (takeWhile (\<lambda>x. x \<noteq> []) (rev toks)) in
        map read_hex pre @ replicate (8 - length pre - length post) 0 @ map read_hex post)"

abbreviation hexes :: "nat list \<Rightarrow> string list" where
  "hexes gs \<equiv> map show_hex gs"

definition or_empty :: "string list \<Rightarrow> string list" where
  "or_empty ts = (if ts = [] then [[]] else ts)"

lemma or_empty_nonempty [simp]: "or_empty ts \<noteq> []"
  by (simp add: or_empty_def)

lemma Join_or_empty [simp]: "strings_Join (or_empty ts) sep = strings_Join ts sep"
  by (simp add: or_empty_def)

lemma takeWhile_or_empty:
  "takeWhile (\<lambda>x. x \<noteq> []) (or_empty (hexes gs) @ [] # ts) = hexes gs"
proof -
  have "takeWhile (\<lambda>x. x \<noteq> []) (hexes gs @ [] # ts) = hexes gs"
    by (subst takeWhile_append2) auto
  then show ?thesis by (simp add: or_empty_def)
qed

lemma compressed_tokens:
  "strings_Split (strings_Join (hexes pre) '':'' @ ''::'' @ strings_Join (hexes post) '':'') (CHR '':'') =
     or_empty (hexes pre) @ [] # or_empty (hexes post)"
proof -
  let ?ts = "or_empty (hexes pre) @ [] # or_empty (hexes post)"
  have "strings_Join ?ts '':'' =
      strings_Join (hexes pre) '':'' @ ''::'' @ strings_Join (hexes post) '':''"
    by (simp add: Join_append)
  moreover have "strings_Split (strings_Join ?ts '':'') (CHR '':'') = ?ts"
    by (rule Split_Join) (auto simp: or_empty_def show_hex_no_colon split: if_splits)
  ultimately show ?thesis by simp
qed

lemma map_read_hexes [simp]: "map (read_hex \<circ> show_hex) gs = gs"
  by (induction gs) auto

lemma parse6_string6:
  assumes "length gs = 8"
  shows "parse6 (string6 gs) = gs"
proof -
  obtain s e where se: "find_zeros 0 gs (0, 0) = (s, e)" by fastforce
  note split = find_zeros_split [OF se]
  show ?thesis
  proof (cases "s = e")
    case True
    have "gs \<noteq> []" using assms by auto
    then have "strings_Split (strings_Join (hexes gs) '':'') (CHR '':'') = hexes gs"
      by (intro Split_Join) (auto simp: show_hex_no_colon)
    moreover have "takeWhile (\<lambda>x. x \<noteq> []) (hexes gs) = hexes gs"
      by (simp add: takeWhile_eq_all_conv)
    ultimately show ?thesis
      using True se by (simp add: parse6_def string6_def)
  next
    case False
    let ?pre = "take s gs" and ?post = "drop e gs"
    let ?toks = "or_empty (hexes ?pre) @ [] # or_empty (hexes ?post)"
    have tw: "takeWhile (\<lambda>x. x \<noteq> []) ?toks = hexes ?pre"
      by (rule takeWhile_or_empty)
    have "rev ?toks = or_empty (hexes (rev ?post)) @ [] # or_empty (hexes (rev ?pre))"
      by (simp add: or_empty_def rev_map)
    then have tr: "rev (takeWhile (\<lambda>x. x \<noteq> []) (rev ?toks)) = hexes ?post"
      by (simp add: takeWhile_or_empty rev_map del: rev_append)
    have ne: "hexes ?pre \<noteq> ?toks"
      by (metis Cons_eq_appendI append.right_neutral in_set_conv_decomp list.set_map
          imageE show_hex_nonempty)
    have "8 - length ?pre - length ?post = e - s"
      using split assms by simp
    moreover have "string6 gs = strings_Join (hexes ?pre) '':'' @ ''::'' @ strings_Join (hexes ?post) '':''"
      using False se by (simp add: string6_def)
    then have "strings_Split (string6 gs) (CHR '':'') = ?toks"
      by (simp only: compressed_tokens)
    ultimately have "parse6 (string6 gs) = ?pre @ replicate (e - s) 0 @ ?post"
      unfolding parse6_def Let_def by (simp only: tw tr ne if_False length_map map_map map_read_hexes)
    with split(3) show ?thesis by simp
  qed
qed

section \<open>The text determines the address up to \<^verbatim>\<open>To4\<close>\<close>

definition normalize :: "IP \<Rightarrow> IP" where
  "normalize ip = (case To4 ip of Some v4 \<Rightarrow> v4 | None \<Rightarrow> ip)"

definition valid_ip :: "IP \<Rightarrow> bool" where
  "valid_ip ip \<longleftrightarrow> length ip = 4 \<or> length ip = 16"

lemma To4_length: "To4 ip = Some v \<Longrightarrow> length v = 4"
  by (auto simp: To4_def split: if_splits)

lemma To4_normalize:
  "To4 (normalize ip) = To4 ip"
  by (auto simp: normalize_def To4_def split: option.splits if_splits)

lemma To4_short: "length ip = 4 \<Longrightarrow> To4 ip = Some ip"
  by (simp add: To4_def)

lemma normalize_idem [simp]: "normalize (normalize ip) = normalize ip"
  using To4_length [of ip] by (auto simp: normalize_def To4_short split: option.split)

lemma normalize_mapped:
  "length v4 = 4 \<Longrightarrow> normalize (replicate 10 0 @ [255, 255] @ v4) = v4 \<and> normalize v4 = v4"
  by (auto simp: normalize_def To4_def nth_append)

lemma show_nat_no_dot: "CHR ''.'' \<notin> set (show_nat n)" and show_nat_no_colon: "CHR '':'' \<notin> set (show_nat n)"
  using show_nat_digits [of _ n] by fastforce+

lemma string4_inj:
  assumes "length a = 4" and "length b = 4" and "string4 a = string4 b"
  shows "a = b"
proof -
  let ?f = "\<lambda>x :: byte. show_nat (unat x)"
  have "map ?f a = map ?f b"
    using assms by (intro Join_inj [where sep = "CHR ''.''"]) (auto simp: string4_def show_nat_no_dot)
  moreover have "inj ?f"
    by (intro injI) (auto dest!: show_nat_inj simp: word_unat_eq_iff)
  ultimately show ?thesis by (simp add: inj_map_eq_map)
qed

lemma string4_no_colon: "CHR '':'' \<notin> set (string4 ip)"
  using set_Join [of "map (\<lambda>b. show_nat (unat b)) ip" "''.''"] show_nat_no_colon
  by (fastforce simp: string4_def)

lemma string6_colon:
  assumes "length gs = 8"
  shows "CHR '':'' \<in> set (string6 gs)"
proof -
  obtain g h gs' where "gs = g # h # gs'"
    using assms by (auto simp: numeral_eq_Suc length_Suc_conv)
  then show ?thesis
    by (cases "find_zeros 0 gs (0, 0)") (simp add: string6_def del: find_zeros.simps)
qed

lemma IP_String_valid:
  "valid_ip ip \<Longrightarrow> IP_String ip = (case To4 ip of Some p4 \<Rightarrow> string4 p4 | None \<Rightarrow> string6 (groups ip))"
  by (auto simp: IP_String_def valid_ip_def)

lemma IP_String_eq_iff:
  assumes "valid_ip a" and "valid_ip b"
  shows "IP_String a = IP_String b \<longleftrightarrow> normalize a = normalize b"
proof (cases "To4 a"; cases "To4 b")
  fix x y assume xy: "To4 a = Some x" "To4 b = Some y"
  then have "IP_String a = IP_String b \<longleftrightarrow> string4 x = string4 y"
    using assms by (simp add: IP_String_valid)
  with xy show ?thesis
    using string4_inj [of x y] To4_length by (auto simp: normalize_def)
next
  assume none: "To4 a = None" "To4 b = None"
  then have len: "length a = 16" "length b = 16"
    using assms by (auto simp: To4_def valid_ip_def split: if_splits)
  then have "parse6 (string6 (groups a)) = groups a" "parse6 (string6 (groups b)) = groups b"
    by (simp_all add: parse6_string6 length_groups)
  then have "string6 (groups a) = string6 (groups b) \<Longrightarrow> groups a = groups b"
    by metis
  then have "string6 (groups a) = string6 (groups b) \<longleftrightarrow> a = b"
    using groups_inj [of a b] len by auto
  with none assms show ?thesis by (simp add: IP_String_valid normalize_def)
next
  fix x assume x: "To4 a = Some x" "To4 b = None"
  then have len: "length b = 16" using assms by (auto simp: To4_def valid_ip_def split: if_splits)
  then have "string4 x \<noteq> string6 (groups b)"
    using string4_no_colon [of x] string6_colon [of "groups b"] by (auto simp: length_groups)
  moreover have "x \<noteq> b" using To4_length [OF x(1)] len by auto
  ultimately show ?thesis using x assms by (simp add: IP_String_valid normalize_def)
next
  fix y assume y: "To4 a = None" "To4 b = Some y"
  then have len: "length a = 16" using assms by (auto simp: To4_def valid_ip_def split: if_splits)
  then have "string4 y \<noteq> string6 (groups a)"
    using string4_no_colon [of y] string6_colon [of "groups a"] by (auto simp: length_groups)
  moreover have "a \<noteq> y" using To4_length [OF y(2)] len by auto
  ultimately show ?thesis using y assms by (auto simp: IP_String_valid normalize_def)
qed

lemma valid_normalize: "valid_ip ip \<Longrightarrow> valid_ip (normalize ip)"
  using To4_length [of ip] by (auto simp: valid_ip_def normalize_def split: option.split)

text \<open>An address is a plain IPv4 address, a mapped one, or one that \<^verbatim>\<open>To4\<close> does not know.\<close>

lemma valid_ip_cases:
  assumes "valid_ip ip"
  obtains (plain) "length ip = 4" "normalize ip = ip"
  | (mapped) v where "length v = 4" "ip = replicate 10 0 @ [255, 255] @ v" "normalize ip = v"
  | (other) "length ip = 16" "normalize ip = ip" "\<And>v. length v = 4 \<Longrightarrow> ip \<noteq> replicate 10 0 @ [255, 255] @ v"
proof (cases "To4 ip")
  case None
  then have len: "length ip = 16" using assms by (auto simp: To4_def valid_ip_def split: if_splits)
  have "ip \<noteq> replicate 10 0 @ [255, 255] @ v" if "length v = 4" for v
    using None normalize_mapped [OF that] len that by (auto simp: normalize_def)
  with None len show ?thesis by (intro other) (simp_all add: normalize_def)
next
  case (Some v)
  show ?thesis
  proof (cases "length ip = 4")
    case True
    then show ?thesis by (intro plain) (simp_all add: normalize_def To4_short)
  next
    case False
    with Some assms have m: "length ip = 16" "\<forall>b \<in> set (take 10 ip). b = 0" "ip ! 10 = 255" "ip ! 11 = 255" "v = drop 12 ip"
      by (auto simp: To4_def split: if_splits)
    have "take 10 ip = replicate 10 0" using m(1,2) by (intro replicate_eqI) auto
    moreover have "drop 10 ip = ip ! 10 # ip ! 11 # drop 12 ip"
      using Cons_nth_drop_Suc [of 10 ip] Cons_nth_drop_Suc [of 11 ip] m(1) by simp
    ultimately have eq: "ip = replicate 10 0 @ [255, 255] @ v"
      unfolding m(3-5) by (metis append_take_drop_id append_Cons append_Nil)
    show ?thesis by (rule mapped [OF To4_length [OF Some] eq]) (simp add: normalize_def Some)
  qed
qed

lemma normalize_eq_iff:
  assumes "valid_ip a" and "valid_ip b"
  shows "normalize a = normalize b \<longleftrightarrow> a = b \<or> a = replicate 10 0 @ [255, 255] @ b \<or> b = replicate 10 0 @ [255, 255] @ a"
  using assms(1)
proof (cases rule: valid_ip_cases)
  case plain
  from assms(2) show ?thesis
  proof (cases rule: valid_ip_cases)
    case (mapped v)
    with plain show ?thesis by auto
  qed (use plain in auto)
next
  case (mapped v)
  note a = this
  from assms(2) show ?thesis
  proof (cases rule: valid_ip_cases)
    case plain
    with a show ?thesis by auto
  next
    case (mapped u)
    with a show ?thesis by auto
  next
    case other
    with a show ?thesis by auto
  qed
next
  case other
  from assms(2) show ?thesis
    by (cases rule: valid_ip_cases) (use other in auto)
qed

end
