(* ===== verification/Ratelimit.thy ===== *)
theory Ratelimit
  imports NetIP
begin

text \<open>
  The per-IP exponential backoff of \<^verbatim>\<open>internal/ratelimit/ratelimit.go\<close>, one operation at a
  time: \<open>computeDelay\<close>, the entry map with its heap of entries, \<open>loadOrCreate\<close>, \<open>Acquire\<close>,
  the returned \<^verbatim>\<open>release\<close> closure and \<open>Snapshot\<close>. The clock is an argument, and the entries
  are heap objects because the code compares and shares their pointers. The mutexes and the
  interleaving of several connections are the subject of \<^verbatim>\<open>LimiterSteps\<close>.
\<close>

section \<open>Delays\<close>

definition MaxDelay :: nanos where
  "MaxDelay = 60 * Second"

definition IdleExpiry :: nanos where
  "IdleExpiry = 600 * Second"

text \<open>
  \<^verbatim>\<open>time.Duration\<close> is a signed 64-bit integer: the shift and the product are computed on
  \<open>64 word\<close> and read back with \<open>sint\<close>.
\<close>

definition backoff_word :: "nat \<Rightarrow> 64 word" where
  "backoff_word exp = push_bit exp 1 * 1000000000"

definition computeDelay :: "int \<Rightarrow> nanos" where
  "computeDelay failCount =
     (if failCount \<le> 0 then 0
      else let exp = failCount - 1 in
        if exp > 62 then MaxDelay
        else let d = sint (backoff_word (nat exp)) in
          if d > MaxDelay \<or> d < 0 then MaxDelay else d)"

section \<open>State\<close>

record entry =
  failCount :: int
  lastFail :: nanos

record Limiter =
  entries :: "string \<rightharpoonup> nat"
  heap :: "nat \<Rightarrow> entry"
  next_addr :: nat

definition zero_entry :: entry where
  "zero_entry = \<lparr>failCount = 0, lastFail = 0\<rparr>"

definition New_Limiter :: Limiter where
  "New_Limiter = \<lparr>entries = Map.empty, heap = (\<lambda>_. zero_entry), next_addr = 0\<rparr>"

section \<open>Operations\<close>

text \<open>The write-locked half of \<open>loadOrCreate\<close>: the second look-up and the insertion.\<close>

definition create_entry :: "string \<Rightarrow> Limiter \<Rightarrow> nat \<times> Limiter" where
  "create_entry key l =
     (case entries l key of
        Some e \<Rightarrow> (e, l)
      | None \<Rightarrow>
          (let e = next_addr l in
           (e, l\<lparr>entries := (entries l)(key \<mapsto> e), heap := (heap l)(e := zero_entry),
                 next_addr := Suc e\<rparr>)))"

definition loadOrCreate :: "string \<Rightarrow> Limiter \<Rightarrow> nat \<times> Limiter" where
  "loadOrCreate key l =
     (case entries l key of Some e \<Rightarrow> (e, l) | None \<Rightarrow> create_entry key l)"

definition stale :: "nanos \<Rightarrow> entry \<Rightarrow> bool" where
  "stale now e \<longleftrightarrow> failCount e > 0 \<and> now - lastFail e > IdleExpiry"

text \<open>\<^verbatim>\<open>if cur, present := l.entries[key]; present && cur == e { delete(l.entries, key) }\<close>\<close>

definition remove_if_current :: "string \<Rightarrow> nat \<Rightarrow> Limiter \<Rightarrow> Limiter" where
  "remove_if_current key e l =
     (if entries l key = Some e then l\<lparr>entries := (entries l)(key := None)\<rparr> else l)"

definition limiter_key :: "IP \<Rightarrow> string" where
  "limiter_key ip = IP_String (normalize ip)"

type_synonym handle = "string \<times> nat"

definition Acquire :: "nanos \<Rightarrow> IP \<Rightarrow> Limiter \<Rightarrow> nanos \<times> handle \<times> Limiter" where
  "Acquire now ip l =
     (let key = limiter_key ip;
          (e, l) = loadOrCreate key l;
          (e, l) = (if stale now (heap l e) then loadOrCreate key (remove_if_current key e l)
                    else (e, l))
      in (computeDelay (failCount (heap l e)), (key, e), l))"

definition record_failure :: "nanos \<Rightarrow> nat \<Rightarrow> Limiter \<Rightarrow> Limiter" where
  "record_failure now e l =
     l\<lparr>heap := (heap l)(e := \<lparr>failCount = failCount (heap l e) + 1, lastFail = now\<rparr>)\<rparr>"

fun release :: "nanos \<Rightarrow> bool \<Rightarrow> handle \<Rightarrow> Limiter \<Rightarrow> Limiter" where
  "release now success (key, e) l =
     (if success then remove_if_current key e l else record_failure now e l)"

definition Snapshot :: "Limiter \<Rightarrow> string \<rightharpoonup> int" where
  "Snapshot l = (\<lambda>k. map_option (\<lambda>e. failCount (heap l e)) (entries l k))"

text \<open>One attempt of a caller: \<open>Acquire\<close> at one instant, \<open>release\<close> at a later one.\<close>

fun run_attempts ::
    "(nanos \<Rightarrow> IP \<Rightarrow> 'l \<Rightarrow> nanos \<times> 'h \<times> 'l) \<Rightarrow> (nanos \<Rightarrow> bool \<Rightarrow> 'h \<Rightarrow> 'l \<Rightarrow> 'l) \<Rightarrow>
     (IP \<times> nanos \<times> nanos \<times> bool) list \<Rightarrow> 'l \<Rightarrow> nanos list \<times> 'l" where
  "run_attempts acq rel [] l = ([], l)"
| "run_attempts acq rel ((ip, t, t', success) # as) l =
     (let (d, h, l1) = acq t ip l;
          (ds, l2) = run_attempts acq rel as (rel t' success h l1)
      in (d # ds, l2))"

section \<open>The delay of a fail count\<close>

text \<open>
  The code multiplies \<^verbatim>\<open>2^exp\<close> by \<^verbatim>\<open>10^9 = 2^9 * 5^9\<close>, so for \<^verbatim>\<open>55 <= exp <= 62\<close> the
  product is a multiple of \<^verbatim>\<open>2^64\<close> and wraps to 0, which is neither above the cap nor negative.
\<close>

definition delay_formula :: "int \<Rightarrow> nanos" where
  "delay_formula n = (if n \<le> 0 then 0 else min MaxDelay (2 ^ nat (n - 1) * Second))"

lemma nat_up_to_62: "k \<le> 62 \<Longrightarrow> k \<in> set [0..<63]" for k :: nat
  by simp

lemma computeDelay_small:
  assumes "k \<le> 62"
  shows "(let d = sint (backoff_word k) in if d > MaxDelay \<or> d < 0 then MaxDelay else d) =
    (if 55 \<le> k then 0 else min MaxDelay (2 ^ k * Second))"
proof -
  have "\<forall>k \<in> set [0..<63]. (let d = sint (backoff_word k) in if d > MaxDelay \<or> d < 0 then MaxDelay else d) =
    (if 55 \<le> k then 0 else min MaxDelay (2 ^ k * Second))"
    by (simp add: upt_rec backoff_word_def MaxDelay_def Second_def)
  with assms nat_up_to_62 show ?thesis by blast
qed

lemma delay_formula_large: "63 \<le> n \<Longrightarrow> delay_formula n = MaxDelay"
proof -
  assume "63 \<le> n"
  then have "(2::int) ^ 6 \<le> 2 ^ nat (n - 1)"
    by (intro power_increasing) auto
  then show ?thesis
    using \<open>63 \<le> n\<close> by (simp add: delay_formula_def MaxDelay_def Second_def)
qed

lemma computeDelay_char:
  "computeDelay n = (if 56 \<le> n \<and> n \<le> 63 then 0 else delay_formula n)"
proof -
  consider "n \<le> 0" | "0 < n" "n \<le> 63" | "63 < n" by linarith
  then show ?thesis
  proof cases
    case 1
    then show ?thesis by (simp add: computeDelay_def delay_formula_def)
  next
    case 2
    then have "nat (n - 1) \<le> 62" by simp
    from computeDelay_small [OF this] 2 show ?thesis
      by (auto simp: computeDelay_def delay_formula_def Let_def)
  next
    case 3
    then show ?thesis by (simp add: computeDelay_def delay_formula_large)
  qed
qed

lemma computeDelay_bounds: "0 \<le> computeDelay n \<and> computeDelay n \<le> MaxDelay"
  by (auto simp: computeDelay_char delay_formula_def MaxDelay_def Second_def)

lemma computeDelay_0 [simp]: "computeDelay 0 = 0"
  by (simp add: computeDelay_def)

text \<open>
  A run of failures from one address: each attempt starts no later than \<open>IdleExpiry\<close> after the
  failure before it was recorded.
\<close>

fun failing_run :: "nanos \<Rightarrow> IP \<Rightarrow> (IP \<times> nanos \<times> nanos \<times> bool) list \<Rightarrow> bool" where
  "failing_run prev ip [] = True"
| "failing_run prev ip ((ip', t, t', ok) # as) \<longleftrightarrow>
     ip' = ip \<and> \<not> ok \<and> t - prev \<le> IdleExpiry \<and> failing_run t' ip as"

section \<open>The interface of a rate limiter\<close>

text \<open>
  What the authentication callbacks rely on (the interface \<^verbatim>\<open>rateLimiter\<close> of
  \<^verbatim>\<open>internal/server/auth.go\<close>). \<open>fails t l k\<close> is the number of failures that an attempt
  on key \<open>k\<close> at instant \<open>t\<close> is charged for.
\<close>

locale rate_limiter =
  fixes acquire :: "nanos \<Rightarrow> IP \<Rightarrow> 'l \<Rightarrow> nanos \<times> 'h \<times> 'l"
    and rel :: "nanos \<Rightarrow> bool \<Rightarrow> 'h \<Rightarrow> 'l \<Rightarrow> 'l"
    and snap :: "'l \<Rightarrow> string \<Rightarrow> int option"
    and key :: "IP \<Rightarrow> string"
    and fails :: "nanos \<Rightarrow> 'l \<Rightarrow> string \<Rightarrow> int"
    and invar :: "'l \<Rightarrow> bool"
  assumes acquire_delay: "invar l \<Longrightarrow> acquire t ip l = (d, h, l1) \<Longrightarrow> d = computeDelay (fails t l (key ip))"
    and cycle_invar: "invar l \<Longrightarrow> acquire t ip l = (d, h, l1) \<Longrightarrow> invar (rel t' ok h l1)"
    and failure_counted: "invar l \<Longrightarrow> acquire t ip l = (d, h, l1) \<Longrightarrow>
      snap (rel t' False h l1) (key ip) = Some (fails t l (key ip) + 1)"
    and success_clears: "invar l \<Longrightarrow> acquire t ip l = (d, h, l1) \<Longrightarrow> snap (rel t' True h l1) (key ip) = None"
    and other_keys: "invar l \<Longrightarrow> acquire t ip l = (d, h, l1) \<Longrightarrow> k \<noteq> key ip \<Longrightarrow>
      snap (rel t' ok h l1) k = snap l k \<and> fails t'' (rel t' ok h l1) k = fails t'' l k"
    and fails_failure: "invar l \<Longrightarrow> acquire t ip l = (d, h, l1) \<Longrightarrow>
      fails t'' (rel t' False h l1) (key ip) =
        (if t'' - t' > IdleExpiry then 0 else fails t l (key ip) + 1)"
    and fails_success: "invar l \<Longrightarrow> acquire t ip l = (d, h, l1) \<Longrightarrow> fails t'' (rel t' True h l1) (key ip) = 0"
    and fails_nonneg: "invar l \<Longrightarrow> 0 \<le> fails t l k"
begin

text \<open>Attempts from other addresses neither change nor see the counter of a key.\<close>

lemma run_other_keys:
  assumes "invar l" and "\<forall>(ip, t, t', ok) \<in> set as. key ip \<noteq> k"
  shows "invar (snd (run_attempts acquire rel as l)) \<and>
    fails t0 (snd (run_attempts acquire rel as l)) k = fails t0 l k"
  using assms
proof (induction as arbitrary: l)
  case (Cons a as)
  obtain ip t t' ok where a: "a = (ip, t, t', ok)" by (metis prod_cases4)
  obtain d h l1 where acq: "acquire t ip l = (d, h, l1)" by (metis prod_cases3)
  from Cons.prems a have "k \<noteq> key ip" by auto
  then have "fails t0 (rel t' ok h l1) k = fails t0 l k"
    using other_keys [OF Cons.prems(1) acq] by blast
  with Cons.IH [of "rel t' ok h l1"] cycle_invar [OF Cons.prems(1) acq] Cons.prems(2) acq a
  show ?case by (auto split: prod.splits)
qed simp

text \<open>
  A run of failures from one address is delayed by \<open>computeDelay\<close> of the rising counter.
\<close>

lemma run_failures:
  assumes "invar l" and "failing_run prev ip as"
    and "\<forall>t. t - prev \<le> IdleExpiry \<longrightarrow> fails t l (key ip) = n"
  shows "fst (run_attempts acquire rel as l) = map (\<lambda>i. computeDelay (n + int i)) [0..<length as]"
  using assms
proof (induction as arbitrary: l n prev)
  case (Cons a as)
  obtain t t' where a: "a = (ip, t, t', False)" and t: "t - prev \<le> IdleExpiry"
    and run: "failing_run t' ip as"
    using Cons.prems(2) by (cases a) auto
  obtain d h l1 where acq: "acquire t ip l = (d, h, l1)" by (metis prod_cases3)
  have n: "fails t l (key ip) = n" using Cons.prems(3) t by blast
  have d: "d = computeDelay n" using acquire_delay [OF Cons.prems(1) acq] n by simp
  have "\<forall>t''. t'' - t' \<le> IdleExpiry \<longrightarrow> fails t'' (rel t' False h l1) (key ip) = n + 1"
    using fails_failure [OF Cons.prems(1) acq] n by auto
  from Cons.IH [OF cycle_invar [OF Cons.prems(1) acq] run this]
  have "fst (run_attempts acquire rel as (rel t' False h l1)) =
      map (\<lambda>i. computeDelay (n + int (Suc i))) [0..<length as]"
    by (simp add: algebra_simps)
  moreover have "[0..<length (a # as)] = 0 # map Suc [0..<length as]"
    by (simp add: map_Suc_upt upt_conv_Cons del: upt_Suc)
  ultimately show ?case
    using a acq d by (simp add: comp_def case_prod_beta Let_def del: upt_Suc)
qed simp

end

section \<open>The limiter implements the interface\<close>

definition lim_inv :: "Limiter \<Rightarrow> bool" where
  "lim_inv l \<longleftrightarrow>
     (\<forall>k e. entries l k = Some e \<longrightarrow> e < next_addr l \<and> 0 \<le> failCount (heap l e)) \<and>
     (\<forall>k k' e. entries l k = Some e \<and> entries l k' = Some e \<longrightarrow> k = k')"

definition fails_of :: "nanos \<Rightarrow> Limiter \<Rightarrow> string \<Rightarrow> int" where
  "fails_of now l k =
     (case entries l k of
        None \<Rightarrow> 0
      | Some e \<Rightarrow> if stale now (heap l e) then 0 else failCount (heap l e))"

lemma lim_inv_New: "lim_inv New_Limiter"
  by (simp add: lim_inv_def New_Limiter_def)

lemma lim_invD:
  "lim_inv l \<Longrightarrow> entries l k = Some e \<Longrightarrow> e < next_addr l"
  "lim_inv l \<Longrightarrow> entries l k = Some e \<Longrightarrow> 0 \<le> failCount (heap l e)"
  "lim_inv l \<Longrightarrow> entries l k = Some e \<Longrightarrow> entries l k' = Some e \<Longrightarrow> k = k'"
  by (auto simp: lim_inv_def)

text \<open>
  What \<open>Acquire\<close> leaves behind: the key's entry is in the map and carries the charged
  failures, and the entries of the other keys are untouched.
\<close>

definition acquired :: "nanos \<Rightarrow> Limiter \<Rightarrow> string \<Rightarrow> nat \<Rightarrow> Limiter \<Rightarrow> bool" where
  "acquired now l k e l' \<longleftrightarrow>
     lim_inv l' \<and> entries l' k = Some e \<and> failCount (heap l' e) = fails_of now l k \<and>
     (\<forall>k' e'. k' \<noteq> k \<longrightarrow> entries l' k' = entries l k' \<and>
        (entries l k' = Some e' \<longrightarrow> e' \<noteq> e \<and> heap l' e' = heap l e'))"

lemma create_entry_fresh:
  assumes "lim_inv l" and "entries l k = None"
  shows "case create_entry k l of (e, l') \<Rightarrow>
    lim_inv l' \<and> entries l' k = Some e \<and> heap l' e = zero_entry \<and>
    (\<forall>k' e'. k' \<noteq> k \<longrightarrow> entries l' k' = entries l k' \<and>
        (entries l k' = Some e' \<longrightarrow> e' \<noteq> e \<and> heap l' e' = heap l e'))"
  using assms
  by (fastforce simp: create_entry_def lim_inv_def zero_entry_def Let_def)

lemma remove_inv: "lim_inv l \<Longrightarrow> lim_inv (remove_if_current k e l)"
  by (auto simp: lim_inv_def remove_if_current_def split: if_splits)

lemma record_failure_inv:
  assumes "lim_inv l" and "0 \<le> failCount (heap l e)"
  shows "lim_inv (record_failure t e l)"
proof -
  have "\<forall>k e'. entries l k = Some e' \<longrightarrow> 0 \<le> failCount (heap (record_failure t e l) e')"
    using lim_invD(2) [OF assms(1)] assms(2) by (simp add: record_failure_def)
  then show ?thesis
    using assms(1) unfolding lim_inv_def by (simp add: record_failure_def)
qed

lemma remove_frame:
  "k' \<noteq> k \<Longrightarrow> entries (remove_if_current k e l) k' = entries l k'"
  "heap (remove_if_current k e l) = heap l"
  by (auto simp: remove_if_current_def)

lemma Acquire_acquired:
  assumes inv: "lim_inv l" and acq: "Acquire now ip l = (d, (k, e), l')"
  shows "k = limiter_key ip" and "d = computeDelay (fails_of now l k)" and "acquired now l k e l'"
proof -
  show k: "k = limiter_key ip"
    using acq by (simp add: Acquire_def Let_def case_prod_beta)
  have "d = computeDelay (failCount (heap l' e)) \<and> acquired now l k e l'"
  proof (cases "entries l k")
    case None
    then have "Acquire now ip l = (let (e, l') = create_entry k l in
        (computeDelay (failCount (heap l' e)), (k, e), l'))"
      using create_entry_fresh [OF inv None]
      by (auto simp: Acquire_def loadOrCreate_def k [symmetric] stale_def zero_entry_def Let_def
          split: prod.splits)
    with None create_entry_fresh [OF inv None] acq show ?thesis
      by (auto simp: acquired_def fails_of_def zero_entry_def split: prod.splits)
  next
    case (Some a)
    show ?thesis
    proof (cases "stale now (heap l a)")
      case False
      with Some acq inv show ?thesis
        by (auto simp: Acquire_def loadOrCreate_def k [symmetric] acquired_def fails_of_def
            dest: lim_invD(3))
    next
      case True
      let ?l = "remove_if_current k a l"
      have none: "entries ?l k = None" using Some by (simp add: remove_if_current_def)
      note fresh = create_entry_fresh [OF remove_inv [OF inv] none]
      have "(d, (k, e), l') = (let (e, l') = create_entry k ?l in
          (computeDelay (failCount (heap l' e)), (k, e), l'))"
        using acq Some True none
        by (simp add: Acquire_def loadOrCreate_def k [symmetric] Let_def split: prod.splits)
      with fresh Some True show ?thesis
        by (auto simp: acquired_def fails_of_def zero_entry_def remove_frame split: prod.splits)
    qed
  qed
  then show "d = computeDelay (fails_of now l k)" and "acquired now l k e l'"
    by (auto simp: acquired_def)
qed

lemma fails_of_nonneg: "lim_inv l \<Longrightarrow> 0 \<le> fails_of t l k"
  by (auto simp: fails_of_def lim_inv_def split: option.split)

text \<open>The two releases of an acquired entry.\<close>

lemma release_failure_laws:
  assumes "acquired t l k e l1" and "lim_inv l"
  shows "lim_inv (record_failure t' e l1)"
    and "Snapshot (record_failure t' e l1) k = Some (fails_of t l k + 1)"
    and "fails_of t'' (record_failure t' e l1) k =
      (if t'' - t' > IdleExpiry then 0 else fails_of t l k + 1)"
    and "k' \<noteq> k \<Longrightarrow> Snapshot (record_failure t' e l1) k' = Snapshot l k' \<and>
      fails_of t'' (record_failure t' e l1) k' = fails_of t'' l k'"
proof -
  have nn: "0 \<le> fails_of t l k" using fails_of_nonneg [OF assms(2)] .
  show "lim_inv (record_failure t' e l1)"
    using assms(1) nn by (intro record_failure_inv) (auto simp: acquired_def)
  show "Snapshot (record_failure t' e l1) k = Some (fails_of t l k + 1)"
    using assms(1) by (auto simp: acquired_def Snapshot_def record_failure_def)
  show "fails_of t'' (record_failure t' e l1) k =
      (if t'' - t' > IdleExpiry then 0 else fails_of t l k + 1)"
    using assms(1) nn by (auto simp: acquired_def fails_of_def [of t''] record_failure_def stale_def)
  show "k' \<noteq> k \<Longrightarrow> Snapshot (record_failure t' e l1) k' = Snapshot l k' \<and>
      fails_of t'' (record_failure t' e l1) k' = fails_of t'' l k'"
    using assms(1)
    by (cases "entries l k'") (auto simp: acquired_def Snapshot_def fails_of_def record_failure_def)
qed

lemma release_success_laws:
  assumes "acquired t l k e l1"
  shows "lim_inv (remove_if_current k e l1)"
    and "Snapshot (remove_if_current k e l1) k = None"
    and "fails_of t'' (remove_if_current k e l1) k = 0"
    and "k' \<noteq> k \<Longrightarrow> Snapshot (remove_if_current k e l1) k' = Snapshot l k' \<and>
      fails_of t'' (remove_if_current k e l1) k' = fails_of t'' l k'"
proof -
  show "lim_inv (remove_if_current k e l1)"
    using assms by (auto simp: acquired_def intro: remove_inv)
  have none: "entries (remove_if_current k e l1) k = None"
    using assms by (simp add: acquired_def remove_if_current_def)
  then show "Snapshot (remove_if_current k e l1) k = None"
    and "fails_of t'' (remove_if_current k e l1) k = 0"
    by (simp_all add: Snapshot_def fails_of_def)
  show "k' \<noteq> k \<Longrightarrow> Snapshot (remove_if_current k e l1) k' = Snapshot l k' \<and>
      fails_of t'' (remove_if_current k e l1) k' = fails_of t'' l k'"
    using assms
    by (cases "entries l k'") (auto simp: acquired_def Snapshot_def fails_of_def remove_frame)
qed

lemmas release_laws = release_failure_laws release_success_laws

interpretation lim: rate_limiter Acquire release Snapshot limiter_key fails_of lim_inv
proof
  fix l t ip d h l1 t' ok t'' k
  assume inv: "lim_inv l"
  {
    assume acq: "Acquire t ip l = (d, h, l1)"
    obtain k0 e where h: "h = (k0, e)" by fastforce
    note laws = Acquire_acquired [OF inv acq [unfolded h]]
    show "d = computeDelay (fails_of t l (limiter_key ip))"
      using laws(1,2) by simp
    show "lim_inv (release t' ok h l1)"
      using laws(3) inv by (cases ok) (simp_all add: h release_laws)
    show "Snapshot (release t' False h l1) (limiter_key ip) = Some (fails_of t l (limiter_key ip) + 1)"
      using release_failure_laws(2) [OF laws(3) inv] laws(1) by (simp add: h)
    show "Snapshot (release t' True h l1) (limiter_key ip) = None"
      using release_success_laws(2) [OF laws(3)] laws(1) by (simp add: h)
    show "fails_of t'' (release t' False h l1) (limiter_key ip) =
        (if t'' - t' > IdleExpiry then 0 else fails_of t l (limiter_key ip) + 1)"
      using release_failure_laws(3) [OF laws(3) inv] laws(1) by (simp add: h)
    show "fails_of t'' (release t' True h l1) (limiter_key ip) = 0"
      using release_success_laws(3) [OF laws(3)] laws(1) by (simp add: h)
    assume "k \<noteq> limiter_key ip"
    then show "Snapshot (release t' ok h l1) k = Snapshot l k \<and>
        fails_of t'' (release t' ok h l1) k = fails_of t'' l k"
      using release_failure_laws(4) [OF laws(3) inv, of k] release_success_laws(4) [OF laws(3), of k]
        laws(1) by (cases ok) (simp_all add: h)
  }
  show "0 \<le> fails_of t l k" using inv by (rule fails_of_nonneg)
qed

section \<open>Refinement of the abstract backoff\<close>

text \<open>
  The abstract backoff: a map from the key to the failures counted and the instant of the last
  one. An attempt first forgets an idle entry, is delayed by the counter, and then either
  clears the entry or counts one more failure.
\<close>

type_synonym backoff = "string \<rightharpoonup> int \<times> nanos"

definition expire :: "nanos \<Rightarrow> string \<Rightarrow> backoff \<Rightarrow> backoff" where
  "expire now k m = (case m k of
     Some (c, at) \<Rightarrow> if now - at > IdleExpiry then m(k := None) else m | None \<Rightarrow> m)"

definition spec_count :: "backoff \<Rightarrow> string \<Rightarrow> int" where
  "spec_count m k = (case m k of Some (c, _) \<Rightarrow> c | None \<Rightarrow> 0)"

definition spec_attempt :: "string \<Rightarrow> nanos \<Rightarrow> nanos \<Rightarrow> bool \<Rightarrow> backoff \<Rightarrow> nanos \<times> backoff" where
  "spec_attempt k t t' success m =
     (let m = expire t k m; c = spec_count m k in
      (computeDelay c, if success then m(k := None) else m(k \<mapsto> (c + 1, t'))))"

fun spec_run :: "(IP \<times> nanos \<times> nanos \<times> bool) list \<Rightarrow> backoff \<Rightarrow> nanos list \<times> backoff" where
  "spec_run [] m = ([], m)"
| "spec_run ((ip, t, t', success) # as) m =
     (let (d, m1) = spec_attempt (limiter_key ip) t t' success m; (ds, m2) = spec_run as m1
      in (d # ds, m2))"

definition abs_lim :: "Limiter \<Rightarrow> backoff" where
  "abs_lim l = (\<lambda>k. case entries l k of None \<Rightarrow> None
     | Some e \<Rightarrow> if failCount (heap l e) = 0 then None else Some (failCount (heap l e), lastFail (heap l e)))"

lemma spec_count_expire:
  "lim_inv l \<Longrightarrow> spec_count (expire t k (abs_lim l)) k = fails_of t l k"
  by (auto simp: spec_count_def expire_def abs_lim_def fails_of_def stale_def
      dest: lim_invD(2) split: option.splits if_splits)

lemma expire_other: "k' \<noteq> k \<Longrightarrow> expire t k m k' = m k'"
  by (auto simp: expire_def split: option.splits)

lemma attempt_refines:
  assumes inv: "lim_inv l" and acq: "Acquire t ip l = (d, h, l1)"
  shows "spec_attempt (limiter_key ip) t t' ok (abs_lim l) = (d, abs_lim (release t' ok h l1))"
proof -
  obtain k e where h: "h = (k, e)" by fastforce
  note laws = Acquire_acquired [OF inv acq [unfolded h]]
  have nn: "0 \<le> fails_of t l k" using fails_of_nonneg [OF inv] .
  note acquired_at = laws(3) [unfolded acquired_def]
  let ?m = "expire t k (abs_lim l)"
  have other: "abs_lim (release t' ok h l1) k' = ?m k'" if "k' \<noteq> k" for k'
  proof -
    have "entries (release t' ok h l1) k' = entries l k'"
      using acquired_at that by (simp add: h remove_frame record_failure_def)
    moreover have "entries l k' = Some e' \<Longrightarrow> heap (release t' ok h l1) e' = heap l e'" for e'
      using acquired_at that by (simp add: h remove_frame record_failure_def)
    ultimately show ?thesis
      using that by (auto simp: expire_other abs_lim_def split: option.split)
  qed
  have this_key: "abs_lim (release t' ok h l1) k = (if ok then None else Some (fails_of t l k + 1, t'))"
    using acquired_at nn by (simp add: h abs_lim_def record_failure_def remove_if_current_def)
  have "abs_lim (release t' ok h l1) =
      (if ok then ?m(k := None) else ?m(k \<mapsto> (fails_of t l k + 1, t')))"
    using other this_key by (auto simp: fun_eq_iff)
  then show ?thesis
    using laws(1,2) spec_count_expire [OF inv, of t k] by (simp add: spec_attempt_def Let_def)
qed

lemma run_refines:
  assumes "lim_inv l"
  shows "spec_run as (abs_lim l) =
    (fst (run_attempts Acquire release as l), abs_lim (snd (run_attempts Acquire release as l)))"
  using assms
proof (induction as arbitrary: l)
  case (Cons a as)
  obtain ip t t' ok where a: "a = (ip, t, t', ok)" by (metis prod_cases4)
  obtain d h l1 where acq: "Acquire t ip l = (d, h, l1)" by (metis prod_cases3)
  note IH = Cons.IH [OF lim.cycle_invar [OF Cons.prems acq], of t' ok]
  with attempt_refines [OF Cons.prems acq, of t' ok] acq a show ?case
    by (simp add: Let_def case_prod_beta)
qed simp

section \<open>Properties\<close>

text \<open>
  C25: The delay of a fail count, for every value of the counter: nothing for a counter of 0 or
  less, then \<open>2^(n-1)\<close> seconds capped at \<open>MaxDelay\<close>, except that for counters from 56 to 63 the
  64-bit product wraps to 0 and the attempt is not delayed at all.
\<close>

theorem computeDelay_exact:
  "computeDelay n =
     (if n \<le> 0 then 0
      else if 56 \<le> n \<and> n \<le> 63 then 0
      else min (60 * Second) (2 ^ nat (n - 1) * Second))"
  by (simp add: computeDelay_char delay_formula_def MaxDelay_def)

text \<open>
  C5: Any sequence of attempts on a new limiter, from any addresses and at any instants, returns
  the delays of the abstract backoff and leaves a state that represents the abstract map: idle
  entries are forgotten after ten minutes, a success clears the counter, a failure counts.
\<close>

theorem limiter_refines_backoff:
  "spec_run as Map.empty =
     (fst (run_attempts Acquire release as New_Limiter),
      abs_lim (snd (run_attempts Acquire release as New_Limiter)))"
proof -
  have "abs_lim New_Limiter = Map.empty"
    by (simp add: abs_lim_def New_Limiter_def)
  with run_refines [OF lim_inv_New, of as] show ?thesis by simp
qed

text \<open>
  A run of failures from one address on a new limiter, none more than ten minutes after the
  failure before it, is delayed by \<open>computeDelay\<close> of 0, 1, 2 and so on.
\<close>

theorem backoff_sequence:
  assumes "failing_run prev ip as"
  shows "fst (run_attempts Acquire release as New_Limiter) =
    map (\<lambda>i. computeDelay (int i)) [0..<length as]"
proof -
  have "\<forall>t. t - prev \<le> IdleExpiry \<longrightarrow> fails_of t New_Limiter (limiter_key ip) = 0"
    by (simp add: fails_of_def New_Limiter_def)
  from lim.run_failures [OF lim_inv_New assms this] show ?thesis by simp
qed

theorem backoff_sequence_witness:
  "fst (run_attempts Acquire release
      (map (\<lambda>t. ([10, 0, 0, 5], t, t, False)) [0, 2 * Second, 9 * Second]) New_Limiter) =
     [0, Second, 2 * Second]"
proof -
  let ?as = "map (\<lambda>t. ([10, 0, 0, 5], t, t, False)) [0, 2 * Second, 9 * Second]"
  have "failing_run 0 [10, 0, 0, 5] ?as"
    by (simp add: IdleExpiry_def Second_def)
  from backoff_sequence [OF this] show ?thesis
    by (simp add: upt_rec computeDelay_char delay_formula_def MaxDelay_def Second_def)
qed

text \<open>
  C26: Two client addresses share a counter exactly when they are the same address: equal byte for byte, or one the four bytes of an IPv4 address and the other its
  IPv4-mapped IPv6 form, ten zero bytes, two bytes 255 and the same four bytes. So an attacker gains no second counter from a dual-stack listener, and no two
  other addresses are thrown together.
\<close>

theorem limiter_key_iff:
  assumes "length a \<in> {4, 16}" and "length b \<in> {4, 16}"
  shows "limiter_key a = limiter_key b \<longleftrightarrow>
    a = b \<or> a = replicate 10 0 @ [255, 255] @ b \<or> b = replicate 10 0 @ [255, 255] @ a"
proof -
  have v: "valid_ip a" "valid_ip b" using assms by (simp_all add: valid_ip_def)
  have "limiter_key a = limiter_key b \<longleftrightarrow> normalize a = normalize b"
    using IP_String_eq_iff [OF valid_normalize [OF v(1)] valid_normalize [OF v(2)]] by (simp add: limiter_key_def)
  also have "\<dots> \<longleftrightarrow> a = b \<or> a = replicate 10 0 @ [255, 255] @ b \<or> b = replicate 10 0 @ [255, 255] @ a"
    by (rule normalize_eq_iff [OF v])
  finally show ?thesis .
qed

theorem limiter_key_iff_witness:
  "limiter_key (replicate 10 0 @ [255, 255] @ [127, 0, 0, 1]) = limiter_key [127, 0, 0, 1] \<and>
   limiter_key (replicate 12 0 @ [127, 0, 0, 1]) \<noteq> limiter_key [127, 0, 0, 1]"
proof -
  have "replicate 12 0 @ [127, 0, 0, 1] \<noteq> replicate 10 0 @ [255, 255] @ [127, 0, 0, 1 :: byte]"
    and "[127, 0, 0, 1] \<noteq> replicate 10 0 @ [255, 255] @ (replicate 12 0 @ [127, 0, 0, 1 :: byte])"
    and "replicate 12 0 @ [127, 0, 0, 1] \<noteq> [127, 0, 0, 1 :: byte]" by code_simp+
  then show ?thesis
    using limiter_key_iff [of "replicate 10 0 @ [255, 255] @ [127, 0, 0, 1]" "[127, 0, 0, 1]"]
      limiter_key_iff [of "replicate 12 0 @ [127, 0, 0, 1]" "[127, 0, 0, 1]"]
    by simp
qed

text \<open>
  Attempts from other addresses never change the delay of an address, whatever the state they
  start from and whatever their outcome.
\<close>

theorem backoff_isolation:
  assumes "lim_inv l" and "\<forall>(ip', t, t', ok) \<in> set as. limiter_key ip' \<noteq> limiter_key ip"
  shows "fst (Acquire now ip (snd (run_attempts Acquire release as l))) = fst (Acquire now ip l)"
proof -
  let ?l = "snd (run_attempts Acquire release as l)"
  note others = lim.run_other_keys [OF assms, of now]
  obtain d h l1 where 1: "Acquire now ip l = (d, h, l1)" by (metis prod_cases3)
  obtain d' h' l1' where 2: "Acquire now ip ?l = (d', h', l1')" by (metis prod_cases3)
  from lim.acquire_delay [OF assms(1) 1] lim.acquire_delay [OF _ 2] others 1 2 show ?thesis by simp
qed

theorem backoff_isolation_witness:
  "fst (Acquire 5 [10, 0, 0, 5] (snd (run_attempts Acquire release
      [([10, 0, 0, 6], 1, 2, False), ([10, 0, 0, 6], 3, 4, False)] New_Limiter))) =
   fst (Acquire 5 [10, 0, 0, 5] New_Limiter)"
proof -
  have "limiter_key [10, 0, 0, 6] \<noteq> limiter_key [10, 0, 0, 5]"
    by (simp add: limiter_key_def IP_String_def normalize_def To4_def string4_def show_nat.simps digit_char_def)
  then show ?thesis
    by (intro backoff_isolation [OF lim_inv_New]) simp
qed

end
