(* ===== verification/LimiterSteps.thy ===== *)
theory LimiterSteps
  imports Ratelimit
begin

text \<open>
  The limiter under concurrency: many connections run \<open>Acquire\<close>, the \<^verbatim>\<open>release\<close> closure and
  \<open>Snapshot\<close> on one \<^verbatim>\<open>*Limiter\<close>. A step is one lock-protected section of one thread, so the
  interleavings are those that the two kinds of mutex allow:

  \<^item> \<open>owner e\<close> is the thread that holds the mutex of the entry \<open>e\<close>;
  \<^item> \<open>readers\<close> counts the threads inside the read-locked section of \<open>Snapshot\<close>. The sections
    that take \<^verbatim>\<open>l.mu\<close> for writing contain no other lock operation, so each is one step, enabled
    when there is no reader; the read-locked look-up of \<open>loadOrCreate\<close> is one step as well.
    That a waiting writer also keeps new readers out is not modelled: it only removes runs.

  The position of a thread says which source line it is about to execute and carries the
  local variables \<^verbatim>\<open>key\<close>, \<^verbatim>\<open>e\<close> and \<^verbatim>\<open>delay\<close>.
\<close>

section \<open>States and steps\<close>

type_synonym tid = nat

datatype pc =
    Idle
  | Load1 string            \<comment> \<open>\<^verbatim>\<open>e := l.loadOrCreate(key)\<close>, read-locked look-up\<close>
  | Create1 string          \<comment> \<open>the same call, write-locked section\<close>
  | Lock1 string nat        \<comment> \<open>\<^verbatim>\<open>e.mu.Lock()\<close>\<close>
  | Check string nat        \<comment> \<open>the expiry test, holding \<^verbatim>\<open>e.mu\<close>\<close>
  | Evict string nat        \<comment> \<open>after \<^verbatim>\<open>e.mu.Unlock()\<close>: delete the stale entry\<close>
  | Load2 string
  | Create2 string
  | Lock2 string nat
  | Held string nat nanos   \<comment> \<open>\<open>Acquire\<close> has returned; the caller sleeps and checks\<close>
  | Remove string nat       \<comment> \<open>\<^verbatim>\<open>release(true)\<close>, about to take \<^verbatim>\<open>l.mu\<close> while holding \<^verbatim>\<open>e.mu\<close>\<close>
  | Unlock string nat       \<comment> \<open>\<^verbatim>\<open>release(true)\<close>, about to release \<^verbatim>\<open>e.mu\<close>\<close>
  | Snap "(string \<times> nat) list" "(string \<times> int) list"
                            \<comment> \<open>in the loop of \<open>Snapshot\<close>, holding \<^verbatim>\<open>l.mu.RLock()\<close>\<close>

record lsys =
  lim :: Limiter
  owner :: "nat \<Rightarrow> tid option"
  readers :: nat
  pcs :: "tid \<Rightarrow> pc"
  now :: nanos

datatype label = LTau | LRemove string | LFail string

definition goto :: "tid \<Rightarrow> pc \<Rightarrow> lsys \<Rightarrow> lsys" where
  "goto t p s = s\<lparr>pcs := (pcs s)(t := p)\<rparr>"

definition mu_Lock :: "tid \<Rightarrow> nat \<Rightarrow> lsys \<Rightarrow> lsys" where
  "mu_Lock t e s = s\<lparr>owner := (owner s)(e := Some t)\<rparr>"

definition mu_Unlock :: "nat \<Rightarrow> lsys \<Rightarrow> lsys" where
  "mu_Unlock e s = s\<lparr>owner := (owner s)(e := None)\<rparr>"

inductive lstep :: "tid \<Rightarrow> label \<Rightarrow> lsys \<Rightarrow> lsys \<Rightarrow> bool" where
  start: "pcs s t = Idle \<Longrightarrow> lstep t LTau s (goto t (Load1 (limiter_key ip)) s)"
| load1_hit: "pcs s t = Load1 k \<Longrightarrow> entries (lim s) k = Some e \<Longrightarrow>
    lstep t LTau s (goto t (Lock1 k e) s)"
| load1_miss: "pcs s t = Load1 k \<Longrightarrow> entries (lim s) k = None \<Longrightarrow>
    lstep t LTau s (goto t (Create1 k) s)"
| create1: "pcs s t = Create1 k \<Longrightarrow> readers s = 0 \<Longrightarrow> create_entry k (lim s) = (e, l) \<Longrightarrow>
    lstep t LTau s (goto t (Lock1 k e) (s\<lparr>lim := l\<rparr>))"
| lock1: "pcs s t = Lock1 k e \<Longrightarrow> owner s e = None \<Longrightarrow>
    lstep t LTau s (goto t (Check k e) (mu_Lock t e s))"
| check_fresh: "pcs s t = Check k e \<Longrightarrow> \<not> stale (now s) (heap (lim s) e) \<Longrightarrow>
    lstep t LTau s (goto t (Held k e (computeDelay (failCount (heap (lim s) e)))) s)"
| check_stale: "pcs s t = Check k e \<Longrightarrow> stale (now s) (heap (lim s) e) \<Longrightarrow>
    lstep t LTau s (goto t (Evict k e) (mu_Unlock e s))"
| evict: "pcs s t = Evict k e \<Longrightarrow> readers s = 0 \<Longrightarrow>
    lstep t (LRemove k) s (goto t (Load2 k) (s\<lparr>lim := remove_if_current k e (lim s)\<rparr>))"
| load2_hit: "pcs s t = Load2 k \<Longrightarrow> entries (lim s) k = Some e \<Longrightarrow>
    lstep t LTau s (goto t (Lock2 k e) s)"
| load2_miss: "pcs s t = Load2 k \<Longrightarrow> entries (lim s) k = None \<Longrightarrow>
    lstep t LTau s (goto t (Create2 k) s)"
| create2: "pcs s t = Create2 k \<Longrightarrow> readers s = 0 \<Longrightarrow> create_entry k (lim s) = (e, l) \<Longrightarrow>
    lstep t LTau s (goto t (Lock2 k e) (s\<lparr>lim := l\<rparr>))"
| lock2: "pcs s t = Lock2 k e \<Longrightarrow> owner s e = None \<Longrightarrow>
    lstep t LTau s (goto t (Held k e (computeDelay (failCount (heap (lim s) e)))) (mu_Lock t e s))"
| fail: "pcs s t = Held k e d \<Longrightarrow>
    lstep t (LFail k) s (goto t Idle (mu_Unlock e (s\<lparr>lim := record_failure (now s) e (lim s)\<rparr>)))"
| succeed: "pcs s t = Held k e d \<Longrightarrow> lstep t LTau s (goto t (Remove k e) s)"
| remove: "pcs s t = Remove k e \<Longrightarrow> readers s = 0 \<Longrightarrow>
    lstep t (LRemove k) s (goto t (Unlock k e) (s\<lparr>lim := remove_if_current k e (lim s)\<rparr>))"
| unlock: "pcs s t = Unlock k e \<Longrightarrow> lstep t LTau s (goto t Idle (mu_Unlock e s))"
| snap_start: "pcs s t = Idle \<Longrightarrow> distinct (map fst todo) \<Longrightarrow> map_of todo = entries (lim s) \<Longrightarrow>
    lstep t LTau s (goto t (Snap todo []) (s\<lparr>readers := Suc (readers s)\<rparr>))"
| snap_entry: "pcs s t = Snap ((k, e) # todo) out \<Longrightarrow> owner s e = None \<Longrightarrow>
    lstep t LTau s (goto t (Snap todo ((k, failCount (heap (lim s) e)) # out)) s)"
| snap_end: "pcs s t = Snap [] out \<Longrightarrow>
    lstep t LTau s (goto t Idle (s\<lparr>readers := readers s - 1\<rparr>))"

definition linit :: "lsys \<Rightarrow> bool" where
  "linit s \<longleftrightarrow> lim s = New_Limiter \<and> owner s = (\<lambda>_. None) \<and> readers s = 0 \<and> pcs s = (\<lambda>_. Idle)"

text \<open>Some thread moves, or time passes.\<close>

definition lmove :: "lsys \<Rightarrow> lsys \<Rightarrow> bool" where
  "lmove s s' \<longleftrightarrow> (\<exists>t l. lstep t l s s') \<or> (\<exists>d \<ge> 0. s' = s\<lparr>now := now s + d\<rparr>)"

text \<open>Runs with the removals and the recorded failures they perform.\<close>

inductive ltrace :: "lsys \<Rightarrow> label list \<Rightarrow> lsys \<Rightarrow> bool" for s0 :: lsys where
  ltrace_refl: "ltrace s0 [] s0"
| ltrace_step: "ltrace s0 ls s \<Longrightarrow> lstep t l s s' \<Longrightarrow> ltrace s0 (ls @ [l]) s'"
| ltrace_tick: "ltrace s0 ls s \<Longrightarrow> 0 \<le> d \<Longrightarrow> ltrace s0 ls (s\<lparr>now := now s + d\<rparr>)"

section \<open>Mutexes and readers\<close>

fun holds :: "pc \<Rightarrow> nat option" where
  "holds (Check k e) = Some e"
| "holds (Held k e d) = Some e"
| "holds (Remove k e) = Some e"
| "holds (Unlock k e) = Some e"
| "holds _ = None"

fun in_snap :: "pc \<Rightarrow> bool" where
  "in_snap (Snap todo out) = True"
| "in_snap _ = False"

definition snappers :: "lsys \<Rightarrow> tid set" where
  "snappers s = {t. in_snap (pcs s t)}"

definition linv :: "lsys \<Rightarrow> bool" where
  "linv s \<longleftrightarrow> (\<forall>t e. holds (pcs s t) = Some e \<longleftrightarrow> owner s e = Some t) \<and>
     finite (snappers s) \<and> readers s = card (snappers s)"

lemmas lsys_ops = goto_def mu_Lock_def mu_Unlock_def

lemma snappers_goto:
  "snappers (goto t p s) = (if in_snap p then insert t (snappers s) else snappers s - {t})"
  by (auto simp: snappers_def goto_def)

lemma snappers_other [simp]:
  "snappers (s\<lparr>lim := l\<rparr>) = snappers s" "snappers (s\<lparr>owner := w\<rparr>) = snappers s"
  "snappers (s\<lparr>readers := n\<rparr>) = snappers s" "snappers (s\<lparr>now := d\<rparr>) = snappers s"
  by (auto simp: snappers_def)

lemma linv_init: "linit s \<Longrightarrow> linv s"
  by (auto simp: linit_def linv_def snappers_def)

lemma mutex_step:
  assumes "lstep t l s s'" and "\<forall>t e. holds (pcs s t) = Some e \<longleftrightarrow> owner s e = Some t"
  shows "\<forall>t e. holds (pcs s' t) = Some e \<longleftrightarrow> owner s' e = Some t"
  using assms
  by (induction rule: lstep.induct)
    (simp_all add: lsys_ops split: if_splits, (metis holds.simps option.sel option.distinct(1))+)

lemma readers_step:
  assumes "lstep t l s s'" and "finite (snappers s)" and "readers s = card (snappers s)"
  shows "finite (snappers s') \<and> readers s' = card (snappers s')"
  using assms
proof (induction rule: lstep.induct)
  case (snap_start s t todo)
  then have "t \<notin> snappers s" by (simp add: snappers_def)
  with snap_start show ?case by (simp add: snappers_goto) (simp add: goto_def)
next
  case (snap_entry s t k e todo out)
  then have "t \<in> snappers s" by (simp add: snappers_def)
  with snap_entry show ?case by (simp add: snappers_goto insert_absorb) (simp add: goto_def)
next
  case (snap_end s t out)
  then have "t \<in> snappers s" by (simp add: snappers_def)
  with snap_end show ?case by (simp add: snappers_goto) (simp add: goto_def)
qed (simp_all add: snappers_goto mu_Lock_def mu_Unlock_def, (simp add: snappers_def goto_def)+)

lemma linv_step: "lstep t l s s' \<Longrightarrow> linv s \<Longrightarrow> linv s'"
  using mutex_step readers_step by (simp add: linv_def)

lemma linv_tick: "linv s \<Longrightarrow> linv (s\<lparr>now := d\<rparr>)"
  by (simp add: linv_def)

interpretation ls: inv_system linit lmove linv
  by unfold_locales (auto simp: lmove_def intro: linv_init linv_step linv_tick)

lemma ltrace_star: "ltrace s0 ls s \<Longrightarrow> lmove\<^sup>*\<^sup>* s0 s"
  by (induction rule: ltrace.induct) (auto simp: lmove_def intro: rtranclp.rtrancl_into_rtrancl)

lemma ltrace_linv: "linit s0 \<Longrightarrow> ltrace s0 ls s \<Longrightarrow> linv s"
  using ls.star_inv ltrace_star linv_init by blast

section \<open>Addresses belong to one key\<close>

text \<open>The key and the entry a thread works on, and the invariant that no entry serves two keys.\<close>

fun at_entry :: "pc \<Rightarrow> (string \<times> nat) option" where
  "at_entry (Lock1 k e) = Some (k, e)"
| "at_entry (Check k e) = Some (k, e)"
| "at_entry (Evict k e) = Some (k, e)"
| "at_entry (Lock2 k e) = Some (k, e)"
| "at_entry (Held k e d) = Some (k, e)"
| "at_entry (Remove k e) = Some (k, e)"
| "at_entry (Unlock k e) = Some (k, e)"
| "at_entry _ = None"

definition keyed :: "(nat \<Rightarrow> string) \<Rightarrow> lsys \<Rightarrow> bool" where
  "keyed f s \<longleftrightarrow>
     (\<forall>k e. entries (lim s) k = Some e \<longrightarrow> f e = k \<and> e < next_addr (lim s)) \<and>
     (\<forall>t k e. at_entry (pcs s t) = Some (k, e) \<longrightarrow> f e = k \<and> e < next_addr (lim s))"

lemma keyedD:
  "keyed f s \<Longrightarrow> entries (lim s) k = Some e \<Longrightarrow> f e = k \<and> e < next_addr (lim s)"
  "keyed f s \<Longrightarrow> at_entry (pcs s t) = Some (k, e) \<Longrightarrow> f e = k \<and> e < next_addr (lim s)"
  by (auto simp: keyed_def)

lemma keyed_goto:
  assumes "keyed f s" and "pcs s' = pcs s" and "next_addr (lim s') = next_addr (lim s)"
    and "\<And>k e. entries (lim s') k = Some e \<Longrightarrow> entries (lim s) k = Some e"
    and "\<And>k e. at_entry p = Some (k, e) \<Longrightarrow> at_entry (pcs s t) = Some (k, e) \<or> entries (lim s) k = Some e"
  shows "\<exists>f. keyed f (goto t p s')"
proof -
  have "f e = k \<and> e < next_addr (lim s')" if "at_entry (pcs (goto t p s') t') = Some (k, e)" for t' k e
    using that assms keyedD [OF assms(1)] by (cases "t' = t") (auto simp: goto_def)
  moreover have "f e = k \<and> e < next_addr (lim s')" if "entries (lim (goto t p s')) k = Some e" for k e
    using keyedD(1) [OF assms(1)] assms(3) assms(4) [of k e] that by (simp add: goto_def)
  ultimately have "keyed f (goto t p s')"
    by (simp add: keyed_def goto_def)
  then show ?thesis by blast
qed

lemma keyed_create:
  assumes "keyed f s" and "create_entry k (lim s) = (e, l)" and "at_entry p = Some (k, e)"
  shows "\<exists>f. keyed f (goto t p (s\<lparr>lim := l\<rparr>))"
proof (cases "entries (lim s) k")
  case None
  let ?s = "goto t p (s\<lparr>lim := l\<rparr>)" and ?f = "f(e := k)"
  have e: "e = next_addr (lim s)" and next_addr: "next_addr l = Suc e"
    and l: "entries l = (entries (lim s))(k \<mapsto> e)"
    using assms(2) None by (auto simp: create_entry_def Let_def)
  have "?f e' = k' \<and> e' < next_addr l" if "entries l k' = Some e'" for k' e'
    using that l e next_addr keyedD(1) [OF assms(1), of k' e'] by (auto split: if_splits)
  moreover have "?f e' = k' \<and> e' < next_addr l" if "at_entry (pcs ?s t') = Some (k', e')" for t' k' e'
    using that e next_addr assms(3) keyedD(2) [OF assms(1), of t' k' e']
    by (auto simp: goto_def split: if_splits)
  ultimately have "keyed ?f ?s" by (simp add: keyed_def goto_def)
  then show ?thesis by blast
next
  case (Some e')
  with assms show ?thesis
    by (intro keyed_goto [OF assms(1)]) (auto simp: create_entry_def)
qed

lemma keyed_step:
  assumes "lstep t l s s'" and "keyed f s"
  shows "\<exists>f. keyed f s'"
  using assms
proof (induction rule: lstep.induct)
  case (create1 s t k e l)
  then show ?case by (intro keyed_create) auto
next
  case (create2 s t k e l)
  then show ?case by (intro keyed_create) auto
qed (erule keyed_goto;
    simp add: mu_Lock_def mu_Unlock_def record_failure_def remove_if_current_def split: if_splits)+

lemma ltrace_keyed:
  assumes "ltrace s0 ls s" and "linit s0"
  shows "\<exists>f. keyed f s"
  using assms
proof (induction rule: ltrace.induct)
  case ltrace_refl
  then show ?case by (auto simp: keyed_def linit_def New_Limiter_def)
next
  case (ltrace_step ls s t l s')
  then show ?case using keyed_step by blast
next
  case (ltrace_tick ls s d)
  then show ?case by (simp add: keyed_def)
qed

section \<open>No lost failures without a removal\<close>

text \<open>
  As long as no entry of a key has been removed, every thread that works on the key uses the
  entry in the map, and the counter of that entry is the number of failures recorded so far.
\<close>

definition counts :: "string \<Rightarrow> nat \<Rightarrow> lsys \<Rightarrow> bool" where
  "counts k n s \<longleftrightarrow>
     (\<forall>t e. at_entry (pcs s t) = Some (k, e) \<longrightarrow> entries (lim s) k = Some e) \<and>
     (case entries (lim s) k of None \<Rightarrow> n = 0 | Some e \<Rightarrow> failCount (heap (lim s) e) = int n)"

definition fail_label :: "string \<Rightarrow> label \<Rightarrow> nat" where
  "fail_label k l = (if l = LFail k then 1 else 0)"

lemma counts_goto:
  assumes "counts k n s" and "pcs s' = pcs s"
    and "entries (lim s') k = entries (lim s) k"
    and "\<And>e. entries (lim s) k = Some e \<Longrightarrow> failCount (heap (lim s') e) = failCount (heap (lim s) e)"
    and "\<And>e. at_entry p = Some (k, e) \<Longrightarrow> at_entry (pcs s t) = Some (k, e) \<or> entries (lim s) k = Some e"
  shows "counts k n (goto t p s')"
  using assms by (auto simp: counts_def goto_def split: option.splits if_splits)

lemma counts_create:
  assumes "counts k n s" and "keyed f s" and "create_entry k' (lim s) = (e, l)"
    and "at_entry p = Some (k', e)"
  shows "counts k n (goto t p (s\<lparr>lim := l\<rparr>))"
proof (cases "entries (lim s) k'")
  case None
  then have e: "e = next_addr (lim s)" and ent: "entries l = (entries (lim s))(k' \<mapsto> e)"
    and hp: "heap l = (heap (lim s))(e := zero_entry)"
    using assms(3) by (auto simp: create_entry_def Let_def)
  show ?thesis
  proof (cases "k' = k")
    case True
    with assms None e ent hp show ?thesis
      by (auto simp: counts_def goto_def zero_entry_def)
  next
    case False
    then show ?thesis
      using assms e ent hp keyedD(1) [OF assms(2)]
      by (intro counts_goto [OF assms(1)]) fastforce+
  qed
next
  case (Some e')
  with assms show ?thesis
    by (intro counts_goto [OF assms(1)]) (auto simp: create_entry_def)
qed

lemma counts_step:
  assumes "lstep t l s s'" and "counts k n s" and "keyed f s" and "l \<noteq> LRemove k"
  shows "counts k (n + fail_label k l) s'"
  using assms
proof (induction rule: lstep.induct)
  case (create1 s t k' e l)
  then show ?case by (auto simp: fail_label_def intro: counts_create)
next
  case (create2 s t k' e l)
  then show ?case by (auto simp: fail_label_def intro: counts_create)
next
  case (evict s t k' e)
  then show ?case
    by (auto simp: fail_label_def intro!: counts_goto [OF evict(3)] simp: remove_if_current_def)
next
  case (remove s t k' e)
  then show ?case
    by (auto simp: fail_label_def intro!: counts_goto [OF remove(3)] simp: remove_if_current_def)
next
  case (fail s t k' e d)
  then have fe: "f e = k'" using keyedD(2) [of f s t k' e] by simp
  show ?case
  proof (cases "k' = k")
    case True
    with fail have "at_entry (pcs s t) = Some (k, e)" by simp
    with fail(2) have "entries (lim s) k = Some e" by (auto simp: counts_def)
    with fail True show ?thesis
      by (auto simp: counts_def fail_label_def goto_def mu_Unlock_def record_failure_def)
  next
    case False
    then show ?thesis
      using fail fe keyedD(1) [OF fail(3)]
      by (auto simp: fail_label_def mu_Unlock_def record_failure_def intro!: counts_goto [OF fail(2)])
  qed
qed (simp add: fail_label_def, erule counts_goto; simp add: mu_Lock_def mu_Unlock_def)+

lemma ltrace_counts:
  assumes "ltrace s0 ls s" and "linit s0" and "LRemove k \<notin> set ls"
  shows "counts k (count_list ls (LFail k)) s"
  using assms
proof (induction rule: ltrace.induct)
  case ltrace_refl
  then show ?case by (auto simp: counts_def linit_def New_Limiter_def)
next
  case (ltrace_step ls s t l s')
  then obtain f where "keyed f s" using ltrace_keyed by blast
  then have "counts k (count_list ls (LFail k) + fail_label k l) s'"
    using ltrace_step by (intro counts_step [OF ltrace_step(2)]) auto
  then show ?case by (auto simp: fail_label_def)
next
  case (ltrace_tick ls s d)
  then show ?case by (simp add: counts_def split: option.splits)
qed

section \<open>An undisturbed thread runs \<open>Acquire\<close>\<close>

lemma lmove_step: "lstep t l s s' \<Longrightarrow> lmove s s'"
  by (auto simp: lmove_def)

lemma lmove_more: "lmove\<^sup>*\<^sup>* s0 s \<Longrightarrow> lstep t l s s' \<Longrightarrow> lmove\<^sup>*\<^sup>* s0 s'"
  by (auto intro: rtranclp.rtrancl_into_rtrancl lmove_step)

lemma lmove_goto:
  assumes "lmove\<^sup>*\<^sup>* s0 (goto t p s)" and "lstep t l (goto t p s) (goto t q (goto t p s'))"
  shows "lmove\<^sup>*\<^sup>* s0 (goto t q s')"
  using lmove_more [OF assms] by (simp add: goto_def)

lemma goto_simps [simp]:
  "pcs (goto t p s) = (pcs s)(t := p)" "lim (goto t p s) = lim s" "owner (goto t p s) = owner s"
  "readers (goto t p s) = readers s" "now (goto t p s) = now s" "goto t q (goto t p s) = goto t q s"
  "(goto t p s)\<lparr>lim := l\<rparr> = goto t p (s\<lparr>lim := l\<rparr>)"
  "mu_Lock t' e (goto t p s) = goto t p (mu_Lock t' e s)"
  "mu_Unlock e (goto t p s) = goto t p (mu_Unlock e s)"
  "(goto t p s)\<lparr>readers := n\<rparr> = goto t p (s\<lparr>readers := n\<rparr>)"
  by (simp_all add: lsys_ops)

lemma mu_simps [simp]:
  "pcs (mu_Lock t e s) = pcs s" "lim (mu_Lock t e s) = lim s" "readers (mu_Lock t e s) = readers s"
  "now (mu_Lock t e s) = now s" "owner (mu_Lock t e s) = (owner s)(e := Some t)"
  "pcs (mu_Unlock e s) = pcs s" "lim (mu_Unlock e s) = lim s" "readers (mu_Unlock e s) = readers s"
  "now (mu_Unlock e s) = now s" "owner (mu_Unlock e s) = (owner s)(e := None)"
  by (simp_all add: lsys_ops)

lemma unlock_lock: "owner s e = None \<Longrightarrow> mu_Unlock e (mu_Lock t e s) = s"
  by (simp add: lsys_ops fun_upd_idem)

lemma lock_and_check:
  assumes "lmove\<^sup>*\<^sup>* s0 (goto t (Lock1 k e) s)" and "owner s e = None"
    and "\<not> stale (now s) (heap (lim s) e)"
  shows "lmove\<^sup>*\<^sup>* s0 (goto t (Held k e (computeDelay (failCount (heap (lim s) e)))) (mu_Lock t e s))"
proof -
  have "lmove\<^sup>*\<^sup>* s0 (goto t (Check k e) (mu_Lock t e s))"
    using lmove_more [OF assms(1) lstep.lock1 [where t = t and k = k and e = e]] assms(2) by simp
  from lmove_more [OF this lstep.check_fresh [where t = t and k = k and e = e]] assms(3) show ?thesis by simp
qed

lemma find_entry:
  assumes "pcs s t = Idle"
  shows "entries (lim s) (limiter_key ip) = Some e \<Longrightarrow> lmove\<^sup>*\<^sup>* s (goto t (Lock1 (limiter_key ip) e) s)"
    and "entries (lim s) (limiter_key ip) = None \<Longrightarrow> readers s = 0 \<Longrightarrow>
      create_entry (limiter_key ip) (lim s) = (e, l) \<Longrightarrow>
      lmove\<^sup>*\<^sup>* s (goto t (Lock1 (limiter_key ip) e) (s\<lparr>lim := l\<rparr>))"
proof -
  let ?k = "limiter_key ip"
  have load: "lmove\<^sup>*\<^sup>* s (goto t (Load1 ?k) s)"
    using lmove_more [OF rtranclp.rtrancl_refl lstep.start] assms by blast
  show "lmove\<^sup>*\<^sup>* s (goto t (Lock1 ?k e) s)" if "entries (lim s) ?k = Some e"
    using lmove_more [OF load lstep.load1_hit [where t = t and k = ?k and e = e]] that by simp
  assume none: "entries (lim s) ?k = None" "readers s = 0" "create_entry ?k (lim s) = (e, l)"
  then have "lmove\<^sup>*\<^sup>* s (goto t (Create1 ?k) s)"
    using lmove_more [OF load lstep.load1_miss [where t = t and k = ?k]] by simp
  from lmove_more [OF this lstep.create1 [where t = t and k = ?k and e = e and l = l]] none show
    "lmove\<^sup>*\<^sup>* s (goto t (Lock1 ?k e) (s\<lparr>lim := l\<rparr>))" by simp
qed

lemma evict_and_recreate:
  assumes "lmove\<^sup>*\<^sup>* s0 (goto t (Lock1 k e) s)" and "owner s e = None" and "readers s = 0"
    and "stale (now s) (heap (lim s) e)" and "entries (lim s) k = Some e"
    and "create_entry k (remove_if_current k e (lim s)) = (e', l)" and "owner s e' = None"
  shows "lmove\<^sup>*\<^sup>* s0 (goto t (Held k e' (computeDelay (failCount (heap l e')))) (mu_Lock t e' (s\<lparr>lim := l\<rparr>)))"
proof -
  let ?l = "remove_if_current k e (lim s)"
  have none: "entries ?l k = None" using assms(5) by (simp add: remove_if_current_def)
  have "lmove\<^sup>*\<^sup>* s0 (goto t (Check k e) (mu_Lock t e s))"
    using lmove_more [OF assms(1) lstep.lock1 [where t = t and k = k and e = e]] assms(2) by simp
  from lmove_more [OF this lstep.check_stale [where t = t and k = k and e = e]] assms(2,4)
  have "lmove\<^sup>*\<^sup>* s0 (goto t (Evict k e) s)" by (simp add: unlock_lock)
  from lmove_more [OF this lstep.evict [where t = t and k = k and e = e]] assms(3)
  have "lmove\<^sup>*\<^sup>* s0 (goto t (Load2 k) (s\<lparr>lim := ?l\<rparr>))" by simp
  from lmove_more [OF this lstep.load2_miss [where t = t and k = k]] none
  have "lmove\<^sup>*\<^sup>* s0 (goto t (Create2 k) (s\<lparr>lim := ?l\<rparr>))" by simp
  from lmove_more [OF this lstep.create2 [where t = t and k = k and e = e' and l = l]] assms(3,6)
  have "lmove\<^sup>*\<^sup>* s0 (goto t (Lock2 k e') (s\<lparr>lim := l\<rparr>))" by simp
  from lmove_more [OF this lstep.lock2 [where t = t and k = k and e = e']] assms(7) show ?thesis by simp
qed

lemma alone_acquire:
  assumes idle: "pcs s t = Idle" and readers: "readers s = 0" and free: "owner s = (\<lambda>_. None) \<or>
      (\<forall>e. owner s e \<noteq> None \<longrightarrow> e < next_addr (lim s) \<and> entries (lim s) (limiter_key ip) \<noteq> Some e)"
    and acq: "Acquire (now s) ip (lim s) = (d, (k, e), l)"
  shows "lmove\<^sup>*\<^sup>* s (goto t (Held k e d) (mu_Lock t e (s\<lparr>lim := l\<rparr>)))"
proof -
  have k: "k = limiter_key ip"
    using acq by (simp add: Acquire_def Let_def case_prod_beta)
  show ?thesis
  proof (cases "entries (lim s) k")
    case None
    then have c: "create_entry k (lim s) = (e, l)" and d: "d = computeDelay (failCount (heap l e))"
      and ns: "\<not> stale (now s) (heap l e)" and fresh: "e = next_addr (lim s)"
      using acq k by (auto simp: Acquire_def loadOrCreate_def create_entry_def stale_def zero_entry_def Let_def)
    have "lmove\<^sup>*\<^sup>* s (goto t (Lock1 k e) (s\<lparr>lim := l\<rparr>))"
      using find_entry(2) [OF idle] None readers c k by blast
    from lock_and_check [OF this] ns d free fresh show ?thesis by auto
  next
    case (Some e0)
    have loaded: "lmove\<^sup>*\<^sup>* s (goto t (Lock1 k e0) s)"
      using find_entry(1) [OF idle] Some k by blast
    have free0: "owner s e0 = None" using free Some k by auto
    show ?thesis
    proof (cases "stale (now s) (heap (lim s) e0)")
      case False
      with Some acq k have "e = e0" "l = lim s" "d = computeDelay (failCount (heap (lim s) e))"
        by (auto simp: Acquire_def loadOrCreate_def)
      with lock_and_check [OF loaded free0] False show ?thesis by simp
    next
      case True
      with Some acq k have c: "create_entry k (remove_if_current k e0 (lim s)) = (e, l)"
        and d: "d = computeDelay (failCount (heap l e))" and fresh: "e = next_addr (lim s)"
        by (auto simp: Acquire_def loadOrCreate_def create_entry_def remove_if_current_def Let_def)
      have "owner s e = None" using free fresh by auto
      from evict_and_recreate [OF loaded free0 readers True Some c this] d show ?thesis by simp
    qed
  qed
qed

section \<open>Blocked states\<close>

lemma lstep_other: "lstep t l s s' \<Longrightarrow> v \<noteq> t \<Longrightarrow> pcs s' v = pcs s v"
  by (induction rule: lstep.induct) simp_all

text \<open>
  \<^verbatim>\<open>release(true)\<close> of thread \<open>t\<close> holds the mutex of \<open>e\<close> and waits for \<^verbatim>\<open>l.mu\<close>, and the
  \<open>Snapshot\<close> of thread \<open>u\<close> holds \<^verbatim>\<open>l.mu\<close> for reading and waits for the mutex of \<open>e\<close>.
\<close>

definition crossed :: "tid \<Rightarrow> tid \<Rightarrow> nat \<Rightarrow> lsys \<Rightarrow> bool" where
  "crossed t u e s \<longleftrightarrow> (\<exists>k. pcs s t = Remove k e) \<and> (\<exists>k todo out. pcs s u = Snap ((k, e) # todo) out)"

lemma crossed_blocks:
  assumes "crossed t u e s" and "linv s"
  shows "readers s \<noteq> 0" and "owner s e = Some t" and "\<not> lstep t l s s'" and "\<not> lstep u l s s'"
proof -
  obtain k k' todo out where t: "pcs s t = Remove k e" and u: "pcs s u = Snap ((k', e) # todo) out"
    using assms(1) by (auto simp: crossed_def)
  have "u \<in> snappers s" using u by (simp add: snappers_def)
  then show r: "readers s \<noteq> 0" using assms(2) by (auto simp: linv_def)
  have "holds (pcs s t) = Some e" using t by simp
  then show own: "owner s e = Some t" using assms(2) by (simp add: linv_def)
  show "\<not> lstep t l s s'" using t r by (auto elim: lstep.cases)
  show "\<not> lstep u l s s'" using u own by (auto elim: lstep.cases)
qed

lemma crossed_step:
  assumes "crossed t u e s" and "linv s" and "lmove s s'"
  shows "crossed t u e s' \<and> pcs s' t = pcs s t \<and> pcs s' u = pcs s u \<and>
    entries (lim s') = entries (lim s)"
proof -
  note blocks = crossed_blocks [OF assms(1,2)]
  from assms(3) consider v l where "lstep v l s s'" | d where "s' = s\<lparr>now := now s + d\<rparr>"
    by (auto simp: lmove_def)
  then show ?thesis
  proof cases
    case 1
    then have "pcs s' t = pcs s t" "pcs s' u = pcs s u"
      using blocks lstep_other by metis+
    moreover have "entries (lim s') = entries (lim s)"
      using 1 blocks(1) by (induction rule: lstep.induct) (simp_all add: record_failure_def)
    ultimately show ?thesis using assms(1) by (simp add: crossed_def)
  next
    case 2
    then show ?thesis using assms(1) by (simp add: crossed_def)
  qed
qed

lemma crossed_forever:
  assumes "lmove\<^sup>*\<^sup>* s s'" and "crossed t u e s" and "linv s"
  shows "crossed t u e s' \<and> linv s' \<and> pcs s' t = pcs s t \<and> pcs s' u = pcs s u \<and>
    entries (lim s') = entries (lim s)"
  using assms
proof (induction rule: rtranclp_induct)
  case (step y z)
  then show ?case using crossed_step [of t u e y z] ls.trans_inv [of y z] by auto
qed simp

definition lsys0 :: lsys where
  "lsys0 = \<lparr>lim = New_Limiter, owner = (\<lambda>_. None), readers = 0, pcs = (\<lambda>_. Idle), now = 0\<rparr>"

lemma linit_lsys0: "linit lsys0"
  by (simp add: linit_def lsys0_def)

lemma limiter_keys_differ: "limiter_key [10, 0, 0, 1] \<noteq> limiter_key [10, 0, 0, 2]"
  by (simp add: limiter_key_def IP_String_def normalize_def To4_def string4_def show_nat.simps digit_char_def)

abbreviation ip1 :: IP where "ip1 \<equiv> [10, 0, 0, 1]"
abbreviation ip2 :: IP where "ip2 \<equiv> [10, 0, 0, 2]"

text \<open>Two clients with different addresses each acquire their entry, one after the other.\<close>

definition both_held :: lsys where
  "both_held =
     \<lparr>lim = \<lparr>entries = [limiter_key ip1 \<mapsto> 0, limiter_key ip2 \<mapsto> 1], heap = (\<lambda>_. zero_entry), next_addr = 2\<rparr>,
      owner = (\<lambda>_. None)(0 := Some 0, 1 := Some 1), readers = 0,
      pcs = (\<lambda>_. Idle)(0 := Held (limiter_key ip1) 0 0, 1 := Held (limiter_key ip2) 1 0), now = 0\<rparr>"

lemma first_held:
  "lmove\<^sup>*\<^sup>* lsys0 (goto 0 (Held (limiter_key ip1) 0 0) (mu_Lock 0 0
     (lsys0\<lparr>lim := \<lparr>entries = [limiter_key ip1 \<mapsto> 0], heap = (\<lambda>_. zero_entry), next_addr = 1\<rparr>\<rparr>)))"
  by (rule alone_acquire [where ip = ip1])
    (simp_all add: lsys0_def New_Limiter_def Acquire_def loadOrCreate_def create_entry_def stale_def
      zero_entry_def Let_def fun_upd_idem)

lemma both_held_reachable: "lmove\<^sup>*\<^sup>* lsys0 both_held"
proof -
  let ?l1 = "\<lparr>entries = [limiter_key ip1 \<mapsto> 0], heap = (\<lambda>_. zero_entry), next_addr = 1\<rparr>"
  let ?s1 = "goto 0 (Held (limiter_key ip1) 0 0) (mu_Lock 0 0 (lsys0\<lparr>lim := ?l1\<rparr>))"
  let ?l2 = "\<lparr>entries = [limiter_key ip1 \<mapsto> 0, limiter_key ip2 \<mapsto> 1], heap = (\<lambda>_. zero_entry), next_addr = 2\<rparr>"
  have "lmove\<^sup>*\<^sup>* ?s1 (goto 1 (Held (limiter_key ip2) 1 0) (mu_Lock 1 1 (?s1\<lparr>lim := ?l2\<rparr>)))"
    using limiter_keys_differ
    by (intro alone_acquire [where ip = ip2])
      (auto simp: lsys0_def Acquire_def loadOrCreate_def create_entry_def stale_def zero_entry_def
        Let_def fun_upd_idem numeral_2_eq_2)
  moreover have "goto 1 (Held (limiter_key ip2) 1 0) (mu_Lock 1 1 (?s1\<lparr>lim := ?l2\<rparr>)) = both_held"
    by (simp add: both_held_def goto_def mu_Lock_def lsys0_def)
  ultimately show ?thesis
    using first_held by (metis rtranclp_trans)
qed

lemma crossed_reachable: "\<exists>s. lmove\<^sup>*\<^sup>* lsys0 s \<and> crossed 0 1 0 s"
proof -
  let ?k1 = "limiter_key ip1" and ?k2 = "limiter_key ip2"
  let ?l = "record_failure 0 1 (lim both_held)"
  let ?s1 = "goto 1 Idle (mu_Unlock 1 (both_held\<lparr>lim := ?l\<rparr>))"
  have "lmove\<^sup>*\<^sup>* lsys0 ?s1"
    using lmove_more [OF both_held_reachable lstep.fail [where t = 1 and k = ?k2 and e = 1 and d = 0]]
    by (simp add: both_held_def)
  moreover have "map_of [(?k1, 0), (?k2, 1)] = entries (lim ?s1)"
    using limiter_keys_differ by (auto simp: both_held_def record_failure_def fun_eq_iff)
  ultimately have "lmove\<^sup>*\<^sup>* lsys0 (goto 1 (Snap [(?k1, 0), (?k2, 1)] []) (?s1\<lparr>readers := Suc (readers ?s1)\<rparr>))"
    using limiter_keys_differ by (intro lmove_more [OF _ lstep.snap_start]) auto
  then have "lmove\<^sup>*\<^sup>* lsys0 (goto 0 (Remove ?k1 0)
      (goto 1 (Snap [(?k1, 0), (?k2, 1)] []) (?s1\<lparr>readers := Suc (readers ?s1)\<rparr>)))"
    by (intro lmove_more [OF _ lstep.succeed [where d = 0]]) (auto simp: both_held_def)
  moreover have "crossed 0 1 0 (goto 0 (Remove ?k1 0)
      (goto 1 (Snap [(?k1, 0), (?k2, 1)] []) (?s1\<lparr>readers := Suc (readers ?s1)\<rparr>)))"
    by (simp add: crossed_def)
  ultimately show ?thesis by blast
qed

text \<open>A client that waits on an entry keeps it after a success has removed it from the map.\<close>

lemma two_held_reachable:
  "\<exists>s k e d d'. lmove\<^sup>*\<^sup>* lsys0 s \<and> pcs s 1 = Held k e d \<and> pcs s 2 = Held k (Suc e) d'"
proof -
  let ?k = "limiter_key ip1"
  let ?l1 = "\<lparr>entries = [?k \<mapsto> 0], heap = (\<lambda>_. zero_entry), next_addr = 1\<rparr>"
  let ?b = "lsys0\<lparr>lim := ?l1\<rparr>"
  let ?l0 = "\<lparr>entries = Map.empty, heap = (\<lambda>_. zero_entry), next_addr = 1\<rparr>"
  let ?s1 = "goto 0 (Held ?k 0 0) (mu_Lock 0 0 ?b)"
  have "lmove\<^sup>*\<^sup>* lsys0 (goto 1 (Lock1 ?k 0) ?s1)"
    using rtranclp_trans [OF first_held find_entry(1) [of ?s1 1 ip1 0]] by (simp add: lsys0_def)
  from lmove_more [OF this lstep.succeed [where t = 0 and k = ?k and e = 0 and d = 0]]
  have "lmove\<^sup>*\<^sup>* lsys0 (goto 0 (Remove ?k 0) (goto 1 (Lock1 ?k 0) ?s1))" by simp
  from lmove_more [OF this lstep.remove [where t = 0 and k = ?k and e = 0]]
  have "lmove\<^sup>*\<^sup>* lsys0 (goto 0 (Unlock ?k 0) (goto 1 (Lock1 ?k 0) (?s1\<lparr>lim := ?l0\<rparr>)))"
    by (simp add: lsys0_def remove_if_current_def)
  from lmove_more [OF this lstep.unlock [where t = 0 and k = ?k and e = 0]]
  have "lmove\<^sup>*\<^sup>* lsys0 (goto 0 Idle (mu_Unlock 0 (goto 1 (Lock1 ?k 0) (?s1\<lparr>lim := ?l0\<rparr>))))" by simp
  moreover have "goto 0 Idle (mu_Unlock 0 (goto 1 (Lock1 ?k 0) (?s1\<lparr>lim := ?l0\<rparr>))) =
      goto 1 (Lock1 ?k 0) (lsys0\<lparr>lim := ?l0\<rparr>)"
    by (simp add: goto_def mu_Unlock_def mu_Lock_def lsys0_def fun_upd_idem fun_upd_twist)
  ultimately have "lmove\<^sup>*\<^sup>* lsys0 (goto 1 (Lock1 ?k 0) (lsys0\<lparr>lim := ?l0\<rparr>))" by simp
  from lock_and_check [OF this]
  have held: "lmove\<^sup>*\<^sup>* lsys0 (goto 1 (Held ?k 0 0) (mu_Lock 1 0 (lsys0\<lparr>lim := ?l0\<rparr>)))"
    by (simp add: lsys0_def stale_def zero_entry_def)
  let ?s2 = "goto 1 (Held ?k 0 0) (mu_Lock 1 0 (lsys0\<lparr>lim := ?l0\<rparr>))"
  obtain d k e l where acq: "Acquire (now ?s2) ip1 (lim ?s2) = (d, (k, e), l)"
    by (metis prod_cases3 surj_pair)
  then have "k = ?k" "e = 1"
    by (auto simp: lsys0_def Acquire_def loadOrCreate_def create_entry_def stale_def zero_entry_def Let_def)
  moreover have "lmove\<^sup>*\<^sup>* ?s2 (goto 2 (Held k e d) (mu_Lock 2 e (?s2\<lparr>lim := l\<rparr>)))"
    by (rule alone_acquire [OF _ _ _ acq]) (auto simp: lsys0_def)
  ultimately have "lmove\<^sup>*\<^sup>* lsys0 (goto 2 (Held ?k 1 d) (mu_Lock 2 1 (?s2\<lparr>lim := l\<rparr>)))"
    using held by (metis rtranclp_trans)
  then show ?thesis by fastforce
qed

section \<open>Progress without a snapshot\<close>

fun waits_for :: "pc \<Rightarrow> nat option" where
  "waits_for (Lock1 k e) = Some e"
| "waits_for (Lock2 k e) = Some e"
| "waits_for (Snap ((k, e) # todo) out) = Some e"
| "waits_for _ = None"

lemma not_waiting_steps:
  assumes "readers s = 0" and "\<not> in_snap (pcs s t)"
    and "\<forall>e. waits_for (pcs s t) = Some e \<longrightarrow> owner s e = None"
  shows "\<exists>l s'. lstep t l s s'"
proof (cases "pcs s t")
  case (Load1 k)
  then show ?thesis by (cases "entries (lim s) k") (auto intro: lstep.load1_hit lstep.load1_miss)
next
  case (Load2 k)
  then show ?thesis by (cases "entries (lim s) k") (auto intro: lstep.load2_hit lstep.load2_miss)
next
  case (Create1 k)
  then show ?thesis
    using assms(1) by (cases "create_entry k (lim s)") (auto intro: lstep.create1)
next
  case (Create2 k)
  then show ?thesis
    using assms(1) by (cases "create_entry k (lim s)") (auto intro: lstep.create2)
next
  case (Check k e)
  then show ?thesis by (cases "stale (now s) (heap (lim s) e)") (auto intro: lstep.check_fresh lstep.check_stale)
qed (insert assms, simp_all, (blast intro: lstep.intros)+)

lemma owner_steps:
  assumes "linv s" and "readers s = 0" and "owner s e = Some u"
  shows "\<exists>l s'. lstep u l s s'"
proof (rule not_waiting_steps [OF assms(2)])
  have "holds (pcs s u) = Some e" using assms by (simp add: linv_def)
  then show "\<not> in_snap (pcs s u)" and "\<forall>e. waits_for (pcs s u) = Some e \<longrightarrow> owner s e = None"
    by (cases "pcs s u"; simp)+
qed

section \<open>Properties\<close>

text \<open>
  In every reachable state, whatever the interleaving of the clients, at most one thread is
  inside the section that the mutex of an entry protects.
\<close>

theorem limiter_mutex:
  assumes "reach linit lmove s" and "holds (pcs s t) = Some e" and "holds (pcs s u) = Some e"
  shows "t = u"
  using ls.reach_inv [OF assms(1)] assms(2,3) by (simp add: linv_def)

theorem limiter_mutex_witness:
  "reach linit lmove both_held \<and> holds (pcs both_held 1) = Some 1 \<and> holds (pcs both_held 0) \<noteq> Some 1"
proof -
  have r: "reach linit lmove both_held"
    using reach_star [OF reach.reach_init [of linit, OF linit_lsys0] both_held_reachable] .
  have "holds (pcs both_held 1) = Some 1" by (simp add: both_held_def)
  with limiter_mutex [OF r this, of 0] r show ?thesis by auto
qed

text \<open>
  C27: As long as no entry of a key has been removed, the attempts on the key are serialised (two
  threads that are both past \<open>Acquire\<close> on the key are the same thread) and no failure is lost:
  the counter that \<open>Snapshot\<close> reports is the number of failures recorded in the run.
\<close>

theorem limiter_serial_until_removal:
  assumes "ltrace s0 ls s" and "linit s0" and "LRemove k \<notin> set ls"
  shows "(\<forall>t u e e' d d'. pcs s t = Held k e d \<and> pcs s u = Held k e' d' \<longrightarrow> t = u) \<and>
    (case Snapshot (lim s) k of None \<Rightarrow> count_list ls (LFail k) = 0
     | Some c \<Rightarrow> c = int (count_list ls (LFail k)))"
proof -
  have c: "counts k (count_list ls (LFail k)) s" by (rule ltrace_counts [OF assms])
  have inv: "linv s" by (rule ltrace_linv [OF assms(2,1)])
  have "t = u" if "pcs s t = Held k e d" and "pcs s u = Held k e' d'" for t u e e' d d'
  proof -
    have "entries (lim s) k = Some e" "entries (lim s) k = Some e'"
      using c that unfolding counts_def by (metis at_entry.simps(5))+
    moreover have "owner s e = Some t" "owner s e' = Some u"
      using inv that unfolding linv_def by (metis holds.simps(2))+
    ultimately show ?thesis by simp
  qed
  moreover have "case Snapshot (lim s) k of None \<Rightarrow> count_list ls (LFail k) = 0
     | Some c \<Rightarrow> c = int (count_list ls (LFail k))"
    using c by (auto simp: counts_def Snapshot_def split: option.splits)
  ultimately show ?thesis by blast
qed

theorem limiter_serial_until_removal_witness:
  "\<exists>s. ltrace lsys0 [LTau, LTau, LTau, LTau, LTau, LFail (limiter_key ip1)] s \<and>
     Snapshot (lim s) (limiter_key ip1) = Some 1"
proof -
  let ?k = "limiter_key ip1"
  let ?l = "\<lparr>entries = [?k \<mapsto> 0], heap = (\<lambda>_. zero_entry), next_addr = 1\<rparr>"
  let ?b = "lsys0\<lparr>lim := ?l\<rparr>"
  have create: "create_entry ?k (lim lsys0) = (0, ?l)"
    by (simp add: create_entry_def lsys0_def New_Limiter_def zero_entry_def Let_def fun_upd_idem)
  have "ltrace lsys0 [LTau] (goto 0 (Load1 ?k) lsys0)"
    using ltrace_step [OF ltrace_refl lstep.start [of lsys0 0 ip1]] by (simp add: lsys0_def)
  from ltrace_step [OF this lstep.load1_miss [where t = 0 and k = ?k]]
  have "ltrace lsys0 [LTau, LTau] (goto 0 (Create1 ?k) lsys0)"
    by (simp add: lsys0_def New_Limiter_def)
  from ltrace_step [OF this lstep.create1 [where t = 0 and k = ?k and e = 0 and l = ?l]] create
  have "ltrace lsys0 [LTau, LTau, LTau] (goto 0 (Lock1 ?k 0) ?b)" by (simp add: lsys0_def)
  from ltrace_step [OF this lstep.lock1 [where t = 0 and k = ?k and e = 0]]
  have "ltrace lsys0 [LTau, LTau, LTau, LTau] (goto 0 (Check ?k 0) (mu_Lock 0 0 ?b))"
    by (simp add: lsys0_def)
  from ltrace_step [OF this lstep.check_fresh [where t = 0 and k = ?k and e = 0]]
  have "ltrace lsys0 [LTau, LTau, LTau, LTau, LTau] (goto 0 (Held ?k 0 0) (mu_Lock 0 0 ?b))"
    by (simp add: stale_def zero_entry_def)
  from ltrace_step [OF this lstep.fail [where t = 0 and k = ?k and e = 0 and d = 0]]
  obtain s where s: "ltrace lsys0 [LTau, LTau, LTau, LTau, LTau, LFail ?k] s" by auto
  from limiter_serial_until_removal [OF s linit_lsys0, of ?k] have "Snapshot (lim s) ?k = Some 1"
    by (auto split: option.splits)
  with s show ?thesis by blast
qed

text \<open>
  C28: The limiter can deadlock: there is a run from a new limiter after which one thread in
  \<^verbatim>\<open>release(true)\<close> and one thread in \<open>Snapshot\<close> wait for each other for ever, and from then on no
  entry can be created or removed by anybody.
\<close>

theorem limiter_deadlock:
  "\<exists>s t u e. reach linit lmove s \<and> crossed t u e s \<and>
     (\<forall>s'. lmove\<^sup>*\<^sup>* s s' \<longrightarrow> pcs s' t = pcs s t \<and> pcs s' u = pcs s u \<and>
        (\<forall>l s''. \<not> lstep t l s' s'' \<and> \<not> lstep u l s' s'') \<and> entries (lim s') = entries (lim s))"
proof -
  obtain s where s: "lmove\<^sup>*\<^sup>* lsys0 s" and c: "crossed 0 1 0 s"
    using crossed_reachable by blast
  have r: "reach linit lmove s"
    using reach_star [OF reach.reach_init [of linit, OF linit_lsys0] s] .
  have inv: "linv s" by (rule ls.reach_inv [OF r])
  have "pcs s' 0 = pcs s 0 \<and> pcs s' 1 = pcs s 1 \<and>
      (\<forall>l s''. \<not> lstep 0 l s' s'' \<and> \<not> lstep 1 l s' s'') \<and> entries (lim s') = entries (lim s)"
    if "lmove\<^sup>*\<^sup>* s s'" for s'
    using crossed_forever [OF that c inv] crossed_blocks(3,4) [of 0 1 0 s'] by auto
  with r c show ?thesis by blast
qed

theorem limiter_deadlock_witness: "\<exists>s. reach linit lmove s \<and> (\<exists>t u e. crossed t u e s)"
  using limiter_deadlock by blast

text \<open>
  When a success removes the entry of a key while another attempt on the key waits for its
  mutex, two attempts from the same address can be past \<open>Acquire\<close> at the same time, on
  different entries.
\<close>

theorem limiter_not_serial_after_success:
  "\<exists>s t u k e e' d d'. reach linit lmove s \<and> t \<noteq> u \<and> e \<noteq> e' \<and>
     pcs s t = Held k e d \<and> pcs s u = Held k e' d'"
proof -
  obtain s k e d d' where s: "lmove\<^sup>*\<^sup>* lsys0 s" and h: "pcs s 1 = Held k e d" "pcs s 2 = Held k (Suc e) d'"
    using two_held_reachable by blast
  have "reach linit lmove s"
    using reach_star [OF reach.reach_init [of linit, OF linit_lsys0] s] .
  moreover have "(1 :: nat) \<noteq> 2" "e \<noteq> Suc e" by simp_all
  ultimately show ?thesis using h by blast
qed

text \<open>
  While no \<open>Snapshot\<close> is in progress the limiter never blocks: for every thread inside an
  operation, that thread or the owner of the mutex it waits for can take a step.
\<close>

theorem limiter_progress:
  assumes "reach linit lmove s" and "readers s = 0" and "pcs s t \<noteq> Idle"
  shows "\<exists>u l s'. lstep u l s s' \<and> (u = t \<or> (\<exists>e. waits_for (pcs s t) = Some e \<and> owner s e = Some u))"
proof -
  have inv: "linv s" by (rule ls.reach_inv [OF assms(1)])
  then have "snappers s = {}" using assms(2) by (auto simp: linv_def)
  then have "\<not> in_snap (pcs s t)" by (auto simp: snappers_def)
  show ?thesis
  proof (cases "\<exists>e u. waits_for (pcs s t) = Some e \<and> owner s e = Some u")
    case True
    then show ?thesis using owner_steps [OF inv assms(2)] by blast
  next
    case False
    then show ?thesis
      using not_waiting_steps [OF assms(2) \<open>\<not> in_snap (pcs s t)\<close>] by auto
  qed
qed

theorem limiter_progress_witness: "\<exists>u l s'. lstep u l both_held s'"
proof -
  have "reach linit lmove both_held"
    using reach_star [OF reach.reach_init [of linit, OF linit_lsys0] both_held_reachable] .
  moreover have "readers both_held = 0" "pcs both_held 1 \<noteq> Idle" by (simp_all add: both_held_def)
  ultimately show ?thesis using limiter_progress by blast
qed

end
