(* ===== verification/Sha256.thy ===== *)
theory Sha256
  imports Prelude
begin

text \<open>
  The two primitives of Go's \<^verbatim>\<open>crypto\<close> packages that the authentication code calls:
  \<^verbatim>\<open>sha256.Sum256\<close> (FIPS 180-4) and \<^verbatim>\<open>subtle.ConstantTimeCompare\<close>. Both are executable. The
  lemmas give the length of every digest and the exact meaning of the comparison; the digest of
  a published test vector is evaluated in \<^verbatim>\<open>Sha256Vector\<close>, so that the tables and the round function are tied to
  the standard.
\<close>

section \<open>\<^verbatim>\<open>sha256.Sum256\<close>\<close>

text \<open>
  The round constants are the first 32 bits of the fractional parts of the cube roots of the
  first 64 primes, the initial state those of the square roots of the first eight; the
  lemmas \<open>sha_K_roots\<close> and \<open>sha_H0_roots\<close> of the theory \<^verbatim>\<open>Sha256Vector\<close> check the two tables against that description.
\<close>

definition sha_K :: "uint32 list" where
  "sha_K = [
     1116352408, 1899447441, 3049323471, 3921009573, 961987163, 1508970993,
     2453635748, 2870763221, 3624381080, 310598401, 607225278, 1426881987,
     1925078388, 2162078206, 2614888103, 3248222580, 3835390401, 4022224774,
     264347078, 604807628, 770255983, 1249150122, 1555081692, 1996064986,
     2554220882, 2821834349, 2952996808, 3210313671, 3336571891, 3584528711,
     113926993, 338241895, 666307205, 773529912, 1294757372, 1396182291,
     1695183700, 1986661051, 2177026350, 2456956037, 2730485921, 2820302411,
     3259730800, 3345764771, 3516065817, 3600352804, 4094571909, 275423344,
     430227734, 506948616, 659060556, 883997877, 958139571, 1322822218,
     1537002063, 1747873779, 1955562222, 2024104815, 2227730452, 2361852424,
     2428436474, 2756734187, 3204031479, 3329325298]"

definition sha_H0 :: "uint32 list" where
  "sha_H0 = [
     1779033703, 3144134277, 1013904242, 2773480762,
     1359893119, 2600822924, 528734635, 1541459225]"

definition rotr :: "nat \<Rightarrow> uint32 \<Rightarrow> uint32" where
  "rotr n x = (drop_bit n x OR push_bit (32 - n) x)"

text \<open>Big-endian words of a block, and the bytes of a word.\<close>

fun be_words :: "bytes \<Rightarrow> uint32 list" where
  "be_words (a # b # c # d # r) =
     (push_bit 24 (ucast a) OR push_bit 16 (ucast b) OR push_bit 8 (ucast c) OR ucast d) # be_words r"
| "be_words _ = []"

definition be_bytes :: "uint32 \<Rightarrow> bytes" where
  "be_bytes x = [ucast (drop_bit 24 x), ucast (drop_bit 16 x), ucast (drop_bit 8 x), ucast x]"

text \<open>Padding to a multiple of 64 bytes, with the length in bits in the last eight bytes.\<close>

definition be64 :: "64 word \<Rightarrow> bytes" where
  "be64 n = map (\<lambda>k. ucast (drop_bit k n)) [56, 48, 40, 32, 24, 16, 8, 0]"

definition sha_pad :: "bytes \<Rightarrow> bytes" where
  "sha_pad m =
     m @ [0x80] @ replicate ((119 - length m mod 64) mod 64) 0 @ be64 (8 * word_of_nat (length m))"

text \<open>The message schedule, kept newest word first.\<close>

definition sched_next :: "uint32 list \<Rightarrow> uint32" where
  "sched_next w =
     (let w15 = w ! 14; w2 = w ! 1;
          s0 = rotr 7 w15 XOR rotr 18 w15 XOR drop_bit 3 w15;
          s1 = rotr 17 w2 XOR rotr 19 w2 XOR drop_bit 10 w2
      in w ! 15 + s0 + w ! 6 + s1)"

fun sched_extend :: "nat \<Rightarrow> uint32 list \<Rightarrow> uint32 list" where
  "sched_extend 0 w = w"
| "sched_extend (Suc n) w = sched_extend n (sched_next w # w)"

definition schedule :: "bytes \<Rightarrow> uint32 list" where
  "schedule blk = rev (sched_extend 48 (rev (be_words blk)))"

fun sha_round :: "uint32 list \<Rightarrow> uint32 \<times> uint32 \<Rightarrow> uint32 list" where
  "sha_round [a, b, c, d, e, f, g, h] (k, w) =
     (let s1 = rotr 6 e XOR rotr 11 e XOR rotr 25 e;
          ch = (e AND f) XOR (NOT e AND g);
          t1 = h + s1 + ch + k + w;
          s0 = rotr 2 a XOR rotr 13 a XOR rotr 22 a;
          maj = (a AND b) XOR (a AND c) XOR (b AND c);
          t2 = s0 + maj
      in [t1 + t2, a, b, c, d + t1, e, f, g])"
| "sha_round st _ = st"

definition sha_block :: "uint32 list \<Rightarrow> bytes \<Rightarrow> uint32 list" where
  "sha_block H blk = map2 (+) H (foldl sha_round H (zip sha_K (schedule blk)))"

fun sha_blocks :: "uint32 list \<Rightarrow> bytes \<Rightarrow> uint32 list" where
  "sha_blocks H [] = H"
| "sha_blocks H (b # m) = sha_blocks (sha_block H (take 64 (b # m))) (drop 63 m)"

definition Sum256 :: "bytes \<Rightarrow> bytes" where
  "Sum256 m = concat (map be_bytes (sha_blocks sha_H0 (sha_pad m)))"

section \<open>\<^verbatim>\<open>subtle.ConstantTimeCompare\<close>\<close>

text \<open>
  The comparison of unequal lengths returns 0 at once; otherwise every byte is visited and the
  differences are collected by \<open>OR\<close>, and \<^verbatim>\<open>ConstantTimeByteEq(v, 0)\<close> turns the collected
  value into 1 or 0 by arithmetic on 32 bits.
\<close>

definition ConstantTimeByteEq :: "byte \<Rightarrow> byte \<Rightarrow> int" where
  "ConstantTimeByteEq x y = uint (drop_bit 31 (ucast (x XOR y) - 1 :: uint32))"

definition ConstantTimeCompare :: "bytes \<Rightarrow> bytes \<Rightarrow> int" where
  "ConstantTimeCompare x y =
     (if length x \<noteq> length y then 0
      else ConstantTimeByteEq (foldl (\<lambda>v (a, b). v OR (a XOR b)) 0 (zip x y)) 0)"

section \<open>Lemmas\<close>

lemma length_be_bytes [simp]: "length (be_bytes x) = 4"
  by (simp add: be_bytes_def)

lemma length_sha_round [simp]: "length (sha_round st kw) = length st"
  by (cases "(st, kw)" rule: sha_round.cases) (simp_all add: Let_def)

lemma length_rounds [simp]: "length (foldl sha_round st kws) = length st"
  by (induction kws arbitrary: st) simp_all

lemma length_sha_blocks: "length (sha_blocks H m) = length H"
  by (induction H m rule: sha_blocks.induct) (simp_all add: sha_block_def)

lemma length_concat_const: "(\<And>x. length (f x) = n) \<Longrightarrow> length (concat (map f xs)) = n * length xs"
  by (induction xs) simp_all

lemma length_Sum256 [simp]: "length (Sum256 m) = 32"
  by (simp add: Sum256_def length_concat_const [of be_bytes 4] length_sha_blocks sha_H0_def)

text \<open>
  \<^verbatim>\<open>ConstantTimeCompare\<close> returns 1 exactly on equal slices and 0 otherwise.
\<close>

lemma ConstantTimeByteEq_0: "ConstantTimeByteEq v 0 = (if v = 0 then 1 else 0)"
proof (cases "v = 0")
  case True
  then show ?thesis by (simp add: ConstantTimeByteEq_def)
next
  case False
  have up: "uint v < 256"
    using uint_lt2p [of v] by simp
  have pos: "0 < uint v"
    using False by (simp add: word_gt_0_no uint_0_iff order_less_le)
  have "uint (ucast v - 1 :: uint32) = uint v - 1"
    using pos up by (simp add: uint_word_ariths unsigned_ucast_eq take_bit_eq_mod)
  then show ?thesis
    using False pos up by (simp add: ConstantTimeByteEq_def unsigned_drop_bit_eq drop_bit_eq_div uint_div)
qed

lemma foldl_or_zip:
  fixes x y :: bytes
  assumes "length x = length y"
  shows "foldl (\<lambda>v (a, b). v OR (a XOR b)) w (zip x y) = 0 \<longleftrightarrow> w = 0 \<and> x = y"
  using assms
proof (induction x y arbitrary: w rule: list_induct2)
  case (Cons a x b y)
  have "w OR (a XOR b) = 0 \<longleftrightarrow> w = 0 \<and> a = b"
    by (metis or_eq_0_iff xor_self_eq bit.xor_cancel_right word_bw_assocs(3) xor.left_neutral xor.right_neutral)
  with Cons show ?case by simp
qed simp

lemma ConstantTimeCompare_eq: "ConstantTimeCompare x y = (if x = y then 1 else 0)"
  by (auto simp: ConstantTimeCompare_def ConstantTimeByteEq_0 foldl_or_zip)

end
