(* ===== verification/Sha256Vector.thy ===== *)
theory Sha256Vector
  imports Sha256
begin

text \<open>
  The published SHA-256 test vector (FIPS 180-4, the message \<^verbatim>\<open>abc\<close>), evaluated in the kernel.
  Before it, the two tables of constants are checked against their description in the standard. The message schedule and the four quarters of the 64 rounds are separate lemmas.
\<close>

section \<open>The tables\<close>

text \<open>
  A constant \<open>c\<close> is the leading fraction of the \<open>e\<close>-th root of \<open>p\<close> with integer part \<open>i\<close> when
  \<open>(i + c / 2^32)^e \<le> p < (i + (c + 1) / 2^32)^e\<close>, written over the integers.
\<close>

definition root_fraction :: "nat \<Rightarrow> int \<Rightarrow> int \<Rightarrow> uint32 \<Rightarrow> bool" where
  "root_fraction e i p c \<longleftrightarrow>
     (i * 2 ^ 32 + uint c) ^ e \<le> p * 2 ^ (32 * e) \<and> p * 2 ^ (32 * e) < (i * 2 ^ 32 + uint c + 1) ^ e"

definition first_primes :: "int list" where
  "first_primes = [2, 3, 5, 7, 11, 13, 17, 19, 23, 29, 31, 37, 41, 43, 47, 53,
     59, 61, 67, 71, 73, 79, 83, 89, 97, 101, 103, 107, 109, 113, 127, 131,
     137, 139, 149, 151, 157, 163, 167, 173, 179, 181, 191, 193, 197, 199, 211, 223,
     227, 229, 233, 239, 241, 251, 257, 263, 269, 271, 277, 281, 283, 293, 307, 311]"

definition root_part :: "nat \<Rightarrow> int \<Rightarrow> int" where
  "root_part e p = (if 7 ^ e > p then (if 4 ^ e > p then (if 3 ^ e > p then (if 2 ^ e > p then 1 else 2) else 3)
     else (if 5 ^ e > p then 4 else if 6 ^ e > p then 5 else 6)) else 7)"

lemma sha_K_roots: "list_all2 (\<lambda>p c. root_fraction 3 (root_part 3 p) p c) first_primes sha_K"
  by (simp add: first_primes_def sha_K_def root_fraction_def root_part_def)

lemma sha_H0_roots: "list_all2 (\<lambda>p c. root_fraction 2 (root_part 2 p) p c) (take 8 first_primes) sha_H0"
  by (simp add: first_primes_def sha_H0_def root_fraction_def root_part_def)

section \<open>The test vector\<close>

definition abc_W :: "uint32 list" where
  "abc_W = [0x61626380, 0x00000000, 0x00000000, 0x00000000, 0x00000000, 0x00000000, 0x00000000, 0x00000000,
     0x00000000, 0x00000000, 0x00000000, 0x00000000, 0x00000000, 0x00000000, 0x00000000, 0x00000018,
     0x61626380, 0x000f0000, 0x7da86405, 0x600003c6, 0x3e9d7b78, 0x0183fc00, 0x12dcbfdb, 0xe2e2c38e,
     0xc8215c1a, 0xb73679a2, 0xe5bc3909, 0x32663c5b, 0x9d209d67, 0xec8726cb, 0x702138a4, 0xd3b7973b,
     0x93f5997f, 0x3b68ba73, 0xaff4ffc1, 0xf10a5c62, 0x0a8b3996, 0x72af830a, 0x9409e33e, 0x24641522,
     0x9f47bf94, 0xf0a64f5a, 0x3e246a79, 0x27333ba3, 0x0c4763f2, 0x840abf27, 0x7a290d5d, 0x065c43da,
     0xfb3e89cb, 0xcc7617db, 0xb9e66c34, 0xa9993667, 0x84badedd, 0xc21462bc, 0x1487472c, 0xb20f7a99,
     0xef57b9cd, 0xebe6b238, 0x9fe3095e, 0x78bc8d4b, 0xa43fcf15, 0x668b2ff8, 0xeeaba2cc, 0x12b1edeb]"

lemma abc_schedule: "schedule (sha_pad (bytes_of_string ''abc'')) = abc_W"
  by code_simp

lemma abc_rounds1: "foldl sha_round [0x6a09e667, 0xbb67ae85, 0x3c6ef372, 0xa54ff53a, 0x510e527f, 0x9b05688c, 0x1f83d9ab, 0x5be0cd19]
    (zip (take 16 (drop 0 sha_K)) (take 16 (drop 0 abc_W))) =
  [0xb0fa238e, 0xc0645fde, 0xd932eb16, 0x87912990, 0x07590dcd, 0x0b92f20c, 0x745a48de, 0x1e578218]"
  by code_simp

lemma abc_rounds2: "foldl sha_round [0xb0fa238e, 0xc0645fde, 0xd932eb16, 0x87912990, 0x07590dcd, 0x0b92f20c, 0x745a48de, 0x1e578218]
    (zip (take 16 (drop 16 sha_K)) (take 16 (drop 16 abc_W))) =
  [0x73b33bf5, 0xea992a22, 0xa0060b30, 0x363482c9, 0xba591112, 0x0109ab3a, 0xade79437, 0x6112a3b7]"
  by code_simp

lemma abc_rounds3: "foldl sha_round [0x73b33bf5, 0xea992a22, 0xa0060b30, 0x363482c9, 0xba591112, 0x0109ab3a, 0xade79437, 0x6112a3b7]
    (zip (take 16 (drop 32 sha_K)) (take 16 (drop 32 abc_W))) =
  [0x4172328d, 0xa14c14b0, 0x72ab4b91, 0x26628815, 0xfecf0bc6, 0xd57b94a9, 0xb7755da1, 0xa80f11f0]"
  by code_simp

lemma abc_rounds4: "foldl sha_round [0x4172328d, 0xa14c14b0, 0x72ab4b91, 0x26628815, 0xfecf0bc6, 0xd57b94a9, 0xb7755da1, 0xa80f11f0]
    (zip (take 16 (drop 48 sha_K)) (take 16 (drop 48 abc_W))) =
  [0x506e3058, 0xd39a2165, 0x04d24d6c, 0xb85e2ce9, 0x5ef50f24, 0xfb121210, 0x948d25b6, 0x961f4894]"
  by code_simp

lemma abc_rounds: "foldl sha_round sha_H0 (zip sha_K abc_W) =
  [0x506e3058, 0xd39a2165, 0x04d24d6c, 0xb85e2ce9, 0x5ef50f24, 0xfb121210, 0x948d25b6, 0x961f4894]"
proof -
  have "zip sha_K abc_W =
    zip (take 16 (drop 0 sha_K)) (take 16 (drop 0 abc_W)) @
    zip (take 16 (drop 16 sha_K)) (take 16 (drop 16 abc_W)) @
    zip (take 16 (drop 32 sha_K)) (take 16 (drop 32 abc_W)) @
    zip (take 16 (drop 48 sha_K)) (take 16 (drop 48 abc_W))"
    by (simp add: sha_K_def abc_W_def)
  then show ?thesis
    by (simp only: foldl_append sha_H0_def abc_rounds1 abc_rounds2 abc_rounds3 abc_rounds4)
qed

lemma Sum256_abc: "Sum256 (bytes_of_string ''abc'') =
  [0xba, 0x78, 0x16, 0xbf, 0x8f, 0x01, 0xcf, 0xea, 0x41, 0x41, 0x40, 0xde, 0x5d, 0xae, 0x22, 0x23,
   0xb0, 0x03, 0x61, 0xa3, 0x96, 0x17, 0x7a, 0x9c, 0xb4, 0x10, 0xff, 0x61, 0xf2, 0x00, 0x15, 0xad]"
proof -
  have one: "sha_blocks H m = sha_block H m" if "length m = 64" for H m
    using that by (cases m) simp_all
  have len: "length (sha_pad (bytes_of_string ''abc'')) = 64"
    by code_simp
  show ?thesis
    unfolding Sum256_def one [OF len] sha_block_def abc_schedule abc_rounds
    by (simp add: sha_H0_def be_bytes_def)
qed

end
