(* ===== verification/Logging.thy ===== *)
theory Logging
  imports Prelude "HOL-Library.List_Lexorder" "HOL-Library.Char_ord"
begin

text \<open>
  \<^verbatim>\<open>internal/logging\<close>: the fields of an event, the logfmt and JSON encoders, the password scrub,
  \<^verbatim>\<open>emit\<close> and every event method, and the resolution of the output format. A logger's writer is the
  string written so far. The clock reading is a civil time in the local zone; \<^verbatim>\<open>Time.Format\<close>
  with the RFC 3339 layout, \<^verbatim>\<open>Duration.String\<close>, \<^verbatim>\<open>json.Marshal\<close> of a string and \<^verbatim>\<open>bytes.ReplaceAll\<close>
  are modelled. The shortest decimal form of the floating-point number \<^verbatim>\<open>Duration.Seconds()\<close>
  that \<^verbatim>\<open>strconv.FormatFloat\<close> gives is a parameter.
\<close>

section \<open>Times and durations as text\<close>

record civil =
  t_year :: nat
  t_month :: nat
  t_day :: nat
  t_hour :: nat
  t_minute :: nat
  t_sec :: nat
  t_zone :: int

definition pad :: "nat \<Rightarrow> nat \<Rightarrow> string" where
  "pad w n = replicate (w - length (show_nat n)) (CHR ''0'') @ show_nat n"

text \<open>The layout \<^verbatim>\<open>2006-01-02T15:04:05Z07:00\<close>; the zone offset is in seconds.\<close>

definition RFC3339 :: "civil \<Rightarrow> string" where
  "RFC3339 t =
     pad 4 (t_year t) @ ''-'' @ pad 2 (t_month t) @ ''-'' @ pad 2 (t_day t) @ ''T'' @
     pad 2 (t_hour t) @ '':'' @ pad 2 (t_minute t) @ '':'' @ pad 2 (t_sec t) @
     (if t_zone t = 0 then ''Z''
      else let m = nat (\<bar>t_zone t\<bar> div 60) in
        (if t_zone t < 0 then ''-'' else ''+'') @ pad 2 (m div 60) @ '':'' @ pad 2 (m mod 60))"

text \<open>A fraction of \<open>prec\<close> digits without its trailing zeros, with its point.\<close>

definition fmtFrac :: "nat \<Rightarrow> nat \<Rightarrow> string" where
  "fmtFrac v prec =
     (let ds = rev (dropWhile (\<lambda>c. c = CHR ''0'') (rev (pad prec (v mod 10 ^ prec))))
      in if ds = [] then [] else CHR ''.'' # ds)"

definition micro_sign :: string where "micro_sign = [char_of (0xC2 :: nat), char_of (0xB5 :: nat)]"

definition Duration_String :: "nanos \<Rightarrow> string" where
  "Duration_String d =
     (let u = nat \<bar>d\<bar>; sign = (if d < 0 then ''-'' else '''')
      in if u = 0 then ''0s''
         else if u < 1000 then sign @ show_nat u @ ''ns''
         else if u < 1000000 then sign @ show_nat (u div 1000) @ fmtFrac u 3 @ micro_sign @ ''s''
         else if u < 1000000000 then sign @ show_nat (u div 1000000) @ fmtFrac u 6 @ ''ms''
         else
           let s = u div 1000000000; m = s div 60; h = m div 60
           in sign @ (if h > 0 then show_nat h @ ''h'' else '''')
                @ (if m > 0 then show_nat (m mod 60) @ ''m'' else '''')
                @ show_nat (s mod 60) @ fmtFrac u 9 @ ''s'')"

section \<open>Fields\<close>

datatype fieldKind = fieldString | fieldInt | fieldDurationSec | fieldBool

record field =
  fkey :: string
  fval :: string
  fkind :: fieldKind
  fnum :: int
  fdur :: nanos

definition itoa :: "int \<Rightarrow> string" where
  "itoa n = show_int n"

definition intField :: "string \<Rightarrow> int \<Rightarrow> field" where
  "intField k n = \<lparr> fkey = k, fval = itoa n, fkind = fieldInt, fnum = n, fdur = 0 \<rparr>"

definition durField :: "string \<Rightarrow> nanos \<Rightarrow> field" where
  "durField k d = \<lparr> fkey = k, fval = Duration_String d, fkind = fieldDurationSec, fnum = 0, fdur = d \<rparr>"

definition strField :: "string \<Rightarrow> string \<Rightarrow> field" where
  "strField k v = \<lparr> fkey = k, fval = v, fkind = fieldString, fnum = 0, fdur = 0 \<rparr>"

section \<open>logfmt\<close>

definition quote_triggers :: string where
  "quote_triggers = '' '' @ [CHR 0x09, CHR 0x0A, CHR 0x0D] @ ''='' @ [CHR 0x22]"

definition needsQuoting :: "string \<Rightarrow> bool" where
  "needsQuoting v \<longleftrightarrow> v = [] \<or> list_ex (\<lambda>c. c \<in> set quote_triggers) v"

fun escape_logfmt :: "string \<Rightarrow> string" where
  "escape_logfmt [] = []"
| "escape_logfmt (c # cs) =
     (if c = CHR 0x22 \<or> c = CHR 0x5C then [CHR 0x5C] else []) @ c # escape_logfmt cs"

definition writeValue :: "string \<Rightarrow> string" where
  "writeValue v = (if needsQuoting v then [CHR 0x22] @ escape_logfmt v @ [CHR 0x22] else v)"

definition encodeLogfmt :: "civil \<Rightarrow> string \<Rightarrow> string \<Rightarrow> field list \<Rightarrow> string" where
  "encodeLogfmt now level event fs =
     RFC3339 now @ '' '' @ level @ '' '' @ event @
     concat (map (\<lambda>f. '' '' @ fkey f @ ''='' @ writeValue (fval f)) fs) @ [CHR 0x0A]"

section \<open>JSON\<close>

definition code :: "char \<Rightarrow> nat" where "code c = of_char c"

definition cont :: "char \<Rightarrow> bool" where "cont c \<longleftrightarrow> 0x80 \<le> code c \<and> code c \<le> 0xBF"

text \<open>
  The length of the valid UTF-8 encoding at the front of a string that starts with a byte
  above \<^verbatim>\<open>0x7F\<close>, or 0 where \<^verbatim>\<open>utf8.DecodeRune\<close> reports an invalid byte.
\<close>

fun utf8_len :: "string \<Rightarrow> nat" where
  "utf8_len (a # b # r) =
     (if 0xC2 \<le> code a \<and> code a \<le> 0xDF then (if cont b then 2 else 0)
      else if 0xE0 \<le> code a \<and> code a \<le> 0xEF then
        (if cont b \<and> (code a = 0xE0 \<longrightarrow> 0xA0 \<le> code b) \<and> (code a = 0xED \<longrightarrow> code b \<le> 0x9F)
         then (case r of c # _ \<Rightarrow> if cont c then 3 else 0 | [] \<Rightarrow> 0) else 0)
      else if 0xF0 \<le> code a \<and> code a \<le> 0xF4 then
        (if cont b \<and> (code a = 0xF0 \<longrightarrow> 0x90 \<le> code b) \<and> (code a = 0xF4 \<longrightarrow> code b \<le> 0x8F)
         then (case r of c # d # _ \<Rightarrow> if cont c \<and> cont d then 4 else 0 | _ \<Rightarrow> 0) else 0)
      else 0)"
| "utf8_len _ = 0"

definition hex_digit :: "nat \<Rightarrow> char" where
  "hex_digit n = ''0123456789abcdef'' ! (n mod 16)"

text \<open>The escape of an ASCII byte, with the HTML-safe set that \<^verbatim>\<open>json.Marshal\<close> uses.\<close>

definition json_ascii :: "char \<Rightarrow> string" where
  "json_ascii c =
     (if c = CHR 0x22 \<or> c = CHR 0x5C then [CHR 0x5C, c]
      else if c = CHR 0x08 then [CHR 0x5C, CHR ''b'']
      else if c = CHR 0x0C then [CHR 0x5C, CHR ''f'']
      else if c = CHR 0x0A then [CHR 0x5C, CHR ''n'']
      else if c = CHR 0x0D then [CHR 0x5C, CHR ''r'']
      else if c = CHR 0x09 then [CHR 0x5C, CHR ''t'']
      else if code c < 0x20 \<or> c = CHR ''<'' \<or> c = CHR ''>'' \<or> c = CHR ''&''
        then [CHR 0x5C, CHR ''u'', CHR ''0'', CHR ''0'', hex_digit (code c div 16), hex_digit (code c)]
      else [c])"

definition line_sep :: "nat \<Rightarrow> string" where
  "line_sep b = [char_of (0xE2 :: nat), char_of (0x80 :: nat), char_of b]"

definition json_rune :: "string \<Rightarrow> string" where
  "json_rune u =
     (if u = line_sep 0xA8 then [CHR 0x5C] @ ''u2028''
      else if u = line_sep 0xA9 then [CHR 0x5C] @ ''u2029''
      else u)"

function json_inner :: "string \<Rightarrow> string" where
  "json_inner [] = []"
| "json_inner (c # s) =
     (if code c < 0x80 then json_ascii c @ json_inner s
      else if utf8_len (c # s) = 0 then [CHR 0x5C] @ ''ufffd'' @ json_inner s
      else json_rune (take (utf8_len (c # s)) (c # s)) @ json_inner (drop (utf8_len (c # s)) (c # s)))"
  by pat_completeness auto
termination
  by (relation "measure length") auto

definition json_Marshal :: "string \<Rightarrow> string" where
  "json_Marshal s = [CHR 0x22] @ json_inner s @ [CHR 0x22]"

definition writeJSONString :: "string \<Rightarrow> string" where
  "writeJSONString s = json_Marshal s"

definition writeJSONKey :: "string \<Rightarrow> string" where
  "writeJSONKey k = writeJSONString k @ '':''"

definition writeJSONStringField :: "string \<Rightarrow> string \<Rightarrow> string" where
  "writeJSONStringField k v = writeJSONKey k @ writeJSONString v"

definition writeJSONField :: "(nanos \<Rightarrow> string) \<Rightarrow> field \<Rightarrow> string" where
  "writeJSONField float_secs f =
     writeJSONKey (fkey f) @
     (case fkind f of
        fieldInt \<Rightarrow> fval f
      | fieldDurationSec \<Rightarrow>
          (let s = float_secs (fdur f) in if CHR ''.'' \<notin> set s then s @ ''.0'' else s)
      | _ \<Rightarrow> writeJSONString (fval f))"

definition encodeJSON :: "(nanos \<Rightarrow> string) \<Rightarrow> civil \<Rightarrow> string \<Rightarrow> string \<Rightarrow> field list \<Rightarrow> string" where
  "encodeJSON float_secs now level event fs =
     ''{'' @ writeJSONStringField ''ts'' (RFC3339 now) @
     '','' @ writeJSONStringField ''level'' level @
     '','' @ writeJSONStringField ''event'' event @
     concat (map (\<lambda>f. '','' @ writeJSONField float_secs f) (sort_key fkey fs)) @
     ''}'' @ [CHR 0x0A]"

section \<open>The format selector\<close>

type_synonym Format = int

definition FormatLogfmt :: Format where "FormatLogfmt = 0"
definition FormatJSON :: Format where "FormatJSON = 1"

definition Format_String :: "Format \<Rightarrow> string" where
  "Format_String f =
     (if f = FormatLogfmt then ''logfmt'' else if f = FormatJSON then ''json''
      else ''Format('' @ show_int f @ '')'')"

text \<open>The error carries the rejected value, which the message names.\<close>

definition parseFormatString :: "string \<Rightarrow> string + Format" where
  "parseFormatString s =
     (if s = ''logfmt'' then Inr FormatLogfmt else if s = ''json'' then Inr FormatJSON else Inl s)"

definition ParseFormat :: "string \<Rightarrow> bool \<Rightarrow> string \<Rightarrow> bool \<Rightarrow> string + Format" where
  "ParseFormat flagValue flagSet envValue envSet =
     (if flagSet then parseFormatString flagValue
      else if envSet \<and> envValue \<noteq> '''' then parseFormatString envValue
      else Inr FormatLogfmt)"

section \<open>The logger\<close>

record Logger =
  w_out :: string
  scrubs :: "string list"
  lformat :: Format

definition redacted :: string where "redacted = ''[REDACTED]''"

text \<open>\<^verbatim>\<open>bytes.ReplaceAll\<close> for a non-empty \<^verbatim>\<open>old\<close>.\<close>

function ReplaceAll :: "string \<Rightarrow> string \<Rightarrow> string \<Rightarrow> string" where
  "ReplaceAll old rep [] = []"
| "ReplaceAll old rep (c # s) =
     (if old \<noteq> [] \<and> prefix old (c # s) then rep @ ReplaceAll old rep (drop (length old) (c # s))
      else c # ReplaceAll old rep s)"
  by pat_completeness auto
termination
  by (relation "measure (\<lambda>(_, _, s). length s)") auto

definition New_Logger :: "string \<Rightarrow> Format \<Rightarrow> Logger" where
  "New_Logger password format =
     (let encoded = json_Marshal password; inner = butlast (tl encoded)
      in \<lparr> w_out = '''',
           scrubs = (if password = '''' then []
             else password # (if length encoded \<ge> 2 \<and> inner \<noteq> password then [inner] else [])),
           lformat = format \<rparr>)"

definition scrub :: "string list \<Rightarrow> string \<Rightarrow> string" where
  "scrub ss line = foldl (\<lambda>l s. ReplaceAll s redacted l) line ss"

definition event_line :: "(nanos \<Rightarrow> string) \<Rightarrow> civil \<Rightarrow> string \<Rightarrow> string \<Rightarrow> field list \<Rightarrow> Logger \<Rightarrow> string" where
  "event_line float_secs now level event fs l =
     scrub (scrubs l)
       (if lformat l = FormatJSON then encodeJSON float_secs now level event fs
        else encodeLogfmt now level event fs)"

definition emit :: "(nanos \<Rightarrow> string) \<Rightarrow> civil \<Rightarrow> string \<Rightarrow> string \<Rightarrow> field list \<Rightarrow> Logger \<Rightarrow> Logger" where
  "emit float_secs now level event fs l =
     l\<lparr>w_out := w_out l @ event_line float_secs now level event fs l\<rparr>"

section \<open>The event methods\<close>

text \<open>
  Each method is the level, the event name and the fields it passes to \<^verbatim>\<open>emit\<close>; \<open>log_to\<close> is the
  call itself.
\<close>

type_synonym log_event = "string \<times> string \<times> field list"

definition levelInfo :: string where "levelInfo = ''INFO''"
definition levelWarn :: string where "levelWarn = ''WARN''"
definition levelError :: string where "levelError = ''ERROR''"

definition log_to :: "(nanos \<Rightarrow> string) \<Rightarrow> civil \<Rightarrow> log_event \<Rightarrow> Logger \<Rightarrow> Logger" where
  "log_to float_secs now e l = (case e of (level, event, fs) \<Rightarrow> emit float_secs now level event fs l)"

definition Log_Listening :: "string \<Rightarrow> int \<Rightarrow> string \<Rightarrow> string \<Rightarrow> int \<Rightarrow> string \<Rightarrow> int \<Rightarrow> log_event" where
  "Log_Listening bind port fingerprint user pid authMethods pubkeyCount =
     (levelInfo, ''listening'', [strField ''bind'' bind, intField ''port'' port, strField ''fingerprint'' fingerprint,
      strField ''user'' user, intField ''pid'' pid, strField ''auth_methods'' authMethods,
      intField ''pubkey_count'' pubkeyCount])"

definition Log_ConnOpen :: "string \<Rightarrow> log_event" where
  "Log_ConnOpen remote =
     (levelInfo, ''conn-open'', [strField ''remote'' remote])"

definition Log_ConnClose :: "string \<Rightarrow> nanos \<Rightarrow> log_event" where
  "Log_ConnClose remote duration =
     (levelInfo, ''conn-close'', [strField ''remote'' remote, durField ''duration'' duration])"

definition Log_AuthOK :: "string \<Rightarrow> string \<Rightarrow> string \<Rightarrow> string \<Rightarrow> log_event" where
  "Log_AuthOK remote user method fingerprint =
     (levelInfo, ''auth-ok'', [strField ''remote'' remote, strField ''user'' user, strField ''method'' method]
      @ (if fingerprint \<noteq> '''' then [strField ''fingerprint'' fingerprint] else []))"

definition Log_AuthFail :: "string \<Rightarrow> string \<Rightarrow> string \<Rightarrow> string \<Rightarrow> int \<Rightarrow> nanos \<Rightarrow> string \<Rightarrow> log_event" where
  "Log_AuthFail remote user method reason attempt nextDelay fingerprint =
     (levelWarn, ''auth-fail'', [strField ''remote'' remote, strField ''user'' user, strField ''method'' method,
      strField ''reason'' reason, intField ''attempt'' attempt, durField ''next_delay'' nextDelay]
      @ (if fingerprint \<noteq> '''' then [strField ''fingerprint'' fingerprint] else []))"

definition Log_Session :: "string \<Rightarrow> string \<Rightarrow> log_event" where
  "Log_Session remote knd =
     (levelInfo, ''session'', [strField ''remote'' remote, strField ''kind'' knd])"

definition Log_Reject :: "string \<Rightarrow> string \<Rightarrow> log_event" where
  "Log_Reject remote what =
     (levelWarn, ''reject'', [strField ''remote'' remote, strField ''what'' what])"

definition Log_ShutdownSignal :: "int \<Rightarrow> string \<Rightarrow> string \<Rightarrow> log_event" where
  "Log_ShutdownSignal pgid sig reason =
     (levelInfo, ''shutdown-signal'', [intField ''pgid'' pgid, strField ''sig'' sig, strField ''reason'' reason])"

definition Log_DrainTimeout :: "string \<Rightarrow> string \<Rightarrow> int \<Rightarrow> log_event" where
  "Log_DrainTimeout remote knd bytesDropped =
     (levelWarn, ''drain-timeout'', [strField ''remote'' remote, strField ''kind'' knd, intField ''bytes_dropped'' bytesDropped])"

definition Log_Error :: "string \<Rightarrow> string \<Rightarrow> log_event" where
  "Log_Error message remote =
     (levelError, ''error'', [strField ''message'' message]
      @ (if remote \<noteq> '''' then [strField ''remote'' remote] else []))"

definition Log_PubkeyParseError :: "string \<Rightarrow> int \<Rightarrow> string \<Rightarrow> log_event" where
  "Log_PubkeyParseError pth line errMsg =
     (levelWarn, ''pubkey-parse-error'', [strField ''path'' pth, intField ''line'' line, strField ''error'' errMsg])"

definition Log_PubkeyOptionIgnored :: "string \<Rightarrow> int \<Rightarrow> string \<Rightarrow> log_event" where
  "Log_PubkeyOptionIgnored pth line opt =
     (levelWarn, ''pubkey-option-ignored'', [strField ''path'' pth, intField ''line'' line, strField ''option'' opt])"

definition Log_PubkeyKeysMissing :: "string \<Rightarrow> log_event" where
  "Log_PubkeyKeysMissing pth =
     (levelWarn, ''pubkey-keys-missing'', [strField ''path'' pth])"

definition Log_PubkeyReloadOK :: "string \<Rightarrow> int \<Rightarrow> log_event" where
  "Log_PubkeyReloadOK pth pubkeyCount =
     (levelInfo, ''pubkey-reload-ok'', [strField ''path'' pth, intField ''pubkey_count'' pubkeyCount])"

definition Log_PubkeyReloadFailed :: "string \<Rightarrow> string \<Rightarrow> log_event" where
  "Log_PubkeyReloadFailed pth errMsg =
     (levelWarn, ''pubkey-reload-failed'', [strField ''path'' pth, strField ''error'' errMsg])"

definition Log_ForwardOpen :: "string \<Rightarrow> string \<Rightarrow> int \<Rightarrow> string \<Rightarrow> int \<Rightarrow> log_event" where
  "Log_ForwardOpen remote destHost destPort origHost origPort =
     (levelInfo, ''forward-open'', [strField ''remote'' remote, strField ''dest_host'' destHost, intField ''dest_port'' destPort,
      strField ''originator_host'' origHost, intField ''originator_port'' origPort])"

definition Log_ForwardClose :: "string \<Rightarrow> string \<Rightarrow> int \<Rightarrow> int \<Rightarrow> int \<Rightarrow> nanos \<Rightarrow> log_event" where
  "Log_ForwardClose remote destHost destPort bytesIn bytesOut duration =
     (levelInfo, ''forward-close'', [strField ''remote'' remote, strField ''dest_host'' destHost, intField ''dest_port'' destPort,
      intField ''bytes_in'' bytesIn, intField ''bytes_out'' bytesOut, durField ''duration'' duration])"

definition Log_ForwardReject :: "string \<Rightarrow> string \<Rightarrow> int \<Rightarrow> string \<Rightarrow> log_event" where
  "Log_ForwardReject remote destHost destPort reason =
     (levelWarn, ''forward-reject'', [strField ''remote'' remote, strField ''dest_host'' destHost, intField ''dest_port'' destPort,
      strField ''reason'' reason])"

lemmas log_defs =
  Log_Listening_def Log_ConnOpen_def Log_ConnClose_def Log_AuthOK_def Log_AuthFail_def
  Log_Session_def Log_Reject_def Log_ShutdownSignal_def Log_DrainTimeout_def Log_Error_def
  Log_PubkeyParseError_def Log_PubkeyOptionIgnored_def Log_PubkeyKeysMissing_def Log_PubkeyReloadOK_def Log_PubkeyReloadFailed_def
  Log_ForwardOpen_def Log_ForwardClose_def Log_ForwardReject_def

end
