(* ===== verification/LoggingProps.thy ===== *)
theory LoggingProps
  imports Logging
begin

text \<open>
  What the log lines of \<^verbatim>\<open>internal/logging\<close> guarantee: the scrub removes the password, JSON strings
  decode to what was logged with bytes outside UTF-8 replaced, every JSON event is one line, logfmt fields can be read back, and
  the exact number of lines a logfmt event occupies.
\<close>

section \<open>The scrub\<close>

lemma ReplaceAll_prefix:
  assumes "prefix w (ReplaceAll old rep s)" and "set w \<inter> set rep = {}" and "rep \<noteq> []"
  shows "prefix w s"
  using assms
proof (induction old rep s arbitrary: w rule: ReplaceAll.induct)
  case (2 old rep c s)
  show ?case
  proof (cases "old \<noteq> [] \<and> prefix old (c # s)")
    case True
    with "2.prems" have "prefix w (rep @ ReplaceAll old rep (drop (length old) (c # s)))" by simp
    with "2.prems" have "w = []"
      by (cases w; cases rep) auto
    then show ?thesis by simp
  next
    case False
    with "2.prems" have p: "prefix w (c # ReplaceAll old rep s)" by auto
    then show ?thesis
    proof (cases w)
      case (Cons a w')
      with p have "a = c" "prefix w' (ReplaceAll old rep s)" by auto
      with 2 False Cons show ?thesis by auto
    qed simp
  qed
qed simp

lemma sublist_append_disjoint:
  assumes "sublist w (r @ t)" and "set w \<inter> set r = {}" and "w \<noteq> []"
  shows "sublist w t"
  using assms
proof (induction r)
  case (Cons a r)
  then have "prefix w (a # r @ t) \<or> sublist w (r @ t)"
    by (simp add: sublist_Cons_right)
  with Cons show ?case
    by (cases w) auto
qed simp

text \<open>Nothing that is disjoint from the replacement can come into being.\<close>

lemma ReplaceAll_sublist:
  assumes "sublist w (ReplaceAll old rep s)" and "set w \<inter> set rep = {}" and "rep \<noteq> []"
  shows "sublist w s"
proof (cases "w = []")
  case ne: False
  show ?thesis
    using assms
  proof (induction old rep s rule: ReplaceAll.induct)
    case (2 old rep c s)
    show ?case
    proof (cases "old \<noteq> [] \<and> prefix old (c # s)")
      case True
      with "2.prems" have "sublist w (ReplaceAll old rep (drop (length old) (c # s)))"
        using ne sublist_append_disjoint by auto
      with 2 True have "sublist w (drop (length old) (c # s))" by blast
      then show ?thesis
        by (metis append_assoc append_take_drop_id sublist_def)
    next
      case False
      with "2.prems" have "prefix w (c # ReplaceAll old rep s) \<or> sublist w (ReplaceAll old rep s)"
        by (auto simp: sublist_Cons_right)
      then show ?thesis
      proof
        assume "prefix w (c # ReplaceAll old rep s)"
        then obtain w' where w: "w = c # w'" and p: "prefix w' (ReplaceAll old rep s)"
          using ne by (cases w) auto
        from p have "prefix w' s"
          by (rule ReplaceAll_prefix) (use "2.prems" w in auto)
        with w have "prefix w (c # s)" by simp
        then show ?thesis by (rule prefix_imp_sublist)
      next
        assume "sublist w (ReplaceAll old rep s)"
        with 2 False show ?thesis by (auto simp: sublist_Cons_right)
      qed
    qed
  qed simp
qed simp

text \<open>The replaced string itself is gone, if it has no character of the replacement.\<close>

lemma ReplaceAll_gone:
  assumes "old \<noteq> []" and "set old \<inter> set rep = {}" and "rep \<noteq> []"
  shows "\<not> sublist old (ReplaceAll old rep s)"
  using assms
proof (induction old rep s rule: ReplaceAll.induct)
  case (2 old rep c s)
  show ?case
  proof (cases "old \<noteq> [] \<and> prefix old (c # s)")
    case True
    then have "\<not> sublist old (ReplaceAll old rep (drop (length old) (c # s)))"
      using 2 by blast
    with True "2.prems" show ?thesis
      using sublist_append_disjoint [of old rep "ReplaceAll old rep (drop (length old) (c # s))"] by auto
  next
    case False
    have "\<not> prefix old (c # ReplaceAll old rep s)"
    proof
      assume "prefix old (c # ReplaceAll old rep s)"
      then obtain w' where w: "old = c # w'" and p: "prefix w' (ReplaceAll old rep s)"
        using "2.prems" by (cases old) auto
      from p have "prefix w' s"
        by (rule ReplaceAll_prefix) (use "2.prems" w in auto)
      with w False show False by auto
    qed
    moreover have "\<not> sublist old (ReplaceAll old rep s)"
      using 2 False by blast
    moreover have "ReplaceAll old rep (c # s) = c # ReplaceAll old rep s"
      using False by auto
    ultimately show ?thesis by (simp add: sublist_Cons_right)
  qed
qed (simp add: sublist_def)

lemma ReplaceAll_id: "\<not> sublist old s \<Longrightarrow> ReplaceAll old rep s = s"
  by (induction old rep s rule: ReplaceAll.induct) (auto simp: sublist_Cons_right)

lemma redacted_nonempty [simp]: "redacted \<noteq> []"
  by (simp add: redacted_def)

lemma scrub_sublist:
  assumes "set w \<inter> set redacted = {}" and "sublist w (scrub ss line)"
  shows "sublist w line"
  using assms(2)
proof (induction ss arbitrary: line)
  case (Cons s ss)
  then have "sublist w (ReplaceAll s redacted line)" by (simp add: scrub_def)
  with assms show ?case using ReplaceAll_sublist redacted_nonempty by blast
qed (simp add: scrub_def)

lemma scrub_gone:
  assumes "w \<in> set ss" and "w \<noteq> []" and "set w \<inter> set redacted = {}"
  shows "\<not> sublist w (scrub ss line)"
  using assms(1)
proof (induction ss arbitrary: line)
  case (Cons s ss)
  show ?case
  proof (cases "w \<in> set ss")
    case True
    with Cons show ?thesis by (simp add: scrub_def)
  next
    case False
    with Cons.prems have "\<not> sublist w (ReplaceAll s redacted line)"
      using assms ReplaceAll_gone [of w redacted line] by simp
    then show ?thesis
      using scrub_sublist [OF assms(3), of ss "ReplaceAll s redacted line"] by (auto simp: scrub_def)
  qed
qed simp

text \<open>A character that occurs neither in what is scrubbed nor in the replacement keeps its number and its place at the end.\<close>

lemma ReplaceAll_filter:
  assumes "c \<notin> set old" and "c \<notin> set rep"
  shows "filter ((=) c) (ReplaceAll old rep s) = filter ((=) c) s"
  using assms
proof (induction old rep s rule: ReplaceAll.induct)
  case (2 old rep d s)
  have no: "filter ((=) c) xs = []" if "c \<notin> set xs" for xs
    using that by (auto simp: filter_empty_conv)
  show ?case
  proof (cases "old \<noteq> [] \<and> prefix old (d # s)")
    case True
    then obtain t where t: "d # s = old @ t" by (auto simp: prefix_def)
    with 2 True have "filter ((=) c) (ReplaceAll old rep t) = filter ((=) c) t" by simp
    with True 2 t no show ?thesis
      by (metis ReplaceAll.simps(2) append_eq_conv_conj append_Nil filter_append)
  next
    case False
    with 2 show ?thesis by auto
  qed
qed simp

lemma scrub_filter:
  assumes "\<forall>s \<in> set ss. c \<notin> set s" and "c \<notin> set redacted"
  shows "filter ((=) c) (scrub ss line) = filter ((=) c) line"
  using assms by (induction ss arbitrary: line) (simp_all add: scrub_def ReplaceAll_filter)

lemma ReplaceAll_snoc:
  assumes "c \<notin> set old"
  shows "ReplaceAll old rep (s @ [c]) = ReplaceAll old rep s @ [c]"
  using assms
proof (induction old rep s rule: ReplaceAll.induct)
  case (1 old rep)
  then show ?case by (cases old) (auto simp: prefix_def Cons_eq_append_conv)
next
  case (2 old rep d s)
  have p: "prefix old (d # s @ [c]) \<longleftrightarrow> prefix old (d # s)"
    using 2 by (auto simp: prefix_snoc [of old "d # s" c, simplified])
  show ?case
  proof (cases "old \<noteq> [] \<and> prefix old (d # s)")
    case True
    then obtain t where "d # s = old @ t" by (auto simp: prefix_def)
    then have "drop (length old) (d # s @ [c]) = drop (length old) (d # s) @ [c]"
      by (metis append_Cons append_assoc append_eq_conv_conj)
    with 2 True p show ?thesis by simp
  next
    case False
    with 2 p show ?thesis by auto
  qed
qed

lemma scrub_snoc: "\<forall>s \<in> set ss. c \<notin> set s \<Longrightarrow> scrub ss (line @ [c]) = scrub ss line @ [c]"
  by (induction ss arbitrary: line) (simp_all add: scrub_def ReplaceAll_snoc)

section \<open>Decoding JSON strings\<close>

text \<open>
  A decoder for the inside of a JSON string, after RFC 8259: it reads up to the closing quote, undoes the
  escapes, and refuses control characters. It returns the text and the input after the quote. (Pairs of escaped
  surrogates, which json.Marshal never writes, are not combined.)
\<close>

definition hex_val :: "char \<Rightarrow> nat option" where
  "hex_val c =
     (if 48 \<le> code c \<and> code c \<le> 57 then Some (code c - 48)
      else if 97 \<le> code c \<and> code c \<le> 102 then Some (code c - 87)
      else if 65 \<le> code c \<and> code c \<le> 70 then Some (code c - 55)
      else None)"

text \<open>The UTF-8 encoding of a Unicode scalar value, as RFC 3629 tabulates it.\<close>

definition scalar :: "nat \<Rightarrow> bool" where
  "scalar n \<longleftrightarrow> n < 0xD800 \<or> 0xE000 \<le> n \<and> n < 0x110000"

definition utf8_enc :: "nat \<Rightarrow> string" where
  "utf8_enc n =
     (if n < 0x80 then [char_of n]
      else if n < 0x800 then [char_of (0xC0 + n div 64), char_of (0x80 + n mod 64)]
      else if n < 0x10000 then [char_of (0xE0 + n div 4096), char_of (0x80 + n div 64 mod 64), char_of (0x80 + n mod 64)]
      else [char_of (0xF0 + n div 262144), char_of (0x80 + n div 4096 mod 64),
            char_of (0x80 + n div 64 mod 64), char_of (0x80 + n mod 64)])"

definition simple_escape :: "char \<Rightarrow> char option" where
  "simple_escape e =
     (if e = CHR 0x22 \<or> e = CHR 0x5C \<or> e = CHR ''/'' then Some e
      else if e = CHR ''b'' then Some (CHR 0x08) else if e = CHR ''f'' then Some (CHR 0x0C)
      else if e = CHR ''n'' then Some (CHR 0x0A) else if e = CHR ''r'' then Some (CHR 0x0D)
      else if e = CHR ''t'' then Some (CHR 0x09) else None)"

definition prepend :: "string \<Rightarrow> (string \<times> string) option \<Rightarrow> (string \<times> string) option" where
  "prepend u r = map_option (\<lambda>(t, rest). (u @ t, rest)) r"

fun json_decode :: "string \<Rightarrow> (string \<times> string) option" where
  "json_decode [] = None"
| "json_decode (c # s) =
     (if c = CHR 0x22 then Some ([], s)
      else if c = CHR 0x5C then
        (case s of
           [] \<Rightarrow> None
         | e # s' \<Rightarrow>
             if e = CHR ''u'' then
               (case s' of
                  h1 # h2 # h3 # h4 # r \<Rightarrow>
                    (case (hex_val h1, hex_val h2, hex_val h3, hex_val h4) of
                       (Some a, Some b, Some c, Some d) \<Rightarrow>
                         prepend (utf8_enc (a * 4096 + b * 256 + c * 16 + d)) (json_decode r)
                     | _ \<Rightarrow> None)
                | _ \<Rightarrow> None)
             else (case simple_escape e of Some x \<Rightarrow> prepend [x] (json_decode s') | None \<Rightarrow> None))
      else if code c < 0x20 then None
      else prepend [c] (json_decode s))"

text \<open>
  The text a reader of the encoder's output gets, computed with the encoder's own classification
  \<^const>\<open>utf8_len\<close> of the bytes; \<^verbatim>\<open>reads_as_iff\<close> below pins it without that classification.
\<close>

function valid_text :: "string \<Rightarrow> string" where
  "valid_text [] = []"
| "valid_text (c # s) =
     (if code c < 0x80 then c # valid_text s
      else if utf8_len (c # s) = 0 then utf8_enc 0xFFFD @ valid_text s
      else take (utf8_len (c # s)) (c # s) @ valid_text (drop (utf8_len (c # s)) (c # s)))"
  by pat_completeness auto
termination
  by (relation "measure length") auto

lemma prepend_prepend [simp]: "prepend u (prepend v r) = prepend (u @ v) r"
  by (cases r) (auto simp: prepend_def)

lemma hex_digit_val: "hex_val (hex_digit n) = Some (n mod 16)"
proof -
  have "\<forall>k \<in> {0..<16}. hex_val (''0123456789abcdef'' ! k) = Some k"
    by code_simp
  then show ?thesis by (simp add: hex_digit_def)
qed

lemma json_decode_ascii:
  assumes "code c < 0x80"
  shows "json_decode (json_ascii c @ t) = prepend [c] (json_decode t)"
proof -
  let ?named = "c \<in> {CHR 0x22, CHR 0x5C, CHR 0x08, CHR 0x0C, CHR 0x0A, CHR 0x0D, CHR 0x09}"
  let ?hex = "code c < 0x20 \<or> c = CHR ''<'' \<or> c = CHR ''>'' \<or> c = CHR ''&''"
  consider (1) ?named | (2) "\<not> ?named" ?hex | (3) "\<not> ?named" "\<not> ?hex" by argo
  then show ?thesis
  proof cases
    case 1
    then show ?thesis by (auto simp: json_ascii_def simple_escape_def)
  next
    case 2
    have "hex_val (CHR ''0'') = Some 0" by code_simp
    moreover have "code c div 16 mod 16 * 16 + code c mod 16 = code c"
      using assms by (simp add: mod_less)
    moreover have "utf8_enc (code c) = [c]"
      using assms by (simp add: utf8_enc_def code_def)
    ultimately show ?thesis
      using 2 by (simp add: json_ascii_def hex_digit_val)
  next
    case 3
    then show ?thesis by (simp add: json_ascii_def)
  qed
qed

lemma json_decode_high:
  assumes "\<forall>c \<in> set u. 0x80 \<le> code c"
  shows "json_decode (u @ t) = prepend u (json_decode t)"
  using assms
proof (induction u)
  case Nil
  then show ?case by (cases "json_decode t") (auto simp: prepend_def)
next
  case (Cons c u)
  then have "c \<noteq> CHR 0x22" "c \<noteq> CHR 0x5C" "\<not> code c < 0x20"
    by (auto simp: code_def)
  with Cons show ?case by simp
qed

lemma utf8_len_high: "list_all (\<lambda>c. 0x80 \<le> code c) (take (utf8_len s) s)"
proof (cases s rule: utf8_len.cases)
  case (1 a b r)
  have lead: "(0xC2 \<le> code a \<and> code a \<le> 0xDF) \<or> (0xE0 \<le> code a \<and> code a \<le> 0xEF) \<or> (0xF0 \<le> code a \<and> code a \<le> 0xF4)"
    if "utf8_len s \<noteq> 0"
    using that by (rule contrapos_np) (simp only: 1 utf8_len.simps de_Morgan_disj if_False)
  consider (x) "utf8_len s = 0" | (y) "utf8_len s \<noteq> 0" "0xC2 \<le> code a" "code a \<le> 0xDF"
    | (z) "utf8_len s \<noteq> 0" "0xE0 \<le> code a" "code a \<le> 0xEF" | (w) "utf8_len s \<noteq> 0" "0xF0 \<le> code a" "code a \<le> 0xF4"
    using lead by argo
  then show ?thesis
  proof cases
    case y
    then show ?thesis by (simp add: 1 cont_def split: if_splits)
  next
    case z
    then show ?thesis by (simp add: 1 cont_def split: if_splits list.splits)
  next
    case w
    then show ?thesis by (simp add: 1 cont_def split: if_splits list.splits)
  qed simp
qed simp_all

lemma json_decode_rune:
  assumes "\<forall>c \<in> set u. 0x80 \<le> code c"
  shows "json_decode (json_rune u @ t) = prepend u (json_decode t)"
proof -
  have "hex_val (CHR ''0'') = Some 0" "hex_val (CHR ''2'') = Some 2" "hex_val (CHR ''8'') = Some 8"
    "hex_val (CHR ''9'') = Some 9"
    by code_simp+
  moreover have "utf8_enc 0x2028 = line_sep 0xA8" "utf8_enc 0x2029 = line_sep 0xA9"
    by (simp_all add: utf8_enc_def line_sep_def)
  ultimately show ?thesis
    by (simp add: json_rune_def json_decode_high [OF assms])
qed

lemma json_decode_inner: "json_decode (json_inner s @ t) = prepend (valid_text s) (json_decode t)"
proof (induction s arbitrary: t rule: json_inner.induct)
  case 1
  show ?case by (cases "json_decode t") (auto simp: prepend_def)
next
  case (2 c s)
  have fffd: "hex_val (CHR ''f'') = Some 15" "hex_val (CHR ''d'') = Some 13"
    by code_simp+
  consider (a) "code c < 0x80" | (b) "\<not> code c < 0x80" "utf8_len (c # s) = 0"
    | (c) "\<not> code c < 0x80" "utf8_len (c # s) \<noteq> 0" by blast
  then show ?case
  proof cases
    case a
    with 2 show ?thesis by (simp add: json_decode_ascii)
  next
    case b
    with 2 show ?thesis by (simp add: fffd)
  next
    case c
    have "json_decode (json_rune (take (utf8_len (c # s)) (c # s)) @ u)
        = prepend (take (utf8_len (c # s)) (c # s)) (json_decode u)" for u
      by (rule json_decode_rune) (use utf8_len_high [of "c # s"] in \<open>simp only: list_all_iff\<close>)
    with 2 c show ?thesis by (simp del: take_Cons' drop_Cons')
  qed
qed

section \<open>What a reader may read\<close>

text \<open>
  The specification of the decoded text over scalar values alone: a string is read from its front, where the
  encoding of a scalar value stands for itself and a byte at which no encoding starts is the replacement character
  U+FFFD.
\<close>

inductive reads_as :: "string \<Rightarrow> string \<Rightarrow> bool" where
  reads_end: "reads_as [] []"
| reads_scalar: "scalar n \<Longrightarrow> reads_as s t \<Longrightarrow> reads_as (utf8_enc n @ s) (utf8_enc n @ t)"
| reads_invalid: "(\<And>n r. scalar n \<Longrightarrow> c # s \<noteq> utf8_enc n @ r) \<Longrightarrow> reads_as s t \<Longrightarrow> reads_as (c # s) (utf8_enc 0xFFFD @ t)"

lemma code_char [simp]: "m < 256 \<Longrightarrow> code (char_of m) = m"
  by (simp add: code_def)

lemma char_code [simp]: "char_of (code c) = c"
  by (simp add: code_def)

lemma cont_char: "cont (char_of (0x80 + m mod 64 :: nat))"
proof -
  have "m mod 64 < 64" by simp
  then show ?thesis by (simp add: cont_def)
qed

lemma utf8_len_enc:
  assumes "scalar n" and "0x80 \<le> n"
  shows "utf8_len (utf8_enc n @ r) = length (utf8_enc n)"
proof -
  have m: "n mod 64 < 64" "n div 64 mod 64 < 64" "n div 4096 mod 64 < 64" by simp_all
  consider "n < 0x800" | "0x800 \<le> n" "n < 0x10000" | "0x10000 \<le> n" by linarith
  then show ?thesis
  proof cases
    case 1
    have d: "2 \<le> n div 64" "n div 64 < 32" using assms(2) 1 by (simp_all add: less_eq_div_iff_mult_less_eq div_less_iff_less_mult)
    show ?thesis using 1 assms(2) d m(1) by (simp add: utf8_enc_def cont_char)
  next
    case 2
    have d: "n div 4096 < 16" using 2 by (simp add: div_less_iff_less_mult)
    have e0: "0x20 \<le> n div 64 mod 64" if "n div 4096 = 0"
    proof -
      from that 2 have "n < 4096" "32 \<le> n div 64" by (simp_all add: less_eq_div_iff_mult_less_eq div_eq_0_iff)
      then show ?thesis by (simp add: div_less_iff_less_mult)
    qed
    have ed: "n div 64 mod 64 \<le> 0x1F" if "n div 4096 = 13"
    proof -
      from that have "53248 \<le> n" "n < 57344" by linarith+
      with assms(1) have "n < 0xD800" by (auto simp: scalar_def)
      with \<open>53248 \<le> n\<close> have "n div 64 < 864" "832 \<le> n div 64" by (simp_all add: less_eq_div_iff_mult_less_eq div_less_iff_less_mult)
      then obtain j where "n div 64 = 13 * 64 + j" "j < 32" using nat_le_iff_add [of 832 "n div 64"] by auto
      then have "n div 64 mod 64 = j mod 64" by (simp only: mod_mult_self3)
      with \<open>j < 32\<close> show ?thesis by simp
    qed
    show ?thesis using 2 d e0 ed m by (simp add: utf8_enc_def cont_char)
  next
    case 3
    have d: "n div 262144 \<le> 4" using assms(1) 3 by (auto simp: scalar_def)
    have f0: "0x10 \<le> n div 4096 mod 64" if "n div 262144 = 0"
    proof -
      from that 3 have "n < 262144" "16 \<le> n div 4096" by (simp_all add: less_eq_div_iff_mult_less_eq div_eq_0_iff)
      then show ?thesis by (simp add: div_less_iff_less_mult)
    qed
    have f4: "n div 4096 mod 64 \<le> 0xF" if "n div 262144 = 4"
    proof -
      from assms(1) 3 have "n < 0x110000" by (auto simp: scalar_def)
      with that have "n div 4096 < 272" "256 \<le> n div 4096" by linarith+
      then obtain j where "n div 4096 = 4 * 64 + j" "j < 16" using nat_le_iff_add [of 256 "n div 4096"] by auto
      then have "n div 4096 mod 64 = j mod 64" by (simp only: mod_mult_self3)
      with \<open>j < 16\<close> show ?thesis by simp
    qed
    show ?thesis using 3 d f0 f4 m by (simp add: utf8_enc_def cont_char)
  qed
qed

lemma char_offset:
  assumes "k \<le> code c" and "code c \<le> k + m"
  obtains i where "c = char_of (k + i)" "i \<le> m" "code c = k + i"
proof
  show "c = char_of (k + (code c - k))" "code c - k \<le> m" "code c = k + (code c - k)" using assms by simp_all
qed

lemma cont_offset:
  assumes "cont c"
  obtains j where "c = char_of (0x80 + j)" "j < 64" "code c = 0x80 + j"
proof -
  have "0x80 \<le> code c" "code c \<le> 0x80 + 0x3F" using assms by (simp_all add: cont_def)
  then obtain i where "c = char_of (0x80 + i)" "i \<le> 0x3F" "code c = 0x80 + i" by (rule char_offset)
  then show thesis by (intro that [of i]) simp_all
qed

lemma digit64: "b < 64 \<Longrightarrow> (a * 64 + b) div 64 = (a :: nat)" "b < 64 \<Longrightarrow> (a * 64 + b) mod 64 = (b :: nat)"
  by simp_all

lemma utf8_len_is_enc:
  assumes "utf8_len s \<noteq> 0"
  obtains n where "scalar n" "0x80 \<le> n" "take (utf8_len s) s = utf8_enc n"
proof (cases s rule: utf8_len.cases)
  case (1 a b r)
  consider (two) "0xC2 \<le> code a" "code a \<le> 0xDF" "cont b" "utf8_len s = 2"
    | (three) c r' where "0xE0 \<le> code a" "code a \<le> 0xEF" "cont b" "code a = 0xE0 \<longrightarrow> 0xA0 \<le> code b" "code a = 0xED \<longrightarrow> code b \<le> 0x9F"
        "r = c # r'" "cont c" "utf8_len s = 3"
    | (four) c d r' where "0xF0 \<le> code a" "code a \<le> 0xF4" "cont b" "code a = 0xF0 \<longrightarrow> 0x90 \<le> code b" "code a = 0xF4 \<longrightarrow> code b \<le> 0x8F"
        "r = c # d # r'" "cont c" "cont d" "utf8_len s = 4"
    using assms unfolding 1 by (simp split: if_split_asm list.split_asm)
  then show thesis
  proof cases
    case two
    obtain i :: nat where a: "a = char_of (0xC0 + i)" "i \<le> 31" "code a = 0xC0 + i" by (rule char_offset [of 192 a 31]) (use two in auto)
    obtain j :: nat where b: "b = char_of (0x80 + j)" "j < 64" by (rule cont_offset [OF two(3)])
    have n: "(i * 64 + j) div 64 = i" "(i * 64 + j) mod 64 = j" using b(2) by simp_all
    have i: "2 \<le> i" using two(1) a(3) by simp
    with a b n have "utf8_enc (i * 64 + j) = [a, b]" by (simp add: utf8_enc_def)
    with two(4) 1 a(2) b(2) i show ?thesis by (intro that [of "i * 64 + j"]) (simp_all add: scalar_def)
  next
    case (three c r')
    obtain i :: nat where a: "a = char_of (0xE0 + i)" "i \<le> 15" "code a = 0xE0 + i" by (rule char_offset [of 224 a 15]) (use three in auto)
    obtain j :: nat where b: "b = char_of (0x80 + j)" "j < 64" "code b = 0x80 + j" by (rule cont_offset [OF three(3)])
    obtain k :: nat where c: "c = char_of (0x80 + k)" "k < 64" by (rule cont_offset [OF three(7)])
    define n where "n = (i * 64 + j) * 64 + k"
    have d1: "n div 64 = i * 64 + j" "n mod 64 = k" unfolding n_def by (rule digit64 [OF c(2)])+
    note d = d1 digit64(2) [OF b(2), of i] div_mult2_eq [of n 64 64, simplified, unfolded d1(1) digit64(1) [OF b(2)]]
    have lo: "i = 0 \<Longrightarrow> 32 \<le> j" "i = 13 \<Longrightarrow> j < 32" using three(4,5) a(3) b(3) by simp_all
    have n: "0x800 \<le> n" "n < 0x10000" using lo(1) a(2) b(2) c(2) unfolding n_def by (cases "i = 0", simp_all)
    have "scalar n" unfolding scalar_def n_def using lo(2) a(2) b(2) c(2) by (cases "i < 13"; cases "i = 13") simp_all
    moreover have "utf8_enc n = [a, b, c]" using n b(2) c(2) by (simp add: utf8_enc_def d a(1) b(1) c(1))
    moreover have "take (utf8_len s) s = [a, b, c]" unfolding three(8) by (simp add: 1 three(6))
    ultimately show ?thesis using n(1) by (intro that [of n]) simp_all
  next
    case (four c d r')
    obtain i :: nat where a: "a = char_of (0xF0 + i)" "i \<le> 4" "code a = 0xF0 + i" by (rule char_offset [of 240 a 4]) (use four in auto)
    obtain j :: nat where b: "b = char_of (0x80 + j)" "j < 64" "code b = 0x80 + j" by (rule cont_offset [OF four(3)])
    obtain k :: nat where c: "c = char_of (0x80 + k)" "k < 64" by (rule cont_offset [OF four(7)])
    obtain m :: nat where d: "d = char_of (0x80 + m)" "m < 64" by (rule cont_offset [OF four(8)])
    define n where "n = ((i * 64 + j) * 64 + k) * 64 + m"
    have e1: "n div 64 = (i * 64 + j) * 64 + k" "n mod 64 = m" unfolding n_def by (rule digit64 [OF d(2)])+
    note e2 = div_mult2_eq [of n 64 64, simplified, unfolded e1(1) digit64(1) [OF c(2)]]
    note e = e1 e2 digit64(2) [OF c(2), of "i * 64 + j"] digit64(2) [OF b(2), of i]
      div_mult2_eq [of n 4096 64, simplified, unfolded e2 digit64(1) [OF b(2)]]
    have lo: "i = 0 \<Longrightarrow> 16 \<le> j" "i = 4 \<Longrightarrow> j < 16" using four(4,5) a(3) b(3) by simp_all
    have n: "0x10000 \<le> n" using lo(1) unfolding n_def by (cases "i = 0") simp_all
    have "n < 0x110000" using lo(2) a(2) b(2) c(2) d(2) unfolding n_def by (cases "i = 4") simp_all
    then have "scalar n" using n by (simp add: scalar_def)
    moreover have "utf8_enc n = [a, b, c, d]" unfolding utf8_enc_def e a(1) b(1) c(1) d(1) using n by simp
    moreover have "take (utf8_len s) s = [a, b, c, d]" unfolding four(9) by (simp add: 1 four(6))
    ultimately show ?thesis using n by (intro that [of n]) simp_all
  qed
qed (use assms in simp_all)

lemma utf8_enc_ascii: "code c < 0x80 \<Longrightarrow> utf8_enc (code c) = [c]" "n < 0x80 \<Longrightarrow> utf8_enc n = [char_of n]"
  by (simp_all add: utf8_enc_def)

lemma utf8_enc_high: "0x80 \<le> n \<Longrightarrow> scalar n \<Longrightarrow> 0x80 \<le> code (hd (utf8_enc n))"
proof -
  assume "0x80 \<le> n" "scalar n"
  then have "n < 0x800 \<Longrightarrow> n div 64 < 64" "n < 0x10000 \<Longrightarrow> n div 4096 < 32" "n div 262144 < 16"
    by (auto simp: scalar_def)
  with \<open>0x80 \<le> n\<close> show ?thesis by (simp add: utf8_enc_def)
qed

lemma front_scalar:
  assumes "scalar n"
  obtains (ascii) c where "utf8_enc n = [c]" "code c < 0x80"
  | (high) c u where "utf8_enc n = c # u" "\<not> code c < 0x80" "\<And>r. utf8_len (utf8_enc n @ r) = length (utf8_enc n)"
proof (cases "n < 0x80")
  case True
  then show ?thesis by (intro ascii [of "char_of n"]) (simp_all add: utf8_enc_ascii)
next
  case False
  then obtain c u where "utf8_enc n = c # u" "\<not> code c < 0x80"
    using utf8_enc_high [OF _ assms] by (cases "utf8_enc n") (auto simp: utf8_enc_def split: if_split_asm)
  with False utf8_len_enc [OF assms] show ?thesis by (intro high) simp_all
qed

lemma reads_as_det: "reads_as s t \<Longrightarrow> t = valid_text s"
proof (induction rule: reads_as.induct)
  case (reads_scalar n s t)
  from \<open>scalar n\<close> show ?case
  proof (cases rule: front_scalar)
    case (ascii c)
    then show ?thesis using reads_scalar.IH by simp
  next
    case (high c u)
    have "take (utf8_len (c # u @ s)) (c # u @ s) = utf8_enc n" "drop (utf8_len (c # u @ s)) (c # u @ s) = s"
      using high(3) [of s] by (simp_all add: high(1) del: utf8_len.simps)
    moreover have "utf8_len (c # u @ s) \<noteq> 0" using high(3) [of s] by (simp add: high(1) del: utf8_len.simps)
    ultimately show ?thesis using high(1,2) reads_scalar.IH by (simp only: valid_text.simps append_Cons if_False)
  qed
next
  case (reads_invalid c s t)
  have "\<not> code c < 0x80"
    using reads_invalid(1) [of "code c" s] by (auto simp: utf8_enc_ascii scalar_def)
  moreover have "utf8_len (c # s) = 0"
  proof (rule ccontr)
    assume "utf8_len (c # s) \<noteq> 0"
    then obtain n where "scalar n" "take (utf8_len (c # s)) (c # s) = utf8_enc n" by (rule utf8_len_is_enc)
    then show False
      using reads_invalid(1) [of n "drop (utf8_len (c # s)) (c # s)"] append_take_drop_id [of "utf8_len (c # s)" "c # s"] by simp
  qed
  ultimately show ?case using reads_invalid.IH by (simp only: valid_text.simps if_False simp_thms if_True)
qed simp

lemma reads_as_exists: "reads_as s (valid_text s)"
proof (induction s rule: valid_text.induct)
  case (2 c s)
  consider (a) "code c < 0x80" | (b) "\<not> code c < 0x80" "utf8_len (c # s) = 0"
    | (c) "\<not> code c < 0x80" "utf8_len (c # s) \<noteq> 0" by blast
  then show ?case
  proof cases
    case a
    then show ?thesis using reads_scalar [OF _ "2.IH"(1) [OF a], of "code c"] by (simp add: utf8_enc_ascii scalar_def)
  next
    case b
    have "c # s \<noteq> utf8_enc n @ r" if n: "scalar n" for n r
    proof (rule front_scalar [OF n])
      fix d u assume "utf8_enc n = [d]" "code d < 0x80"
      with b(1) show ?thesis by auto
    next
      fix d u assume "utf8_enc n = d # u" "\<And>r. utf8_len (utf8_enc n @ r) = length (utf8_enc n)"
      with b(2) show ?thesis by (metis length_0_conv list.discI)
    qed
    then show ?thesis using reads_invalid [OF _ "2.IH"(2) [OF b]] b by (simp only: valid_text.simps if_False if_True simp_thms)
  next
    case c
    obtain n where n: "scalar n" "take (utf8_len (c # s)) (c # s) = utf8_enc n" using c(2) by (rule utf8_len_is_enc)
    from reads_scalar [OF n(1) "2.IH"(3) [OF c]] show ?thesis
      unfolding n(2) [symmetric] append_take_drop_id using c by (simp only: valid_text.simps if_False)
  qed
qed (simp add: reads_end)

lemma reads_as_iff: "reads_as s t \<longleftrightarrow> t = valid_text s"
  using reads_as_det reads_as_exists by blast

lemma valid_text_longer: "length s \<le> length (valid_text s)"
proof (induction s rule: valid_text.induct)
  case (2 c s)
  then show ?case by (simp del: utf8_len.simps add: utf8_enc_def) linarith
qed simp

lemma valid_text_fixed: "valid_text s = s \<longleftrightarrow> (\<exists>ns. list_all scalar ns \<and> s = concat (map utf8_enc ns))" (is "?l \<longleftrightarrow> ?r")
proof
  assume ?r
  then obtain ns where "list_all scalar ns" "s = concat (map utf8_enc ns)" by blast
  then have "reads_as s s" by (induction ns arbitrary: s) (auto intro: reads_as.intros)
  then show ?l by (simp add: reads_as_det [symmetric])
next
  have "\<exists>ns. list_all scalar ns \<and> s = concat (map utf8_enc ns)" if "reads_as s t" "t = s" for t
    using that
  proof (induction rule: reads_as.induct)
    case (reads_scalar n s t)
    then obtain ns where "list_all scalar ns" "s = concat (map utf8_enc ns)" by auto
    then show ?case using reads_scalar(1) by (intro exI [of _ "n # ns"]) simp
  next
    case (reads_invalid c s t)
    have "length s \<le> length t" using valid_text_longer [of s] by (simp add: reads_as_det [OF reads_invalid(2)])
    moreover have "length (utf8_enc 0xFFFD @ t) = length (c # s)" using reads_invalid(4) by (simp only:)
    ultimately show ?case by (simp add: utf8_enc_def)
  qed (intro exI [of _ "[]"], simp)
  then show "?l \<Longrightarrow> ?r" using reads_as_exists [of s] by simp
qed

section \<open>No control characters in JSON\<close>

abbreviation printable :: "string \<Rightarrow> bool" where
  "printable s \<equiv> list_all (\<lambda>c. 0x20 \<le> code c) s"

lemma printable_hex: "0x20 \<le> code (hex_digit n)"
proof -
  have "\<forall>k \<in> {0..<16}. 0x20 \<le> code (''0123456789abcdef'' ! k)" by code_simp
  then show ?thesis by (simp add: hex_digit_def)
qed

lemma code_numeral [simp]: "code (Char b0 b1 b2 b3 b4 b5 b6 b7) = of_char (Char b0 b1 b2 b3 b4 b5 b6 b7)"
  by (simp add: code_def)

lemma printable_ascii: "printable (json_ascii c)"
  by (simp add: json_ascii_def printable_hex)

lemma printable_rune: "\<forall>c \<in> set u. 0x80 \<le> code c \<Longrightarrow> printable (json_rune u)"
  by (fastforce simp: json_rune_def list_all_iff)

lemma printable_inner: "printable (json_inner s)"
proof (induction s rule: json_inner.induct)
  case (2 c s)
  have "printable (json_rune (take (utf8_len (c # s)) (c # s)))"
    by (rule printable_rune) (use utf8_len_high [of "c # s"] in \<open>simp only: list_all_iff\<close>)
  with 2 show ?case by (simp add: printable_ascii)
qed simp

lemma printable_json: "printable (writeJSONString s)"
  by (simp add: writeJSONString_def json_Marshal_def printable_inner)

lemma printable_show_nat: "printable (show_nat n)"
  unfolding list_all_iff using show_nat_digits by (fastforce simp: code_def)

lemma printable_show_int: "printable (show_int i)"
  by (simp add: show_int_def printable_show_nat)

section \<open>The events the program logs\<close>

inductive is_event :: "log_event \<Rightarrow> bool" where
  "is_event (Log_Listening b p f u i a c)"
| "is_event (Log_ConnOpen r)"
| "is_event (Log_ConnClose r d)"
| "is_event (Log_AuthOK r u m f)"
| "is_event (Log_AuthFail r u m e n d f)"
| "is_event (Log_Session r k)"
| "is_event (Log_Reject r what)"
| "is_event (Log_ShutdownSignal p s e)"
| "is_event (Log_DrainTimeout r k n)"
| "is_event (Log_Error m r)"
| "is_event (Log_PubkeyParseError pth n e)"
| "is_event (Log_PubkeyOptionIgnored pth n opt)"
| "is_event (Log_PubkeyKeysMissing pth)"
| "is_event (Log_PubkeyReloadOK pth n)"
| "is_event (Log_PubkeyReloadFailed pth e)"
| "is_event (Log_ForwardOpen r h p oh op)"
| "is_event (Log_ForwardClose r h p bi bo d)"
| "is_event (Log_ForwardReject r h p e)"

text \<open>
  What the encoders rely on: plain keys, pairwise different, and integer fields whose text is
  the number; level and name without white space.
\<close>

definition plain :: "string \<Rightarrow> bool" where
  "plain s \<longleftrightarrow> s \<noteq> [] \<and> list_all (\<lambda>c. 0x20 < code c \<and> c \<noteq> CHR ''='' \<and> c \<noteq> CHR 0x22) s"

definition wf_field :: "field \<Rightarrow> bool" where
  "wf_field f \<longleftrightarrow> plain (fkey f) \<and> (fkind f = fieldInt \<longrightarrow> fval f = show_int (fnum f)) \<and> fkind f \<noteq> fieldBool"

definition wf_event :: "log_event \<Rightarrow> bool" where
  "wf_event e = (case e of (level, event, fs) \<Rightarrow>
     plain level \<and> plain event \<and> list_all wf_field fs \<and> distinct (map fkey fs))"

lemmas field_defs = strField_def intField_def durField_def itoa_def

lemma is_event_wf: "is_event e \<Longrightarrow> wf_event e"
  by (induction rule: is_event.induct)
    (simp_all add: wf_event_def log_defs field_defs wf_field_def plain_def levelInfo_def levelWarn_def levelError_def)

section \<open>JSON lines\<close>

definition clean_float :: "(nanos \<Rightarrow> string) \<Rightarrow> bool" where
  "clean_float float_secs \<longleftrightarrow> (\<forall>d. printable (float_secs d))"

lemma printable_json_field:
  "wf_field f \<Longrightarrow> clean_float float_secs \<Longrightarrow> printable (writeJSONField float_secs f)"
  by (cases "fkind f")
    (auto simp: writeJSONField_def writeJSONKey_def printable_json wf_field_def clean_float_def printable_show_int Let_def)

definition json_body :: "(nanos \<Rightarrow> string) \<Rightarrow> civil \<Rightarrow> string \<Rightarrow> string \<Rightarrow> field list \<Rightarrow> string" where
  "json_body float_secs now level event fs = butlast (encodeJSON float_secs now level event fs)"

lemma encodeJSON_body: "encodeJSON float_secs now level event fs = json_body float_secs now level event fs @ [CHR 0x0A]"
  by (simp add: json_body_def encodeJSON_def butlast_append)

lemma list_all_concat_map: "(\<And>x. x \<in> set xs \<Longrightarrow> list_all P (f x)) \<Longrightarrow> list_all P (concat (map f xs))"
  by (induction xs) auto

lemma printable_json_body:
  assumes "list_all wf_field fs" and "clean_float float_secs"
  shows "printable (json_body float_secs now level event fs)"
proof -
  have "printable (concat (map (\<lambda>f. '','' @ writeJSONField float_secs f) (sort_key fkey fs)))"
    by (rule list_all_concat_map) (use assms in \<open>auto simp: list_all_iff [of wf_field] printable_json_field\<close>)
  then show ?thesis
    by (simp add: json_body_def encodeJSON_def butlast_append writeJSONStringField_def writeJSONKey_def printable_json)
qed

lemma printable_no_newline: "printable s \<Longrightarrow> CHR 0x0A \<notin> set s"
  by (auto simp: list_all_iff)

section \<open>Reading logfmt fields back\<close>

fun read_quoted :: "string \<Rightarrow> (string \<times> string) option" where
  "read_quoted [] = None"
| "read_quoted (c # s) =
     (if c = CHR 0x22 then Some ([], s)
      else if c = CHR 0x5C then (case s of [] \<Rightarrow> None | d # s' \<Rightarrow> prepend [d] (read_quoted s'))
      else prepend [c] (read_quoted s))"

definition value_end :: "char \<Rightarrow> bool" where
  "value_end c \<longleftrightarrow> c = CHR '' '' \<or> c = CHR 0x0A"

definition read_value :: "string \<Rightarrow> (string \<times> string) option" where
  "read_value s =
     (if s \<noteq> [] \<and> hd s = CHR 0x22 then read_quoted (tl s)
      else Some (takeWhile (\<lambda>c. \<not> value_end c) s, dropWhile (\<lambda>c. \<not> value_end c) s))"

text \<open>The fields of a line, from the blank before the first key to the final newline; at most \<open>n\<close> of them.\<close>

fun read_fields :: "nat \<Rightarrow> string \<Rightarrow> (string \<times> string) list option" where
  "read_fields n s =
     (if s = [CHR 0x0A] then Some []
      else (case (n, s) of
          (Suc m, b # t) \<Rightarrow>
            if b = CHR '' '' then
              (case read_value (tl (dropWhile (\<lambda>c. c \<noteq> CHR ''='') t)) of
                 None \<Rightarrow> None
               | Some (v, rest) \<Rightarrow>
                   map_option (\<lambda>fs. (takeWhile (\<lambda>c. c \<noteq> CHR ''='') t, v) # fs) (read_fields m rest))
            else None
        | _ \<Rightarrow> None))"

declare read_fields.simps [simp del]

lemma read_quoted_escape: "read_quoted (escape_logfmt v @ CHR 0x22 # r) = Some (v, r)"
  by (induction v) (auto simp: prepend_def)

lemma read_value_write:
  assumes "value_end c"
  shows "read_value (writeValue v @ c # r) = Some (v, c # r)"
proof (cases "needsQuoting v")
  case True
  then show ?thesis by (simp add: writeValue_def read_value_def read_quoted_escape)
next
  case False
  then have v: "v \<noteq> []" "\<forall>d \<in> set v. \<not> value_end d \<and> d \<noteq> CHR 0x22"
    by (auto simp: needsQuoting_def quote_triggers_def value_end_def list_ex_iff)
  then have "hd (v @ c # r) \<noteq> CHR 0x22" by simp
  with v False assms show ?thesis
    by (simp add: writeValue_def read_value_def takeWhile_append2 dropWhile_append2)
qed

definition logfmt_fields :: "field list \<Rightarrow> string" where
  "logfmt_fields fs = concat (map (\<lambda>f. '' '' @ fkey f @ ''='' @ writeValue (fval f)) fs) @ [CHR 0x0A]"

lemma read_fields_write:
  assumes "\<forall>f \<in> set fs. plain (fkey f)"
  shows "read_fields (length fs) (logfmt_fields fs) = Some (map (\<lambda>f. (fkey f, fval f)) fs)"
  using assms
proof (induction fs)
  case Nil
  then show ?case by (simp add: logfmt_fields_def read_fields.simps)
next
  case (Cons f fs)
  let ?k = "fkey f" and ?rest = "logfmt_fields fs"
  have k: "\<forall>c \<in> set ?k. c \<noteq> CHR ''=''"
    using Cons.prems by (auto simp: plain_def list_all_iff)
  obtain c r where r: "?rest = c # r" "value_end c"
    by (cases fs) (auto simp: logfmt_fields_def value_end_def)
  have line: "logfmt_fields (f # fs) = CHR '' '' # ?k @ CHR ''='' # writeValue (fval f) @ ?rest"
    by (simp add: logfmt_fields_def)
  have "read_value (writeValue (fval f) @ ?rest) = Some (fval f, ?rest)"
    unfolding r by (rule read_value_write) (rule r)
  moreover have "takeWhile (\<lambda>c. c \<noteq> CHR ''='') (?k @ CHR ''='' # t) = ?k"
    "dropWhile (\<lambda>c. c \<noteq> CHR ''='') (?k @ CHR ''='' # t) = CHR ''='' # t" for t
    using k by (simp_all add: takeWhile_append2 dropWhile_append2)
  moreover have "read_fields (length fs) ?rest = Some (map (\<lambda>f. (fkey f, fval f)) fs)"
    using Cons by simp
  ultimately show ?case
    by (simp add: line read_fields.simps [of "Suc (length fs)"])
qed

section \<open>Counting lines\<close>

abbreviation newlines :: "string \<Rightarrow> nat" where
  "newlines s \<equiv> length (filter ((=) (CHR 0x0A)) s)"

lemma newlines_none: "CHR 0x0A \<notin> set s \<Longrightarrow> newlines s = 0"
  by (auto simp: filter_empty_conv)

lemma plain_printable: "plain s \<Longrightarrow> printable s"
  unfolding plain_def list_all_iff by (meson less_imp_le)

lemma newlines_plain: "plain s \<Longrightarrow> newlines s = 0"
  by (intro newlines_none printable_no_newline plain_printable)

lemma newlines_escape: "newlines (escape_logfmt v) = newlines v"
  by (induction v) auto

lemma newlines_writeValue: "newlines (writeValue v) = newlines v"
  by (simp add: writeValue_def newlines_escape)

lemma printable_pad: "printable (pad w n)"
  using printable_show_nat [of n] by (auto simp: pad_def list_all_iff)

lemma newlines_RFC3339: "newlines (RFC3339 t) = 0"
proof -
  have "printable (RFC3339 t)"
    unfolding RFC3339_def Let_def by (simp add: printable_pad)
  then show ?thesis by (intro newlines_none printable_no_newline)
qed

lemma newlines_logfmt_fields:
  "list_all wf_field fs \<Longrightarrow> newlines (logfmt_fields fs) = Suc (sum_list (map (newlines \<circ> fval) fs))"
proof (induction fs)
  case (Cons f fs)
  then have "newlines (fkey f) = 0"
    by (intro newlines_plain) (simp add: wf_field_def)
  with Cons show ?case
    by (simp add: logfmt_fields_def newlines_writeValue)
qed (simp add: logfmt_fields_def)

lemma encodeLogfmt_fields:
  "encodeLogfmt now level event fs = (RFC3339 now @ '' '' @ level @ '' '' @ event) @ logfmt_fields fs"
  by (simp add: encodeLogfmt_def logfmt_fields_def)

section \<open>Whole logs\<close>

lemma newline_not_redacted: "CHR 0x0A \<notin> set redacted"
  by (simp add: redacted_def)

lemma scrubs_New: "scrubs (New_Logger pw f) =
   (if pw = [] then [] else pw # (if json_inner pw \<noteq> pw then [json_inner pw] else []))"
  by (simp add: New_Logger_def json_Marshal_def Let_def)

lemma scrubs_no_newline: "CHR 0x0A \<notin> set pw \<Longrightarrow> \<forall>s \<in> set (scrubs (New_Logger pw f)). CHR 0x0A \<notin> set s"
  using printable_no_newline [OF printable_inner [of pw]] by (auto simp: scrubs_New)

lemma event_line_newline:
  assumes "\<forall>s \<in> set (scrubs l). CHR 0x0A \<notin> set s"
  shows "\<exists>b. event_line float_secs now level event fs l = b @ [CHR 0x0A]"
proof -
  have "\<exists>b. (if lformat l = FormatJSON then encodeJSON float_secs now level event fs
        else encodeLogfmt now level event fs) = b @ [CHR 0x0A]"
    by (auto simp: encodeJSON_body encodeLogfmt_fields logfmt_fields_def)
  then show ?thesis
    using scrub_snoc [OF assms] by (auto simp: event_line_def)
qed

text \<open>A sequence of log calls.\<close>

definition log_all :: "(nanos \<Rightarrow> string) \<Rightarrow> (civil \<times> log_event) list \<Rightarrow> Logger \<Rightarrow> Logger" where
  "log_all float_secs es l = foldl (\<lambda>l (now, e). log_to float_secs now e l) l es"

lemma log_to_simps [simp]:
  "scrubs (log_to fl now e l) = scrubs l" "lformat (log_to fl now e l) = lformat l"
  by (auto simp: log_to_def emit_def split: prod.splits)

lemma log_to_out:
  "w_out (log_to fl now (level, event, fs) l) = w_out l @ event_line fl now level event fs l"
  by (simp add: log_to_def emit_def)

text \<open>A word without the separator cannot lie across it.\<close>

lemma sublist_across:
  assumes "sublist w (a @ [c] @ b)" and "c \<notin> set w"
  shows "sublist w a \<or> sublist w b"
proof (cases "w = []")
  case False
  from assms(1) have "sublist w a \<or> sublist w ([c] @ b)
      \<or> (\<exists>u v. w = u @ v \<and> suffix u a \<and> prefix v ([c] @ b))"
    by (simp add: sublist_append)
  then show ?thesis
  proof (elim disjE exE conjE)
    assume "sublist w ([c] @ b)"
    then show ?thesis
      using assms(2) False by (auto simp: sublist_Cons_right prefix_Cons)
  next
    fix u v assume uv: "w = u @ v" "suffix u a" "prefix v ([c] @ b)"
    with assms(2) have "v = []" by (cases v) auto
    with uv show ?thesis by (auto simp: suffix_imp_sublist)
  qed blast
qed simp

lemma log_all_gone:
  assumes "pw \<noteq> []" and "set pw \<inter> set redacted = {}" and "CHR 0x0A \<notin> set pw"
    and "pw \<in> set (scrubs l)" and "\<forall>s \<in> set (scrubs l). CHR 0x0A \<notin> set s"
    and "w_out l = [] \<or> last (w_out l) = CHR 0x0A" and "\<not> sublist pw (w_out l)"
  shows "\<not> sublist pw (w_out (log_all fl es l))"
  using assms(4-)
proof (induction es arbitrary: l)
  case (Cons e es)
  obtain now level event fs where e: "e = (now, level, event, fs)" by (cases e)
  let ?line = "event_line fl now level event fs l"
  obtain b where line: "?line = b @ [CHR 0x0A]"
    using event_line_newline [OF Cons.prems(2)] by blast
  have nl: "\<not> sublist pw ?line"
    unfolding event_line_def using scrub_gone [OF Cons.prems(1) assms(1,2)] by blast
  have "\<not> sublist pw (w_out l @ ?line)"
  proof (cases "w_out l = []")
    case False
    with Cons.prems(3) obtain a where a: "w_out l = a @ [CHR 0x0A]"
      by (metis append_butlast_last_id)
    then have "\<not> sublist pw a" using Cons.prems(4) by (auto simp: sublist_append)
    then show ?thesis
      using sublist_across [of pw a "CHR 0x0A" ?line] assms(3) nl by (auto simp: a)
  qed (use nl in simp)
  with Cons line have "\<not> sublist pw (w_out (log_all fl es (log_to fl now (level, event, fs) l)))"
    by (intro Cons.IH) (simp_all add: log_to_out)
  then show ?case by (simp add: log_all_def e)
qed (simp add: log_all_def)

lemma New_Logger_gone:
  assumes "pw \<noteq> []" and "set pw \<inter> set redacted = {}" and "CHR 0x0A \<notin> set pw"
  shows "\<not> sublist pw (w_out (log_all float_secs es (New_Logger pw f)))"
proof (rule log_all_gone [OF assms])
  show "pw \<in> set (scrubs (New_Logger pw f))" using assms by (simp add: scrubs_New)
  show "\<forall>s \<in> set (scrubs (New_Logger pw f)). CHR 0x0A \<notin> set s"
    using assms by (intro scrubs_no_newline)
  show "w_out (New_Logger pw f) = [] \<or> last (w_out (New_Logger pw f)) = CHR 0x0A"
    by (simp add: New_Logger_def Let_def)
  show "\<not> sublist pw (w_out (New_Logger pw f))"
    using assms by (simp add: New_Logger_def Let_def)
qed

text \<open>A clock reading for concrete lines.\<close>

definition sample_time :: civil where
  "sample_time = \<lparr> t_year = 2024, t_month = 5, t_day = 6, t_hour = 7, t_minute = 8, t_sec = 9, t_zone = 0 \<rparr>"

section \<open>Properties\<close>

text \<open>
  C24: A password that shares no character with the text \<^verbatim>\<open>[REDACTED]\<close> (such as any string of digits) and has no
  newline never occurs in the log, in either format: not in any line, and not across lines, whatever events are
  logged with whatever values, including the password itself.
\<close>

theorem password_never_logged:
  assumes "pw \<noteq> []" and "set pw \<inter> set redacted = {}" and "CHR 0x0A \<notin> set pw"
  shows "\<not> sublist pw (w_out (log_all float_secs es (New_Logger pw f)))"
  by (rule New_Logger_gone [OF assms])

theorem password_never_logged_witness:
  "\<not> sublist ''123456'' (w_out (log_all (\<lambda>_. ''0'')
      [(sample_time, Log_AuthOK ''[::1]:50000'' ''x123456y'' ''password'' ''''), (sample_time, Log_ConnOpen ''123456'')]
      (New_Logger ''123456'' FormatJSON)))"
  by (rule password_never_logged) (simp_all add: redacted_def)

text \<open>
  Without that restriction the scrub does not keep its promise: replacing every occurrence can put the password
  together again out of the text around a replacement, so the logged line still contains it.
\<close>

theorem scrub_recreates_password:
  "\<exists>pw remote. pw \<noteq> [] \<and> CHR 0x0A \<notin> set pw
     \<and> sublist pw (w_out (log_to float_secs now (Log_ConnOpen remote) (New_Logger pw FormatLogfmt)))"
proof -
  let ?pw = "''b[''" and ?l = "New_Logger ''b['' FormatLogfmt"
  have no_b: "CHR ''b'' \<notin> set (RFC3339 now)"
  proof -
    have "CHR ''b'' \<notin> set (show_nat n)" for n
      using show_nat_digits [of "CHR ''b''" n] by auto
    then show ?thesis by (simp add: RFC3339_def pad_def Let_def)
  qed
  have skip: "ReplaceAll ?pw r (u @ t) = u @ ReplaceAll ?pw r t" if "CHR ''b'' \<notin> set u" for u r t
    using that by (induction u) auto
  have "scrubs ?l = [?pw]"
    by (simp add: scrubs_New json_ascii_def)
  then have line: "w_out (log_to float_secs now (Log_ConnOpen ''bb[['') ?l) =
    RFC3339 now @ '' INFO conn-open remote='' @ ''b[REDACTED]['' @ [CHR 0x0A]"
    by (simp add: log_to_def emit_def event_line_def Log_ConnOpen_def New_Logger_def Let_def FormatLogfmt_def FormatJSON_def
        scrub_def encodeLogfmt_def skip [OF no_b] levelInfo_def strField_def writeValue_def needsQuoting_def
        quote_triggers_def redacted_def)
  have "sublist ?pw (RFC3339 now @ '' INFO conn-open remote='' @ ''b[REDACTED]['' @ [CHR 0x0A])"
    unfolding sublist_def
    by (intro exI [of _ "RFC3339 now @ '' INFO conn-open remote=''"] exI [of _ "''REDACTED]['' @ [CHR 0x0A]"]) simp
  then have "?pw \<noteq> [] \<and> CHR 0x0A \<notin> set ?pw \<and> sublist ?pw (w_out (log_to float_secs now (Log_ConnOpen ''bb[['') ?l))"
    unfolding line by simp
  then show ?thesis by blast
qed

text \<open>
  In JSON every event is exactly one line: a newline ends it and no control character occurs before, for
  every event the program logs and every value in it, provided the number format of durations has none and the password has no newline.
\<close>

theorem json_one_line:
  assumes "is_event (level, event, fs)" and "clean_float float_secs" and "CHR 0x0A \<notin> set pw"
  shows "\<exists>body. event_line float_secs now level event fs (New_Logger pw FormatJSON) = body @ [CHR 0x0A]
    \<and> CHR 0x0A \<notin> set body"
proof -
  let ?ss = "scrubs (New_Logger pw FormatJSON)" and ?b = "json_body float_secs now level event fs"
  have wf: "list_all wf_field fs"
    using is_event_wf [OF assms(1)] by (simp add: wf_event_def)
  have "event_line float_secs now level event fs (New_Logger pw FormatJSON) = scrub ?ss (?b @ [CHR 0x0A])"
    by (simp add: event_line_def encodeJSON_body) (simp add: New_Logger_def Let_def)
  also have "\<dots> = scrub ?ss ?b @ [CHR 0x0A]"
    using scrubs_no_newline [OF assms(3)] by (rule scrub_snoc)
  finally have line: "event_line float_secs now level event fs (New_Logger pw FormatJSON) = scrub ?ss ?b @ [CHR 0x0A]" .
  have "filter ((=) (CHR 0x0A)) (scrub ?ss ?b) = filter ((=) (CHR 0x0A)) ?b"
    using scrubs_no_newline [OF assms(3)] newline_not_redacted by (rule scrub_filter)
  also have "\<dots> = []"
    using printable_no_newline [OF printable_json_body [OF wf assms(2)]] by (auto simp: filter_empty_conv)
  finally have "CHR 0x0A \<notin> set (scrub ?ss ?b)" by (auto simp: filter_empty_conv)
  with line show ?thesis by blast
qed

theorem json_one_line_witness:
  "\<exists>body. event_line (\<lambda>_. ''0'') sample_time levelWarn ''reject'' [strField ''remote'' ''a'', strField ''what'' [CHR 0x0A]]
      (New_Logger ''pw'' FormatJSON) = body @ [CHR 0x0A] \<and> CHR 0x0A \<notin> set body"
  by (rule json_one_line) (use is_event.intros(7) [of "''a''" "[CHR 0x0A]"] in \<open>simp_all add: Log_Reject_def clean_float_def\<close>)

text \<open>
  C32: A JSON string decodes, by the rules of RFC 8259, to one text only: what was logged, read from its front, with the
  UTF-8 encoding (RFC 3629) of every Unicode scalar value kept and every byte at which none starts replaced by
  U+FFFD. The text is the logged bytes themselves exactly when these are a sequence of such encodings. The decoder
  stops at the closing quote that the encoder wrote, so no value can end its string early.
\<close>

theorem json_string_roundtrip:
  "\<exists>inner t. writeJSONString s = CHR 0x22 # inner @ [CHR 0x22]
     \<and> json_decode (inner @ CHR 0x22 # rest) = Some (t, rest)
     \<and> (\<forall>t'. reads_as s t' \<longleftrightarrow> t' = t)
     \<and> (t = s \<longleftrightarrow> (\<exists>ns. list_all scalar ns \<and> s = concat (map utf8_enc ns)))"
proof -
  have "json_decode (json_inner s @ CHR 0x22 # rest) = Some (valid_text s, rest)"
    by (simp add: json_decode_inner) (simp add: prepend_def)
  then show ?thesis
    by (intro exI [of _ "json_inner s"] exI [of _ "valid_text s"])
      (simp add: writeJSONString_def json_Marshal_def reads_as_iff valid_text_fixed)
qed

text \<open>
  C33: The fields of a logfmt line can be read back: for every event, the reader that undoes the quoting returns
  the keys and values in the order they were logged.
\<close>

theorem logfmt_roundtrip:
  assumes "is_event (level, event, fs)"
  shows "\<exists>tail. encodeLogfmt now level event fs = RFC3339 now @ '' '' @ level @ '' '' @ event @ tail
    \<and> read_fields (length fs) tail = Some (map (\<lambda>f. (fkey f, fval f)) fs)"
proof -
  have "\<forall>f \<in> set fs. plain (fkey f)"
    using is_event_wf [OF assms] by (auto simp: wf_event_def list_all_iff wf_field_def)
  then show ?thesis
    using read_fields_write [of fs] by (intro exI [of _ "logfmt_fields fs"]) (simp add: encodeLogfmt_fields)
qed

theorem logfmt_roundtrip_witness:
  "\<exists>tail. encodeLogfmt sample_time levelInfo ''session'' [strField ''remote'' ''a b'', strField ''kind'' ''exec''] =
      RFC3339 sample_time @ '' '' @ levelInfo @ '' '' @ ''session'' @ tail
    \<and> read_fields 2 tail = Some [(''remote'', ''a b''), (''kind'', ''exec'')]"
  using logfmt_roundtrip [of levelInfo "''session''" "[strField ''remote'' ''a b'', strField ''kind'' ''exec'']" sample_time]
    is_event.intros(6) [of "''a b''" "''exec''"]
  by (simp add: Log_Session_def strField_def numeral_2_eq_2)

text \<open>
  A logfmt event occupies one line for its end plus one for every newline in a field value: the encoder does not
  escape newlines, so a value chosen by a client (a username, a channel type) can start a line of its own in the log.
\<close>

theorem logfmt_line_count:
  assumes "is_event (level, event, fs)"
  shows "newlines (encodeLogfmt now level event fs) = 1 + sum_list (map (newlines \<circ> fval) fs)"
proof -
  have wf: "plain level" "plain event" "list_all wf_field fs"
    using is_event_wf [OF assms] by (simp_all add: wf_event_def)
  have "newlines (encodeLogfmt now level event fs) = newlines (logfmt_fields fs)"
    unfolding encodeLogfmt_fields filter_append length_append newlines_RFC3339 newlines_plain [OF wf(1)] newlines_plain [OF wf(2)]
    by simp
  then show ?thesis by (simp add: newlines_logfmt_fields [OF wf(3)])
qed

theorem logfmt_line_count_witness:
  "newlines (encodeLogfmt sample_time levelWarn ''reject'' [strField ''remote'' ''a'', strField ''what'' [CHR ''x'', CHR 0x0A, CHR ''y'']]) = 2"
  using logfmt_line_count [of levelWarn "''reject''" "[strField ''remote'' ''a'', strField ''what'' [CHR ''x'', CHR 0x0A, CHR ''y'']]" sample_time]
    is_event.intros(7) [of "''a''" "[CHR ''x'', CHR 0x0A, CHR ''y'']"]
  by (simp add: Log_Reject_def strField_def)

end
