(* ===== verification/Resolve.thy ===== *)
theory Resolve
  imports Prelude
begin

text \<open>
  \<^verbatim>\<open>internal/auth/resolve.go\<close>: how the authentication methods, the authorized-keys path, the
  password and the username are determined from the command line and the environment, together
  with the parts of \<^verbatim>\<open>strings\<close> and \<^verbatim>\<open>path/filepath\<close> it uses. The process environment is a function
  from names to values, empty for an unset variable, as \<^verbatim>\<open>os.Getenv\<close> reads it.
\<close>

section \<open>\<^verbatim>\<open>strings.TrimSpace\<close> and \<^verbatim>\<open>filepath.Join\<close>\<close>

text \<open>The UTF-8 encodings of the code points with the property White Space.\<close>

definition space_encodings :: "string list" where
  "space_encodings =
     map (map char_of)
       ([[9 :: nat], [10], [11], [12], [13], [32], [0xC2, 0x85], [0xC2, 0xA0], [0xE1, 0x9A, 0x80]]
        @ map (\<lambda>b. [0xE2, 0x80, b]) [0x80, 0x81, 0x82, 0x83, 0x84, 0x85, 0x86, 0x87, 0x88, 0x89, 0x8A, 0xA8, 0xA9, 0xAF]
        @ [[0xE2, 0x81, 0x9F], [0xE3, 0x80, 0x80]])"

text \<open>
  \<open>strip encs s\<close> removes the elements of \<open>encs\<close> from the front of \<open>s\<close> as long as one matches.
\<close>

function strip :: "string list \<Rightarrow> string \<Rightarrow> string" where
  "strip encs s =
     (case find (\<lambda>e. e \<noteq> [] \<and> prefix e s) encs of
        None \<Rightarrow> s
      | Some e \<Rightarrow> strip encs (drop (length e) s))"
  by pat_completeness auto
termination
proof (relation "measure (\<lambda>(_, s). length s)"; clarsimp)
  fix encs s e assume "find (\<lambda>e. e \<noteq> [] \<and> prefix e s) encs = Some e"
  then have "e \<noteq> []" "prefix e s" by (auto simp: find_Some_iff)
  then show "length s - length e < length s"
    by (cases s) auto
qed

declare strip.simps [simp del]

definition TrimSpace :: "string \<Rightarrow> string" where
  "TrimSpace s = rev (strip (map rev space_encodings) (rev (strip space_encodings s)))"

text \<open>\<^verbatim>\<open>filepath.Clean\<close> and \<^verbatim>\<open>filepath.Join\<close> on a Unix system.\<close>

fun clean_push :: "bool \<Rightarrow> string list \<Rightarrow> string \<Rightarrow> string list" where
  "clean_push rooted out c =
     (if c = '''' \<or> c = ''.'' then out
      else if c = ''..'' then
        (if out \<noteq> [] \<and> last out \<noteq> ''..'' then butlast out
         else if rooted then out else out @ [''..''])
      else out @ [c])"

definition filepath_Clean :: "string \<Rightarrow> string" where
  "filepath_Clean p =
     (let rooted = (p \<noteq> [] \<and> hd p = CHR ''/'');
          out = foldl (clean_push rooted) [] (strings_Split p (CHR ''/''));
          r = (if rooted then ''/'' else '''') @ strings_Join out ''/''
      in if r = '''' then ''.'' else r)"

definition filepath_Join :: "string list \<Rightarrow> string" where
  "filepath_Join elems =
     (case dropWhile (\<lambda>e. e = '''') elems of
        [] \<Rightarrow> ''''
      | es \<Rightarrow> filepath_Clean (strings_Join es ''/''))"

section \<open>Methods\<close>

datatype auth_error =
    ErrEmptyPassword
  | ErrEmptyAuthMethods
  | ErrUnknownAuthMethod string
  | ErrDuplicateAuthMethod string
  | ErrEmptyUsername
  | ErrNoHome string

definition MethodPassword :: string where "MethodPassword = ''password''"
definition MethodPublickey :: string where "MethodPublickey = ''publickey''"

type_synonym Methods = "string list"

fun Contains :: "Methods \<Rightarrow> string \<Rightarrow> bool" where
  "Contains [] method = False"
| "Contains (v # m) method = (if v = method then True else Contains m method)"

definition Methods_String :: "Methods \<Rightarrow> string" where
  "Methods_String m = strings_Join m '',''"

definition Names :: "Methods \<Rightarrow> string list" where
  "Names m = m"

text \<open>The loop over the tokens, with the map \<^verbatim>\<open>seen\<close> and the methods accepted so far.\<close>

fun resolve_tokens :: "string list \<Rightarrow> (string \<Rightarrow> bool) \<Rightarrow> Methods \<Rightarrow> auth_error + Methods" where
  "resolve_tokens [] seen methods = Inr methods"
| "resolve_tokens (tok0 # toks) seen methods =
     (let tok = TrimSpace tok0 in
      if tok = '''' then Inl ErrEmptyAuthMethods
      else if tok \<noteq> MethodPassword \<and> tok \<noteq> MethodPublickey then Inl (ErrUnknownAuthMethod tok)
      else if seen tok then Inl (ErrDuplicateAuthMethod tok)
      else resolve_tokens toks (seen(tok := True)) (methods @ [tok]))"

definition ResolveMethods :: "string \<Rightarrow> bool \<Rightarrow> string \<Rightarrow> bool \<Rightarrow> auth_error + Methods" where
  "ResolveMethods flagVal flagSet envVal envSet =
     (if \<not> flagSet \<and> \<not> envSet then Inr [MethodPassword]
      else
        (let raw = TrimSpace (if flagSet then flagVal else envVal) in
         if raw = '''' then Inl ErrEmptyAuthMethods
         else resolve_tokens (strings_Split raw (CHR '','')) (\<lambda>_. False) []))"

section \<open>Paths, password, username\<close>

text \<open>\<^verbatim>\<open>os.UserHomeDir\<close> on Unix.\<close>

definition UserHomeDir :: "(string \<Rightarrow> string) \<Rightarrow> string + string" where
  "UserHomeDir getenv =
     (if getenv ''HOME'' \<noteq> '''' then Inr (getenv ''HOME'') else Inl ''$HOME is not defined'')"

definition ResolveAuthorizedKeysPath ::
  "(string \<Rightarrow> string) \<Rightarrow> string \<Rightarrow> bool \<Rightarrow> string \<Rightarrow> bool \<Rightarrow> auth_error + string" where
  "ResolveAuthorizedKeysPath getenv flagVal flagSet envVal envSet =
     (if flagSet \<and> flagVal \<noteq> '''' then Inr flagVal
      else if envSet \<and> envVal \<noteq> '''' then Inr envVal
      else
        (let xdg = getenv ''XDG_CONFIG_HOME'' in
         if xdg \<noteq> '''' then Inr (filepath_Join [xdg, ''minisshd'', ''authorized_keys''])
         else (case UserHomeDir getenv of
             Inl err \<Rightarrow> Inl (ErrNoHome (''cannot resolve home directory: '' @ err))
           | Inr home \<Rightarrow> Inr (filepath_Join [home, ''.config'', ''minisshd'', ''authorized_keys'']))))"

definition ResolvePassword :: "string \<Rightarrow> string \<Rightarrow> auth_error + string" where
  "ResolvePassword flagPass envPass =
     (if flagPass \<noteq> '''' then Inr flagPass
      else if envPass \<noteq> '''' then Inr envPass
      else Inr '''')"

definition ResolvePasswordStrict :: "string \<Rightarrow> bool \<Rightarrow> string \<Rightarrow> bool \<Rightarrow> auth_error + string" where
  "ResolvePasswordStrict flagPass flagSet envPass envSet =
     (if flagSet then (if flagPass = '''' then Inl ErrEmptyPassword else Inr flagPass)
      else if envSet then (if envPass = '''' then Inl ErrEmptyPassword else Inr envPass)
      else Inr '''')"

definition ResolveUsername :: "string \<Rightarrow> string \<Rightarrow> string \<Rightarrow> auth_error + string" where
  "ResolveUsername flagUser envUser osUser =
     (if flagUser \<noteq> '''' then Inr flagUser
      else if envUser \<noteq> '''' then Inr envUser
      else if osUser \<noteq> '''' then Inr osUser
      else Inl ErrEmptyUsername)"

section \<open>Lemmas on trimming\<close>

lemma strip_none: "find (\<lambda>e. e \<noteq> [] \<and> prefix e s) encs = None \<Longrightarrow> strip encs s = s"
  by (subst strip.simps) simp

lemma strip_some: "find (\<lambda>e. e \<noteq> [] \<and> prefix e s) encs = Some e \<Longrightarrow> strip encs s = strip encs (drop (length e) s)"
  by (subst strip.simps) simp

lemma strip_suffix: "suffix (strip encs s) s"
proof (induction encs s rule: strip.induct)
  case (1 encs s)
  show ?case
  proof (cases "find (\<lambda>e. e \<noteq> [] \<and> prefix e s) encs")
    case None
    then show ?thesis by (simp add: strip_none)
  next
    case (Some e)
    with 1 show ?thesis
      using suffix_drop suffix_order.trans by (fastforce simp: strip_some)
  qed
qed

lemma strip_stripped: "e \<in> set encs \<Longrightarrow> e \<noteq> [] \<Longrightarrow> \<not> prefix e (strip encs s)"
proof (induction encs s rule: strip.induct)
  case (1 encs s)
  show ?case
  proof (cases "find (\<lambda>e. e \<noteq> [] \<and> prefix e s) encs")
    case None
    with "1.prems" show ?thesis by (auto simp: strip_none find_None_iff)
  next
    case (Some e')
    with 1 show ?thesis by (simp add: strip_some)
  qed
qed

text \<open>A string whose first and last characters start or end no white space is left alone.\<close>

lemma strip_head: "s = [] \<or> (\<forall>e \<in> set encs. e \<noteq> [] \<longrightarrow> hd e \<noteq> hd s) \<Longrightarrow> strip encs s = s"
  by (rule strip_none) (auto simp: find_None_iff prefix_def)

definition edge_chars :: "nat set" where
  "edge_chars = {9, 10, 11, 12, 13, 32} \<union> {128..255}"

lemma space_encodings_edges:
  "e \<in> set space_encodings \<Longrightarrow> e \<noteq> [] \<and> of_char (hd e) \<in> edge_chars \<and> of_char (last e) \<in> edge_chars"
  by (auto simp: space_encodings_def edge_chars_def of_char_of)

lemma TrimSpace_id:
  assumes "s \<noteq> []" and "of_char (hd s) \<notin> edge_chars" and "of_char (last s) \<notin> edge_chars"
  shows "TrimSpace s = s"
proof -
  have "hd (rev e) \<noteq> hd (rev s)" if "e \<in> set space_encodings" for e
    using that assms space_encodings_edges by (metis hd_rev)
  then have "strip (map rev space_encodings) (rev s) = rev s"
    by (intro strip_head) auto
  moreover have "strip space_encodings s = s"
    using assms space_encodings_edges by (intro strip_head) metis
  ultimately show ?thesis by (simp add: TrimSpace_def)
qed

lemma set_strip: "set (strip encs s) \<subseteq> set s"
  using strip_suffix by (rule set_mono_suffix)

lemma set_TrimSpace: "set (TrimSpace s) \<subseteq> set s"
  using set_strip [of "map rev space_encodings" "rev (strip space_encodings s)"]
    set_strip [of space_encodings s]
  by (simp add: TrimSpace_def subset_trans)

section \<open>Lemmas on the methods\<close>

lemma Contains_iff [simp]: "Contains m method \<longleftrightarrow> method \<in> set m"
  by (induction m) auto

abbreviation known_methods :: "string set" where
  "known_methods \<equiv> {MethodPassword, MethodPublickey}"

lemma resolve_tokens_ok_iff:
  "resolve_tokens toks seen acc = Inr ms \<longleftrightarrow>
     ms = acc @ map TrimSpace toks \<and> set (map TrimSpace toks) \<subseteq> known_methods
     \<and> distinct (map TrimSpace toks) \<and> (\<forall>t \<in> set (map TrimSpace toks). \<not> seen t)"
proof (induction toks seen acc rule: resolve_tokens.induct)
  case (1 seen methods)
  show ?case by auto
next
  case (2 tok0 toks seen methods)
  define tok where "tok = TrimSpace tok0"
  show ?case
  proof (cases "tok \<in> known_methods \<and> \<not> seen tok")
    case True
    then have "tok \<noteq> ''''" by (auto simp: MethodPassword_def MethodPublickey_def)
    with True have step: "resolve_tokens (tok0 # toks) seen methods = resolve_tokens toks (seen(tok := True)) (methods @ [tok])"
      by (auto simp: tok_def Let_def)
    have seen: "(\<forall>t \<in> S. \<not> (seen(tok := True)) t) \<longleftrightarrow> (\<forall>t \<in> S. \<not> seen t) \<and> tok \<notin> S" for S
      by auto
    have IH: "resolve_tokens toks (seen(tok := True)) (methods @ [tok]) = Inr ms \<longleftrightarrow>
      ms = (methods @ [tok]) @ map TrimSpace toks \<and> set (map TrimSpace toks) \<subseteq> known_methods
      \<and> distinct (map TrimSpace toks) \<and> (\<forall>t \<in> set (map TrimSpace toks). \<not> (seen(tok := True)) t)"
      using 2 True \<open>tok \<noteq> ''''\<close> by (auto simp only: tok_def)
    show ?thesis
      unfolding step IH seen using True by (auto simp: tok_def)
  next
    case False
    then show ?thesis by (auto simp: tok_def Let_def)
  qed
qed

text \<open>The errors, by the first token that is not acceptable.\<close>

lemma resolve_tokens_error:
  assumes "resolve_tokens toks seen acc = Inl e"
  shows "e \<in> {ErrEmptyAuthMethods} \<union> range ErrUnknownAuthMethod \<union> ErrDuplicateAuthMethod ` known_methods"
  using assms
  by (induction toks seen acc rule: resolve_tokens.induct) (auto simp: Let_def split: if_splits)

lemma known_methods_trim: "m \<in> known_methods \<Longrightarrow> TrimSpace m = m"
  by (rule TrimSpace_id) (auto simp: MethodPassword_def MethodPublickey_def edge_chars_def)

lemma known_methods_comma: "m \<in> known_methods \<Longrightarrow> CHR '','' \<notin> set m \<and> m \<noteq> []"
  by (auto simp: MethodPassword_def MethodPublickey_def)

lemma Join_edges:
  assumes "ms \<noteq> []" and "\<forall>m \<in> set ms. m \<noteq> []"
  shows "strings_Join ms sep \<noteq> [] \<and> hd (strings_Join ms sep) = hd (hd ms) \<and> last (strings_Join ms sep) = last (last ms)"
  using assms
proof (induction ms)
  case (Cons m ms)
  then show ?case by (cases "ms = []") auto
qed simp

lemma trim_Methods_String:
  assumes "ms \<noteq> []" and "set ms \<subseteq> known_methods"
  shows "TrimSpace (Methods_String ms) = Methods_String ms \<and> Methods_String ms \<noteq> []"
proof -
  have ne: "\<forall>m \<in> set ms. m \<noteq> []"
    using assms known_methods_comma by blast
  have edge: "of_char (hd m) \<notin> edge_chars \<and> of_char (last m) \<notin> edge_chars" if "m \<in> known_methods" for m
    using that by (auto simp: MethodPassword_def MethodPublickey_def edge_chars_def)
  have "hd ms \<in> known_methods" "last ms \<in> known_methods"
    using assms hd_in_set last_in_set by blast+
  with edge Join_edges [OF assms(1) ne, of "'',''"] show ?thesis
    by (simp add: Methods_String_def TrimSpace_id)
qed

section \<open>Properties\<close>

text \<open>
  \<^verbatim>\<open>ResolveMethods\<close> succeeds exactly when the setting that takes precedence (the flag, else the environment, else
  the default) is a comma-separated list of known methods without repetitions; the result is the
  trimmed tokens in the order given, so it is never empty and never has an unknown or repeated method.
\<close>

theorem ResolveMethods_exact:
  "(ResolveMethods flagVal flagSet envVal envSet = Inr ms) \<longleftrightarrow>
     (if flagSet \<or> envSet then
        (let raw = TrimSpace (if flagSet then flagVal else envVal) in
         raw \<noteq> [] \<and> ms = map TrimSpace (strings_Split raw (CHR '','')) \<and> ms \<noteq> []
         \<and> set ms \<subseteq> {MethodPassword, MethodPublickey} \<and> distinct ms)
      else ms = [MethodPassword])"
proof -
  have tokens: "resolve_tokens (strings_Split raw (CHR '','')) (\<lambda>_. False) [] = Inr ms \<longleftrightarrow>
    ms = map TrimSpace (strings_Split raw (CHR '','')) \<and> ms \<noteq> [] \<and> set ms \<subseteq> known_methods \<and> distinct ms" for raw
    unfolding resolve_tokens_ok_iff by (metis append_Nil list.map_disc_iff strings_Split_nonempty)
  show ?thesis
    unfolding ResolveMethods_def Let_def using tokens by (cases flagSet; cases envSet) auto
qed

text \<open>
  Printing a list of methods with \<^verbatim>\<open>Methods.String\<close> and resolving the text again gives the same list in the
  same order.
\<close>

theorem ResolveMethods_roundtrip:
  assumes "ms \<noteq> []" and "set ms \<subseteq> {MethodPassword, MethodPublickey}" and "distinct ms"
  shows "ResolveMethods (Methods_String ms) True envVal envSet = Inr ms"
proof -
  have split: "strings_Split (Methods_String ms) (CHR '','') = ms"
    using assms known_methods_comma by (auto simp: Methods_String_def intro!: Split_Join)
  have "map TrimSpace ms = ms"
    using assms known_methods_trim by (intro map_idI) auto
  then show ?thesis
    using assms trim_Methods_String [OF assms(1,2)]
    by (simp add: ResolveMethods_def Let_def resolve_tokens_ok_iff split)
qed

theorem ResolveMethods_roundtrip_witness:
  "ResolveMethods ''publickey,password'' True '''' False = Inr [''publickey'', ''password'']"
  using ResolveMethods_roundtrip [of "[''publickey'', ''password'']" "''''" False]
  by (simp add: MethodPassword_def MethodPublickey_def Methods_String_def)

text \<open>
  Whenever a password is supplied, by flag or by environment, the strict resolution either
  returns that non-empty password or refuses; it never falls back to a lower source and returns the empty
  string, the request to generate one, only when neither was supplied. The username is never resolved to the empty string.
\<close>

theorem Resolve_precedence:
  "(case ResolvePasswordStrict flagPass flagSet envPass envSet of
      Inl e \<Rightarrow> e = ErrEmptyPassword \<and> (flagSet \<and> flagPass = '''' \<or> \<not> flagSet \<and> envSet \<and> envPass = '''')
    | Inr pw \<Rightarrow> (if flagSet then pw = flagPass \<and> pw \<noteq> '''' else if envSet then pw = envPass \<and> pw \<noteq> '''' else pw = ''''))
   \<and> (case ResolveUsername flagUser envUser osUser of
      Inl e \<Rightarrow> e = ErrEmptyUsername \<and> flagUser = '''' \<and> envUser = '''' \<and> osUser = ''''
    | Inr u \<Rightarrow> find (\<lambda>s. s \<noteq> '''') [flagUser, envUser, osUser] = Some u)"
  by (simp add: ResolvePasswordStrict_def ResolveUsername_def)

end
