(* ===== verification/Hostkey.thy ===== *)
theory Hostkey
  imports Resolve
begin

text \<open>
  \<^verbatim>\<open>internal/hostkey/hostkey.go\<close>: loading, generating and publishing the host key, over a model of the file
  system. A file system maps paths to nodes; an operating-system call can also fail for reasons
  outside the program, which the record \<open>os_faults\<close> supplies per path. A failing \<^verbatim>\<open>os.WriteFile\<close> either does not open the file or leaves
  a prefix of the data in it.

  The key operations of \<^verbatim>\<open>crypto/ed25519\<close> and \<^verbatim>\<open>golang.org/x/crypto/ssh\<close> are the parameter \<open>key_lib\<close>; what the
  program relies on, that a marshalled key parses to its own signer, is a hypothesis of the theorem that needs it.
\<close>

section \<open>File system\<close>

type_synonym perm = "32 word"

datatype node = Dir perm | File bytes perm | Special perm

type_synonym fs = "string \<Rightarrow> node option"

fun node_perm :: "node \<Rightarrow> perm" where
  "node_perm (Dir p) = p"
| "node_perm (File _ p) = p"
| "node_perm (Special p) = p"

datatype write_fault = OpenFault string | WriteFault string nat

record os_faults =
  stat_fault :: "string \<Rightarrow> string option"
  read_fault :: "string \<Rightarrow> string option"
  write_faults :: "string \<Rightarrow> write_fault option"
  chmod_fault :: "string \<Rightarrow> string option"
  mkdir_fault :: "string \<Rightarrow> string option"
  umask :: perm

definition no_faults :: os_faults where
  "no_faults = \<lparr> stat_fault = (\<lambda>_. None), read_fault = (\<lambda>_. None), write_faults = (\<lambda>_. None),
     chmod_fault = (\<lambda>_. None), mkdir_fault = (\<lambda>_. None), umask = 0x12 \<rparr>"

datatype stat_result = StatOk node | StatNotExist | StatErr string

definition os_Stat :: "os_faults \<Rightarrow> fs \<Rightarrow> string \<Rightarrow> stat_result" where
  "os_Stat os fs p =
     (case stat_fault os p of
        Some e \<Rightarrow> StatErr e
      | None \<Rightarrow> (case fs p of Some n \<Rightarrow> StatOk n | None \<Rightarrow> StatNotExist))"

definition os_ReadFile :: "os_faults \<Rightarrow> fs \<Rightarrow> string \<Rightarrow> string + bytes" where
  "os_ReadFile os fs p =
     (case read_fault os p of
        Some e \<Rightarrow> Inl e
      | None \<Rightarrow> (case fs p of
            Some (File d _) \<Rightarrow> Inr d
          | Some (Dir _) \<Rightarrow> Inl ''is a directory''
          | Some (Special _) \<Rightarrow> Inl ''not a regular file''
          | None \<Rightarrow> Inl ''no such file or directory''))"

text \<open>\<^verbatim>\<open>os.WriteFile\<close>: a new file gets the mode less the umask, an existing one keeps its mode.\<close>

definition os_WriteFile :: "os_faults \<Rightarrow> fs \<Rightarrow> string \<Rightarrow> bytes \<Rightarrow> perm \<Rightarrow> string option \<times> fs" where
  "os_WriteFile os fs p d m =
     (let put = (\<lambda>c. fs(p \<mapsto> File c (case fs p of Some (File _ m') \<Rightarrow> m' | _ \<Rightarrow> m AND NOT (umask os))))
      in case fs p of
        Some (Dir _) \<Rightarrow> (Some ''is a directory'', fs)
      | Some (Special _) \<Rightarrow> (None, fs)
      | _ \<Rightarrow>
          (case write_faults os p of
             None \<Rightarrow> (None, put d)
           | Some (OpenFault e) \<Rightarrow> (Some e, fs)
           | Some (WriteFault e k) \<Rightarrow> (Some e, put (take k d))))"

fun set_perm :: "perm \<Rightarrow> node \<Rightarrow> node" where
  "set_perm m (Dir _) = Dir m"
| "set_perm m (File d _) = File d m"
| "set_perm m (Special _) = Special m"

definition os_Chmod :: "os_faults \<Rightarrow> fs \<Rightarrow> string \<Rightarrow> perm \<Rightarrow> string option \<times> fs" where
  "os_Chmod os fs p m =
     (case chmod_fault os p of
        Some e \<Rightarrow> (Some e, fs)
      | None \<Rightarrow> (case fs p of
            None \<Rightarrow> (Some ''no such file or directory'', fs)
          | Some n \<Rightarrow> (None, fs(p \<mapsto> set_perm m n))))"

text \<open>\<^verbatim>\<open>filepath.Dir\<close>\<close>

definition filepath_Dir :: "string \<Rightarrow> string" where
  "filepath_Dir p = filepath_Clean (rev (dropWhile (\<lambda>c. c \<noteq> CHR ''/'') (rev p)))"

section \<open>The host key\<close>

datatype hostkey_error =
    ErrParentMissing
  | ErrKeyPermissionsTooOpen
  | ErrKeyCorrupt
  | ErrOther string

record ('p, 's) key_lib =
  kl_generate :: "string + 'p"
  kl_marshal :: "'p \<Rightarrow> string + bytes"
  kl_signer :: "'p \<Rightarrow> string + 's"
  kl_parse :: "bytes \<Rightarrow> string + 's"
  kl_pub :: "'s \<Rightarrow> bytes"
  kl_fingerprint :: "'s \<Rightarrow> string"

definition writePub :: "('p, 's) key_lib \<Rightarrow> os_faults \<Rightarrow> fs \<Rightarrow> string \<Rightarrow> 's \<Rightarrow> hostkey_error option \<times> fs" where
  "writePub kl os fs p signer =
     (let pubPath = p @ ''.pub''; pubBytes = kl_pub kl signer
      in case os_WriteFile os fs pubPath pubBytes 0x1A4 of
           (Some e, fs) \<Rightarrow> (Some (ErrOther (''write public key: '' @ e)), fs)
         | (None, fs) \<Rightarrow>
             (case os_Chmod os fs pubPath 0x1A4 of
                (Some e, fs) \<Rightarrow> (Some (ErrOther (''chmod public key: '' @ e)), fs)
              | (None, fs) \<Rightarrow> (None, fs)))"

type_synonym 's key_result = "hostkey_error + ('s \<times> string)"

definition loadExisting :: "('p, 's) key_lib \<Rightarrow> os_faults \<Rightarrow> fs \<Rightarrow> string \<Rightarrow> 's key_result \<times> fs" where
  "loadExisting kl os fs p =
     (case os_ReadFile os fs p of
        Inl e \<Rightarrow> (Inl (ErrOther (''read host key: '' @ e)), fs)
      | Inr d \<Rightarrow>
          (case kl_parse kl d of
             Inl e \<Rightarrow> (Inl ErrKeyCorrupt, fs)
           | Inr signer \<Rightarrow>
               (case writePub kl os fs p signer of
                  (Some e, fs) \<Rightarrow> (Inl e, fs)
                | (None, fs) \<Rightarrow> (Inr (signer, kl_fingerprint kl signer), fs))))"

definition generateAndWrite :: "('p, 's) key_lib \<Rightarrow> os_faults \<Rightarrow> fs \<Rightarrow> string \<Rightarrow> 's key_result \<times> fs" where
  "generateAndWrite kl os fs p =
     (case kl_generate kl of
        Inl e \<Rightarrow> (Inl (ErrOther (''generate ed25519 key: '' @ e)), fs)
      | Inr priv \<Rightarrow>
          (case kl_marshal kl priv of
             Inl e \<Rightarrow> (Inl (ErrOther (''marshal private key: '' @ e)), fs)
           | Inr d \<Rightarrow>
               (case os_WriteFile os fs p d 0x180 of
                  (Some e, fs) \<Rightarrow> (Inl (ErrOther (''write host key: '' @ e)), fs)
                | (None, fs) \<Rightarrow>
                    (case os_Chmod os fs p 0x180 of
                       (Some e, fs) \<Rightarrow> (Inl (ErrOther (''chmod host key: '' @ e)), fs)
                     | (None, fs) \<Rightarrow>
                         (case kl_signer kl priv of
                            Inl e \<Rightarrow> (Inl (ErrOther (''derive signer: '' @ e)), fs)
                          | Inr signer \<Rightarrow>
                              (case writePub kl os fs p signer of
                                 (Some e, fs) \<Rightarrow> (Inl e, fs)
                               | (None, fs) \<Rightarrow> (Inr (signer, kl_fingerprint kl signer), fs)))))))"

definition LoadOrGenerate :: "('p, 's) key_lib \<Rightarrow> os_faults \<Rightarrow> fs \<Rightarrow> string \<Rightarrow> 's key_result \<times> fs" where
  "LoadOrGenerate kl os fs p =
     (case os_Stat os fs (filepath_Dir p) of
        StatNotExist \<Rightarrow> (Inl ErrParentMissing, fs)
      | StatErr e \<Rightarrow> (Inl (ErrOther (''stat host key parent: '' @ e)), fs)
      | StatOk (File _ _) \<Rightarrow> (Inl ErrParentMissing, fs)
      | StatOk (Special _) \<Rightarrow> (Inl ErrParentMissing, fs)
      | StatOk (Dir _) \<Rightarrow>
          (case os_Stat os fs p of
             StatOk info \<Rightarrow>
               if node_perm info AND NOT 0x180 \<noteq> 0 then (Inl ErrKeyPermissionsTooOpen, fs)
               else loadExisting kl os fs p
           | StatNotExist \<Rightarrow> generateAndWrite kl os fs p
           | StatErr e \<Rightarrow> (Inl (ErrOther (''stat host key: '' @ e)), fs)))"

section \<open>Lemmas\<close>

lemma pub_ne [simp]: "p @ ''.pub'' \<noteq> p" "p \<noteq> p @ ''.pub''"
  by simp_all

lemma WriteFile_frame [simp]: "q \<noteq> p \<Longrightarrow> snd (os_WriteFile os fs p d m) q = fs q"
  by (simp add: os_WriteFile_def Let_def split: option.splits node.splits write_fault.splits)

lemma Chmod_frame [simp]: "q \<noteq> p \<Longrightarrow> snd (os_Chmod os fs p m) q = fs q"
  by (simp add: os_Chmod_def split: option.splits)

lemma writePub_frame [simp]: "q \<noteq> p @ ''.pub'' \<Longrightarrow> snd (writePub kl os fs p s) q = fs q"
  by (simp add: writePub_def Let_def case_prod_beta split: option.split)

lemma loadExisting_frame [simp]: "q \<noteq> p @ ''.pub'' \<Longrightarrow> snd (loadExisting kl os fs p) q = fs q"
  by (simp add: loadExisting_def case_prod_beta split: option.split sum.split)

lemma generateAndWrite_frame [simp]:
  "q \<noteq> p \<Longrightarrow> q \<noteq> p @ ''.pub'' \<Longrightarrow> snd (generateAndWrite kl os fs p) q = fs q"
  by (simp add: generateAndWrite_def case_prod_beta split: option.split sum.split)

text \<open>A successful write of the public key leaves exactly that file behind.\<close>

lemma writePub_ok:
  assumes "writePub kl os fs p s = (None, fs')"
  shows "(\<exists>m. fs (p @ ''.pub'') = Some (Special m)) \<or> fs' = fs(p @ ''.pub'' \<mapsto> File (kl_pub kl s) 0x1A4)"
  using assms
  by (auto simp: writePub_def os_WriteFile_def os_Chmod_def Let_def
      split: option.splits prod.splits node.splits write_fault.splits)

lemma loadExisting_ok:
  assumes "loadExisting kl os fs p = (Inr (signer, fp), fs')"
  shows "\<exists>d m. fs p = Some (File d m) \<and> kl_parse kl d = Inr signer \<and> fp = kl_fingerprint kl signer
    \<and> writePub kl os fs p signer = (None, fs')"
  using assms
  by (auto simp: loadExisting_def os_ReadFile_def split: sum.splits prod.splits option.splits node.splits)

lemma generateAndWrite_ok:
  assumes "generateAndWrite kl os fs p = (Inr (signer, fp), fs')" and "fs p = None"
  shows "\<exists>priv d. kl_generate kl = Inr priv \<and> kl_marshal kl priv = Inr d \<and> kl_signer kl priv = Inr signer
    \<and> fp = kl_fingerprint kl signer \<and> writePub kl os (fs(p \<mapsto> File d 0x180)) p signer = (None, fs')"
  using assms
  by (auto simp: generateAndWrite_def os_WriteFile_def os_Chmod_def Let_def
      split: sum.splits prod.splits option.splits write_fault.splits)

lemma writePub_no_faults:
  assumes "\<nexists>m. fs (p @ ''.pub'') = Some (Dir m)"
  shows "\<exists>fs'. writePub kl no_faults fs p s = (None, fs')"
  using assms
  by (auto simp: writePub_def os_WriteFile_def os_Chmod_def no_faults_def Let_def split: option.splits node.splits)

lemma LoadOrGenerate_dir:
  assumes "LoadOrGenerate kl os fs p = (Inr (signer, fp), fs')"
  obtains (new) "fs p = None" "generateAndWrite kl os fs p = (Inr (signer, fp), fs')"
    | (old) n where "fs p = Some n" "node_perm n AND NOT 0x180 = 0" "loadExisting kl os fs p = (Inr (signer, fp), fs')"
  using assms
  by (auto simp: LoadOrGenerate_def os_Stat_def split: stat_result.splits option.splits node.splits if_splits)

text \<open>After a success the private key is a file of at most mode 0600 that parses to the signer returned.\<close>

lemma LoadOrGenerate_ok:
  assumes "LoadOrGenerate kl os fs p = (Inr (signer, fp), fs')"
    and lib: "\<And>priv d. kl_marshal kl priv = Inr d \<Longrightarrow> kl_parse kl d = kl_signer kl priv"
  shows "\<exists>d m. fs' p = Some (File d m) \<and> m AND NOT 0x180 = 0 \<and> kl_parse kl d = Inr signer"
    and "fp = kl_fingerprint kl signer"
    and "(\<exists>m. fs (p @ ''.pub'') = Some (Special m)) \<or> fs' (p @ ''.pub'') = Some (File (kl_pub kl signer) 0x1A4)"
proof -
  from assms(1) have "(\<exists>d m. fs' p = Some (File d m) \<and> m AND NOT 0x180 = 0 \<and> kl_parse kl d = Inr signer)
    \<and> fp = kl_fingerprint kl signer
    \<and> ((\<exists>m. fs (p @ ''.pub'') = Some (Special m)) \<or> fs' (p @ ''.pub'') = Some (File (kl_pub kl signer) 0x1A4))"
  proof (cases rule: LoadOrGenerate_dir)
    case new
    from generateAndWrite_ok [OF new(2,1)] obtain priv d where
      k: "kl_marshal kl priv = Inr d" "kl_signer kl priv = Inr signer" "fp = kl_fingerprint kl signer"
      and w: "writePub kl os (fs(p \<mapsto> File d 0x180)) p signer = (None, fs')" by blast
    have "fs' p = Some (File d 0x180)"
      using writePub_frame [of p p kl os "fs(p \<mapsto> File d 0x180)" signer] w by simp
    moreover have "kl_parse kl d = Inr signer" using lib k by simp
    ultimately show ?thesis using k writePub_ok [OF w] by auto
  next
    case old
    from loadExisting_ok [OF old(3)] obtain d m where
      k: "fs p = Some (File d m)" "kl_parse kl d = Inr signer" "fp = kl_fingerprint kl signer"
      and w: "writePub kl os fs p signer = (None, fs')" by blast
    have "fs' p = fs p" using writePub_frame [of p p kl os fs signer] w by simp
    with k old writePub_ok [OF w] show ?thesis by auto
  qed
  then show "\<exists>d m. fs' p = Some (File d m) \<and> m AND NOT 0x180 = 0 \<and> kl_parse kl d = Inr signer"
    and "fp = kl_fingerprint kl signer"
    and "(\<exists>m. fs (p @ ''.pub'') = Some (Special m)) \<or> fs' (p @ ''.pub'') = Some (File (kl_pub kl signer) 0x1A4)" by blast+
qed

section \<open>Properties\<close>

text \<open>
  C31: An existing host key is never touched: whatever the call returns and whatever fails underneath, a node that is present at
  the key path is the same afterwards, and no path other than the key and its \<^verbatim>\<open>.pub\<close> file changes; a key with too-open permissions
  or one that does not parse is refused with the whole file system unchanged.
\<close>

theorem hostkey_preserved:
  "(case LoadOrGenerate kl os fs p of (r, fs') \<Rightarrow>
     (fs p = None \<or> fs' p = fs p)
     \<and> (if r = Inl ErrKeyPermissionsTooOpen \<or> r = Inl ErrKeyCorrupt \<or> r = Inl ErrParentMissing then fs' = fs else True))
   \<and> (q = p \<or> q = p @ ''.pub'' \<or> snd (LoadOrGenerate kl os fs p) q = fs q)"
proof -
  let ?bad = "{Inl ErrKeyPermissionsTooOpen, Inl ErrKeyCorrupt, Inl ErrParentMissing}"
  have pub: "e \<notin> {ErrKeyPermissionsTooOpen, ErrKeyCorrupt, ErrParentMissing}" if "writePub kl os fs p s = (Some e, fs')" for fs fs' s e
    using that by (auto simp: writePub_def Let_def split: prod.splits option.splits)
  have load: "fs' = fs" if "loadExisting kl os fs p = (r, fs')" "r \<in> ?bad" for r fs'
    using that pub by (fastforce simp: loadExisting_def split: sum.splits prod.splits option.splits)
  have gen: "False" if "generateAndWrite kl os fs p = (r, fs')" "r \<in> ?bad" for r fs'
    using that pub by (fastforce simp: generateAndWrite_def split: sum.splits prod.splits option.splits)
  obtain r fs' where run: "LoadOrGenerate kl os fs p = (r, fs')" by fastforce
  then consider "fs' = fs" | "loadExisting kl os fs p = (r, fs')" | "fs p = None" "generateAndWrite kl os fs p = (r, fs')"
    by (auto simp: LoadOrGenerate_def os_Stat_def split: stat_result.splits option.splits node.splits if_splits)
  then have "(fs p = None \<or> fs' p = fs p) \<and> (r \<in> ?bad \<longrightarrow> fs' = fs)
    \<and> (q = p \<or> q = p @ ''.pub'' \<or> fs' q = fs q)"
  proof cases
    case 2
    with load [OF 2] loadExisting_frame [of _ p kl os fs] show ?thesis by (metis pub_ne(2) snd_conv)
  next
    case 3
    with gen [OF 3(2)] generateAndWrite_frame [of _ p kl os fs] show ?thesis by (metis snd_conv)
  qed simp
  then show ?thesis by (auto simp: run)
qed

lemma LoadOrGenerate_parent:
  assumes "LoadOrGenerate kl os fs p = (Inr r, fs')"
  shows "\<exists>m. fs (filepath_Dir p) = Some (Dir m)"
  using assms
  by (auto simp: LoadOrGenerate_def os_Stat_def split: stat_result.splits option.splits node.splits)

lemma writePub_not_dir: "writePub kl os fs p s = (None, fs') \<Longrightarrow> \<nexists>m. fs (p @ ''.pub'') = Some (Dir m)"
  by (auto simp: writePub_def os_WriteFile_def Let_def split: prod.splits option.splits)

lemma writePub_kind: "writePub kl os fs p s = (None, fs') \<Longrightarrow> \<nexists>m. fs' (p @ ''.pub'') = Some (Dir m)"
  by (auto simp: writePub_def os_WriteFile_def os_Chmod_def Let_def
      split: prod.splits option.splits node.splits write_fault.splits)

text \<open>The parent directory survives a successful call, and the public key is never a directory then.\<close>

lemma LoadOrGenerate_frame:
  assumes "LoadOrGenerate kl os fs p = (Inr (signer, fp), fs')"
  shows "\<exists>m. fs' (filepath_Dir p) = Some (Dir m)" and "\<nexists>m. fs' (p @ ''.pub'') = Some (Dir m)"
proof -
  obtain m where dir: "fs (filepath_Dir p) = Some (Dir m)" using LoadOrGenerate_parent [OF assms] by blast
  from assms have "fs' (filepath_Dir p) = Some (Dir m) \<and> (\<nexists>m. fs' (p @ ''.pub'') = Some (Dir m))"
  proof (cases rule: LoadOrGenerate_dir)
    case new
    from generateAndWrite_ok [OF new(2,1)] obtain priv d where
      w: "writePub kl os (fs(p \<mapsto> File d 0x180)) p signer = (None, fs')" by blast
    have "filepath_Dir p \<noteq> p" "filepath_Dir p \<noteq> p @ ''.pub''"
      using dir new(1) writePub_not_dir [OF w] by auto
    with generateAndWrite_frame [of "filepath_Dir p" p kl os fs] dir new(2) writePub_kind [OF w] show ?thesis by simp
  next
    case old
    from loadExisting_ok [OF old(3)] have w: "writePub kl os fs p signer = (None, fs')" by blast
    have "filepath_Dir p \<noteq> p @ ''.pub''"
      using dir writePub_not_dir [OF w] by auto
    with loadExisting_frame [of "filepath_Dir p" p kl os fs] dir old(3) writePub_kind [OF w] show ?thesis by simp
  qed
  then show "\<exists>m. fs' (filepath_Dir p) = Some (Dir m)" and "\<nexists>m. fs' (p @ ''.pub'') = Some (Dir m)" by blast+
qed

lemma writePub_generate [simp]: "writePub (kl\<lparr>kl_generate := g\<rparr>) = writePub kl"
  by (simp add: fun_eq_iff writePub_def)

text \<open>
  C23: The host identity is stable: if a marshalled key parses to its own signer, then after any successful call, generating or
  loading, a later call without faults returns the same signer and the same fingerprint, whatever the random
  source would generate then, and leaves the private key as it is. The key on disk is never readable by others, and the
  \<^verbatim>\<open>.pub\<close> file holds the public half of that signer at mode 0644 unless something that is no regular file sits there.
\<close>

theorem hostkey_stable:
  assumes "LoadOrGenerate kl os fs p = (Inr (signer, fp), fs')"
    and "\<And>priv d. kl_marshal kl priv = Inr d \<Longrightarrow> kl_parse kl d = kl_signer kl priv"
  shows "\<exists>fs''. LoadOrGenerate (kl\<lparr>kl_generate := g\<rparr>) no_faults fs' p = (Inr (signer, fp), fs'') \<and> fs'' p = fs' p
    \<and> (\<exists>d m. fs' p = Some (File d m) \<and> m AND NOT 0x180 = 0)
    \<and> ((\<exists>m. fs (p @ ''.pub'') = Some (Special m)) \<or> fs' (p @ ''.pub'') = Some (File (kl_pub kl signer) 0x1A4))"
proof -
  let ?kl = "kl\<lparr>kl_generate := g\<rparr>"
  note ok = LoadOrGenerate_ok [OF assms]
  obtain d m where f: "fs' p = Some (File d m)" "m AND NOT 0x180 = 0" "kl_parse kl d = Inr signer"
    using ok(1) by blast
  obtain pm where dir: "fs' (filepath_Dir p) = Some (Dir pm)"
    using LoadOrGenerate_frame [OF assms(1)] by blast
  obtain fs'' where w: "writePub ?kl no_faults fs' p signer = (None, fs'')"
    using writePub_no_faults [of fs' p ?kl signer] LoadOrGenerate_frame(2) [OF assms(1)] by blast
  have "loadExisting ?kl no_faults fs' p = (Inr (signer, fp), fs'')"
    using f w ok(2) by (simp add: loadExisting_def os_ReadFile_def no_faults_def)
  then have "LoadOrGenerate ?kl no_faults fs' p = (Inr (signer, fp), fs'')"
    using f dir by (simp add: LoadOrGenerate_def os_Stat_def no_faults_def)
  moreover have "fs'' p = fs' p"
    using writePub_frame [of p p kl no_faults fs' signer] w by (metis pub_ne(2) snd_conv writePub_generate)
  ultimately show ?thesis using f ok(3) by blast
qed

definition sample_lib :: "(nat, nat) key_lib" where
  "sample_lib = \<lparr> kl_generate = Inr 7, kl_marshal = (\<lambda>n. Inr [word_of_nat n]), kl_signer = (\<lambda>n. Inr (n mod 256)),
     kl_parse = (\<lambda>d. if length d = 1 then Inr (unat (hd d)) else Inl ''bad''), kl_pub = (\<lambda>s. [0x70, word_of_nat s]), kl_fingerprint = show_nat \<rparr>"

theorem hostkey_stable_witness:
  "\<exists>fs'. LoadOrGenerate sample_lib no_faults [''/d'' \<mapsto> Dir 0x1C0] ''/d/k'' = (Inr (7, show_nat 7), fs')
    \<and> (\<exists>fs''. LoadOrGenerate (sample_lib\<lparr>kl_generate := Inr 9\<rparr>) no_faults fs' ''/d/k'' = (Inr (7, show_nat 7), fs''))"
proof -
  have dir: "filepath_Dir ''/d/k'' = ''/d''" by code_simp
  have "\<exists>fs'. LoadOrGenerate sample_lib no_faults [''/d'' \<mapsto> Dir 0x1C0] ''/d/k'' = (Inr (7, show_nat 7), fs')"
    by (simp add: LoadOrGenerate_def dir os_Stat_def no_faults_def generateAndWrite_def sample_lib_def os_WriteFile_def
        os_Chmod_def writePub_def Let_def)
  then obtain fs' where one: "LoadOrGenerate sample_lib no_faults [''/d'' \<mapsto> Dir 0x1C0] ''/d/k'' = (Inr (7, show_nat 7), fs')" by blast
  have "kl_parse sample_lib d = kl_signer sample_lib priv" if "kl_marshal sample_lib priv = Inr d" for priv d
    using that by (auto simp: sample_lib_def unat_of_nat)
  from hostkey_stable [OF one this, of "Inr 9"] one show ?thesis by blast
qed

end
