(* ===== verification/Wire.thy ===== *)
theory Wire
  imports Prelude
begin

text \<open>
  The wire helpers of \<^verbatim>\<open>internal/session/helpers.go\<close>: reading and writing RFC 4254
  length-prefixed strings and big-endian integers, the parsers of the session requests,
  the payloads of \<^verbatim>\<open>exit-status\<close> and \<^verbatim>\<open>exit-signal\<close>, the environment filter and the
  signal names. Slices that Go would refuse are panics, and \<^verbatim>\<open>uint32\<close> arithmetic wraps.
\<close>

section \<open>Big-endian integers (\<^verbatim>\<open>encoding/binary\<close>)\<close>

definition Uint32 :: "bytes \<Rightarrow> uint32" where
  "Uint32 b =
     ucast (b ! 3) OR push_bit 8 (ucast (b ! 2)) OR push_bit 16 (ucast (b ! 1)) OR
     push_bit 24 (ucast (b ! 0))"

definition PutUint32 :: "uint32 \<Rightarrow> bytes" where
  "PutUint32 v = [ucast (drop_bit 24 v), ucast (drop_bit 16 v), ucast (drop_bit 8 v), ucast v]"

section \<open>Readers\<close>

text \<open>
  A reader returns the value, the rest of the input and \<^verbatim>\<open>ok\<close>. In \<open>readSSHString\<close> the
  comparison and the end of the slice are \<^verbatim>\<open>uint32\<close> expressions, so both wrap for inputs
  of 4 GiB and more, and the slice \<^verbatim>\<open>b[4 : 4+n]\<close> panics when its end is below its start.
\<close>

definition readSSHString :: "bytes \<Rightarrow> (string \<times> bytes \<times> bool) res" where
  "readSSHString b =
     (if length b < 4 then Inr ([], b, False)
      else let n = Uint32 (take 4 b) in
        if word_of_nat (length b - 4) < n then Inr ([], b, False)
        else let hi = unat (4 + n) in
          if hi < 4 \<or> length b < hi then Inl (Panic ''slice bounds out of range'')
          else Inr (string_of_bytes (drop 4 (take hi b)), drop hi b, True))"

definition readUint32 :: "bytes \<Rightarrow> (uint32 \<times> bytes \<times> bool) res" where
  "readUint32 b =
     (if length b < 4 then Inr (0, b, False)
      else Inr (Uint32 (take 4 b), drop 4 b, True))"

text \<open>\<^verbatim>\<open>if x, payload, ok = read(payload); !ok { return nil, fmt.Errorf(msg) }\<close>\<close>

definition need :: "string \<Rightarrow> ('a \<times> bytes \<times> bool) res \<Rightarrow> ('a \<Rightarrow> bytes \<Rightarrow> 'b res) \<Rightarrow> 'b res" where
  "need msg r k =
     (case r of Inl f \<Rightarrow> Inl f
      | Inr (v, rest, ok) \<Rightarrow> if ok then k v rest else Inl (Error msg))"

section \<open>Request payloads\<close>

record ptyReq =
  Term :: string
  Cols :: uint32
  Rows :: uint32
  WidthPx :: uint32
  HeightPx :: uint32
  Modes :: bytes

definition parsePtyReq :: "bytes \<Rightarrow> ptyReq res" where
  "parsePtyReq payload =
     need ''pty-req: malformed TERM'' (readSSHString payload) (\<lambda>term p1.
     need ''pty-req: malformed cols'' (readUint32 p1) (\<lambda>cols p2.
     need ''pty-req: malformed rows'' (readUint32 p2) (\<lambda>rows p3.
     need ''pty-req: malformed width px'' (readUint32 p3) (\<lambda>w p4.
     need ''pty-req: malformed height px'' (readUint32 p4) (\<lambda>h p5.
     need ''pty-req: malformed modes'' (readSSHString p5) (\<lambda>modes _.
       Inr \<lparr>Term = term, Cols = cols, Rows = rows, WidthPx = w, HeightPx = h,
            Modes = bytes_of_string modes\<rparr>))))))"

record winChange =
  wcCols :: uint32
  wcRows :: uint32
  wcWidthPx :: uint32
  wcHeightPx :: uint32

definition parseWindowChange :: "bytes \<Rightarrow> winChange res" where
  "parseWindowChange payload =
     need ''window-change: malformed cols'' (readUint32 payload) (\<lambda>cols p1.
     need ''window-change: malformed rows'' (readUint32 p1) (\<lambda>rows p2.
     need ''window-change: malformed width px'' (readUint32 p2) (\<lambda>w p3.
     need ''window-change: malformed height px'' (readUint32 p3) (\<lambda>h _.
       Inr \<lparr>wcCols = cols, wcRows = rows, wcWidthPx = w, wcHeightPx = h\<rparr>))))"

record envReq =
  envName :: string
  envValue :: string

definition parseEnvReq :: "bytes \<Rightarrow> envReq res" where
  "parseEnvReq payload =
     need ''env: malformed name'' (readSSHString payload) (\<lambda>name p1.
     need ''env: malformed value'' (readSSHString p1) (\<lambda>val _.
       Inr \<lparr>envName = name, envValue = val\<rparr>))"

definition parseExecCommand :: "bytes \<Rightarrow> string res" where
  "parseExecCommand payload =
     need ''exec: malformed command'' (readSSHString payload) (\<lambda>cmd _. Inr cmd)"

definition parseSubsystemName :: "bytes \<Rightarrow> string res" where
  "parseSubsystemName payload =
     need ''subsystem: malformed name'' (readSSHString payload) (\<lambda>name _. Inr name)"

section \<open>Writers\<close>

definition appendSSHString :: "bytes \<Rightarrow> string \<Rightarrow> bytes" where
  "appendSSHString dst s = dst @ PutUint32 (word_of_nat (length s)) @ bytes_of_string s"

definition exitStatusPayload :: "uint32 \<Rightarrow> bytes" where
  "exitStatusPayload code = PutUint32 code"

definition exitSignalPayload :: "string \<Rightarrow> bool \<Rightarrow> string \<Rightarrow> bytes" where
  "exitSignalPayload sigName coreDumped errMsg =
     (let out = appendSSHString [] sigName;
          out = (if coreDumped then out @ [1] else out @ [0]);
          out = appendSSHString out errMsg
      in appendSSHString out '''')"

section \<open>Filters and signal names\<close>

definition filterEnv :: "string \<Rightarrow> bool" where
  "filterEnv name \<longleftrightarrow>
     (if name = ''LANG'' then True
      else if prefix ''LC_'' name \<and> length name > 3 then True
      else False)"

definition isSftpSubsystem :: "string \<Rightarrow> bool" where
  "isSftpSubsystem name \<longleftrightarrow> name = ''sftp''"

text \<open>
  \<^verbatim>\<open>os.Signal\<close> is an interface: the usual dynamic type is \<^verbatim>\<open>syscall.Signal\<close>; any other
  value is only known by its text. The numbers of the signals are those of the platform
  (they differ between Linux and macOS for \<^verbatim>\<open>SIGUSR1\<close> and \<^verbatim>\<open>SIGUSR2\<close>), so the
  constants are the constructors and any other signal carries the text it prints.
\<close>

datatype syscall_signal =
    SIGHUP | SIGINT | SIGQUIT | SIGILL | SIGABRT | SIGFPE | SIGKILL | SIGSEGV | SIGPIPE
  | SIGALRM | SIGTERM | SIGUSR1 | SIGUSR2 | SIGOther string

datatype os_signal = SyscallSignal syscall_signal | ForeignSignal string

fun signalName :: "os_signal \<Rightarrow> string \<times> string" where
  "signalName (ForeignSignal txt) = (''TERM'', ''unmapped signal: '' @ txt)"
| "signalName (SyscallSignal SIGHUP) = (''HUP'', '''')"
| "signalName (SyscallSignal SIGINT) = (''INT'', '''')"
| "signalName (SyscallSignal SIGQUIT) = (''QUIT'', '''')"
| "signalName (SyscallSignal SIGILL) = (''ILL'', '''')"
| "signalName (SyscallSignal SIGABRT) = (''ABRT'', '''')"
| "signalName (SyscallSignal SIGFPE) = (''FPE'', '''')"
| "signalName (SyscallSignal SIGKILL) = (''KILL'', '''')"
| "signalName (SyscallSignal SIGSEGV) = (''SEGV'', '''')"
| "signalName (SyscallSignal SIGPIPE) = (''PIPE'', '''')"
| "signalName (SyscallSignal SIGALRM) = (''ALRM'', '''')"
| "signalName (SyscallSignal SIGTERM) = (''TERM'', '''')"
| "signalName (SyscallSignal SIGUSR1) = (''USR1'', '''')"
| "signalName (SyscallSignal SIGUSR2) = (''USR2'', '''')"
| "signalName (SyscallSignal (SIGOther txt)) = (''TERM'', ''unmapped signal: '' @ txt)"

section \<open>Laws of the integer codec\<close>

lemma Uint32_PutUint32 [simp]: "Uint32 (PutUint32 v) = v"
proof (rule bit_word_eqI)
  fix n assume "n < LENGTH(32)"
  then consider "n < 8" | "8 \<le> n" "n < 16" | "16 \<le> n" "n < 24" | "24 \<le> n" "n < 32"
    by fastforce
  then show "bit (Uint32 (PutUint32 v)) n = bit v n"
    by cases (auto simp: Uint32_def PutUint32_def bit_simps)
qed

lemma PutUint32_Uint32_list: "PutUint32 (Uint32 [b0, b1, b2, b3]) = [b0, b1, b2, b3]"
proof -
  have "Uint32 [b0, b1, b2, b3] =
      ucast b3 OR push_bit 8 (ucast b2) OR push_bit 16 (ucast b1) OR push_bit 24 (ucast b0)"
    by (simp add: Uint32_def)
  then show ?thesis
    unfolding PutUint32_def list.inject
    by (intro conjI refl; elim ssubst; intro bit_word_eqI)
      (auto simp: bit_simps dest: bit_imp_le_length)
qed

lemma length_PutUint32 [simp]: "length (PutUint32 v) = 4"
  by (simp add: PutUint32_def)

lemma PutUint32_Uint32 [simp]:
  assumes "4 \<le> length b"
  shows "PutUint32 (Uint32 (take 4 b)) = take 4 b"
proof -
  from assms obtain b0 b1 b2 b3 r where "b = b0 # b1 # b2 # b3 # r"
    by (auto simp: numeral_eq_Suc Suc_le_length_iff)
  then show ?thesis by (simp add: PutUint32_Uint32_list)
qed

section \<open>The interface of a wire codec\<close>

text \<open>
  What the request parsers rely on: a reader undoes its writer in front of any rest, it
  succeeds on nothing else, and on inputs below 4 GiB it never panics. \<open>fits\<close> says which
  values the wire format can carry.
\<close>

locale wire_codec =
  fixes put :: "'a \<Rightarrow> bytes"
    and get :: "bytes \<Rightarrow> ('a \<times> bytes \<times> bool) res"
    and fits :: "'a \<Rightarrow> bool"
  assumes get_put: "fits x \<Longrightarrow> length (put x @ rest) < 2 ^ 32 \<Longrightarrow> get (put x @ rest) = Inr (x, rest, True)"
    and put_get: "length b < 2 ^ 32 \<Longrightarrow> get b = Inr (x, rest, True) \<Longrightarrow> b = put x @ rest \<and> fits x"
    and no_panic: "length b < 2 ^ 32 \<Longrightarrow> \<exists>y. get b = Inr y"
begin

lemma need_put [simp]:
  "fits x \<Longrightarrow> length (put x @ rest) < 2 ^ 32 \<Longrightarrow> need msg (get (put x @ rest)) k = k x rest"
  by (simp add: need_def get_put)

lemma need_InrE:
  assumes "need msg (get b) k = Inr y" and "length b < 2 ^ 32"
  obtains x rest where "b = put x @ rest" and "fits x" and "length rest < 2 ^ 32"
    and "k x rest = Inr y"
proof -
  from assms(1) obtain x rest where g: "get b = Inr (x, rest, True)" and k: "k x rest = Inr y"
    by (auto simp: need_def split: sum.splits prod.splits if_splits)
  from put_get [OF assms(2) g] have b: "b = put x @ rest" and f: "fits x" by auto
  from b assms(2) have "length rest < 2 ^ 32" by simp
  with b f k that show ?thesis by blast
qed

lemma need_no_panic:
  assumes "length b < 2 ^ 32"
    and "\<And>x rest m'. b = put x @ rest \<Longrightarrow> k x rest \<noteq> Inl (Panic m')"
  shows "need msg (get b) k \<noteq> Inl (Panic m)"
proof -
  from no_panic [OF assms(1)] obtain x rest ok where g: "get b = Inr (x, rest, ok)"
    by (metis prod_cases3)
  show ?thesis
  proof (cases ok)
    case True
    with g put_get [OF assms(1), of x rest] have "b = put x @ rest" by simp
    with assms(2) g True show ?thesis by (simp add: need_def)
  next
    case False
    with g show ?thesis by (simp add: need_def)
  qed
qed

end

abbreviation put_string :: "string \<Rightarrow> bytes" where
  "put_string s \<equiv> appendSSHString [] s"

lemma appendSSHString_append: "appendSSHString dst s = dst @ put_string s"
  by (simp add: appendSSHString_def)

lemma length_put_string [simp]: "length (put_string s) = 4 + length s"
  by (simp add: appendSSHString_def)

lemma readUint32_put: "readUint32 (PutUint32 v @ rest) = Inr (v, rest, True)"
  by (simp add: readUint32_def)

lemma readUint32_inv: "readUint32 b = Inr (v, rest, True) \<Longrightarrow> b = PutUint32 v @ rest"
  by (auto simp: readUint32_def split: if_splits)

lemma readUint32_total: "\<exists>y. readUint32 b = Inr y"
  by (auto simp: readUint32_def)

interpretation u32: wire_codec PutUint32 readUint32 "\<lambda>_. True"
  by unfold_locales (use readUint32_put readUint32_inv readUint32_total in blast)+

lemma unat_word_of_nat_small: "k < 2 ^ 32 \<Longrightarrow> unat (word_of_nat k :: uint32) = k"
  by (simp add: unat_of_nat)

lemma unat_4_plus:
  assumes "4 + unat (n :: uint32) < 2 ^ 32"
  shows "unat (4 + n) = 4 + unat n"
  using assms by (simp add: unat_word_ariths)

text \<open>
  Below 4 GiB the \<^verbatim>\<open>uint32\<close> expressions of \<open>readSSHString\<close> are exact.
\<close>

lemma readSSHString_small:
  assumes "length b < 2 ^ 32" and "4 \<le> length b"
  defines "n \<equiv> Uint32 (take 4 b)"
  shows "readSSHString b =
    (if length b - 4 < unat n then Inr ([], b, False)
     else Inr (string_of_bytes (take (unat n) (drop 4 b)), drop (4 + unat n) b, True))"
proof -
  have len: "unat (word_of_nat (length b - 4) :: uint32) = length b - 4"
    using assms(1) by (intro unat_word_of_nat_small) simp
  show ?thesis
  proof (cases "length b - 4 < unat n")
    case True
    with assms(2) len show ?thesis
      by (simp add: readSSHString_def n_def [symmetric] word_less_nat_alt del: of_nat_diff)
  next
    case False
    then have "4 + unat n \<le> length b"
      using assms(2) by linarith
    moreover from this assms(1) have "unat (4 + n) = 4 + unat n"
      by (intro unat_4_plus) linarith
    ultimately show ?thesis
      using False assms(2) len
      by (simp add: readSSHString_def n_def [symmetric] word_less_nat_alt drop_take del: of_nat_diff)
  qed
qed

lemma readSSHString_put:
  assumes "length (put_string s @ rest) < 2 ^ 32"
  shows "readSSHString (put_string s @ rest) = Inr (s, rest, True)"
proof -
  let ?b = "put_string s @ rest"
  have b: "?b = PutUint32 (word_of_nat (length s)) @ bytes_of_string s @ rest"
    by (simp add: appendSSHString_def)
  have "unat (word_of_nat (length s) :: uint32) = length s"
    using assms by (intro unat_word_of_nat_small) simp
  then have n: "unat (Uint32 (take 4 ?b)) = length s"
    unfolding b by simp
  have "drop 4 ?b = bytes_of_string s @ rest"
    unfolding b by simp
  moreover have "drop (4 + length s) ?b = rest"
    by simp
  ultimately show ?thesis
    using readSSHString_small [OF assms] n by simp
qed

lemma readSSHString_inv:
  assumes "length b < 2 ^ 32" and "readSSHString b = Inr (s, rest, True)"
  shows "b = put_string s @ rest \<and> length s < 2 ^ 32"
proof -
  from assms(2) have four: "4 \<le> length b"
    by (auto simp: readSSHString_def split: if_splits)
  define n where "n = Uint32 (take 4 b)"
  from readSSHString_small [OF assms(1) four] assms(2)
  have le: "unat n \<le> length b - 4" and s: "s = string_of_bytes (take (unat n) (drop 4 b))"
    and rest: "rest = drop (4 + unat n) b"
    by (auto simp: n_def split: if_splits)
  from s le have ls: "length s = unat n" by simp
  have "put_string s @ rest = PutUint32 n @ take (unat n) (drop 4 b) @ drop (unat n) (drop 4 b)"
    using le by (simp add: appendSSHString_def s rest min_absorb2 add.commute)
  also have "\<dots> = b"
    using four by (simp add: n_def del: drop_drop)
  finally show ?thesis using ls le assms(1) by simp
qed

lemma readSSHString_no_panic: "length b < 2 ^ 32 \<Longrightarrow> \<exists>y. readSSHString b = Inr y"
  using readSSHString_small [of b] by (cases "length b < 4") (auto simp: readSSHString_def)

interpretation str: wire_codec "\<lambda>s. put_string s" readSSHString "\<lambda>s. length s < 2 ^ 32"
  by unfold_locales
    (use readSSHString_put readSSHString_inv readSSHString_no_panic in blast)+

section \<open>The RFC 4254 encodings\<close>

text \<open>
  The formats of RFC 4254 as a client writes them: the reference the parsers are compared with.
\<close>

definition encodePtyReq :: "ptyReq \<Rightarrow> bytes" where
  "encodePtyReq r = put_string (Term r) @ PutUint32 (Cols r) @ PutUint32 (Rows r) @
     PutUint32 (WidthPx r) @ PutUint32 (HeightPx r) @ put_string (string_of_bytes (Modes r))"

definition encodeWindowChange :: "winChange \<Rightarrow> bytes" where
  "encodeWindowChange r = PutUint32 (wcCols r) @ PutUint32 (wcRows r) @
     PutUint32 (wcWidthPx r) @ PutUint32 (wcHeightPx r)"

definition encodeEnvReq :: "envReq \<Rightarrow> bytes" where
  "encodeEnvReq r = put_string (envName r) @ put_string (envValue r)"

lemma parsePtyReq_encode:
  "length (encodePtyReq r @ rest) < 2 ^ 32 \<Longrightarrow> parsePtyReq (encodePtyReq r @ rest) = Inr r"
  by (cases r) (simp add: parsePtyReq_def encodePtyReq_def)

lemma parsePtyReq_sound:
  assumes "length p < 2 ^ 32" and "parsePtyReq p = Inr r"
  shows "\<exists>rest. p = encodePtyReq r @ rest"
  using assms unfolding parsePtyReq_def
  by (elim str.need_InrE u32.need_InrE)
    (auto simp: encodePtyReq_def)

lemma parseWindowChange_encode:
  "length (encodeWindowChange r @ rest) < 2 ^ 32 \<Longrightarrow>
   parseWindowChange (encodeWindowChange r @ rest) = Inr r"
  by (cases r) (simp add: parseWindowChange_def encodeWindowChange_def)

lemma parseWindowChange_sound:
  assumes "length p < 2 ^ 32" and "parseWindowChange p = Inr r"
  shows "\<exists>rest. p = encodeWindowChange r @ rest"
  using assms unfolding parseWindowChange_def
  by (elim u32.need_InrE) (auto simp: encodeWindowChange_def)

lemma parseEnvReq_encode:
  "length (encodeEnvReq r @ rest) < 2 ^ 32 \<Longrightarrow> parseEnvReq (encodeEnvReq r @ rest) = Inr r"
  by (cases r) (simp add: parseEnvReq_def encodeEnvReq_def)

lemma parseEnvReq_sound:
  assumes "length p < 2 ^ 32" and "parseEnvReq p = Inr r"
  shows "\<exists>rest. p = encodeEnvReq r @ rest"
  using assms unfolding parseEnvReq_def
  by (elim str.need_InrE) (auto simp: encodeEnvReq_def)

lemma parseExecCommand_iff:
  assumes "length p < 2 ^ 32"
  shows "parseExecCommand p = Inr cmd \<longleftrightarrow> (\<exists>rest. p = put_string cmd @ rest)"
  using assms unfolding parseExecCommand_def
  by (auto elim!: str.need_InrE)

lemma parseSubsystemName_iff:
  assumes "length p < 2 ^ 32"
  shows "parseSubsystemName p = Inr name \<longleftrightarrow> (\<exists>rest. p = put_string name @ rest)"
  using assms unfolding parseSubsystemName_def
  by (auto elim!: str.need_InrE)

lemmas need_no_panic_rules = str.need_no_panic u32.need_no_panic

lemma parsers_no_panic:
  assumes "length p < 2 ^ 32"
  shows "parsePtyReq p \<noteq> Inl (Panic m)" and "parseWindowChange p \<noteq> Inl (Panic m)"
    and "parseEnvReq p \<noteq> Inl (Panic m)" and "parseExecCommand p \<noteq> Inl (Panic m)"
    and "parseSubsystemName p \<noteq> Inl (Panic m)"
  using assms
  unfolding parsePtyReq_def parseWindowChange_def parseEnvReq_def parseExecCommand_def
    parseSubsystemName_def
  by (intro need_no_panic_rules; simp)+

section \<open>Properties\<close>

text \<open>
  C29: On payloads below 4 GiB, \<open>parsePtyReq\<close> returns a request exactly when the payload
  starts with the RFC 4254 encoding of that request; in particular a payload has at most one
  reading and a truncated payload is refused.
\<close>

theorem parsePtyReq_exact:
  assumes "length p < 2 ^ 32"
  shows "parsePtyReq p = Inr r \<longleftrightarrow> (\<exists>rest. p = encodePtyReq r @ rest)"
  using assms parsePtyReq_sound parsePtyReq_encode by blast

theorem parsePtyReq_exact_witness:
  "parsePtyReq (encodePtyReq \<lparr>Term = ''vt100'', Cols = 80, Rows = 24, WidthPx = 0, HeightPx = 0,
       Modes = [0]\<rparr> @ [7]) =
     Inr \<lparr>Term = ''vt100'', Cols = 80, Rows = 24, WidthPx = 0, HeightPx = 0, Modes = [0]\<rparr>"
proof -
  let ?r = "\<lparr>Term = ''vt100'', Cols = 80, Rows = 24, WidthPx = 0, HeightPx = 0, Modes = [0]\<rparr> :: ptyReq"
  have "length (encodePtyReq ?r @ [7]) < 2 ^ 32"
    by (simp add: encodePtyReq_def)
  from parsePtyReq_exact [OF this, of ?r] show ?thesis by blast
qed

text \<open>
  The same for \<^verbatim>\<open>env\<close> requests: the parser accepts exactly the encodings of a name and a
  value, whatever follows them.
\<close>

theorem parseEnvReq_exact:
  assumes "length p < 2 ^ 32"
  shows "parseEnvReq p = Inr r \<longleftrightarrow> (\<exists>rest. p = encodeEnvReq r @ rest)"
  using assms parseEnvReq_sound parseEnvReq_encode by blast

theorem parseEnvReq_exact_witness:
  "parseEnvReq (encodeEnvReq \<lparr>envName = ''LANG'', envValue = ''C''\<rparr> @ []) =
     Inr \<lparr>envName = ''LANG'', envValue = ''C''\<rparr>"
proof -
  let ?r = "\<lparr>envName = ''LANG'', envValue = ''C''\<rparr>"
  have "length (encodeEnvReq ?r @ []) < 2 ^ 32"
    by (simp add: encodeEnvReq_def)
  from parseEnvReq_exact [OF this, of ?r] show ?thesis by blast
qed

text \<open>
  The boundary of the readers: no payload below 4 GiB makes \<open>readSSHString\<close> panic, and
  the bound is sharp, because a payload of exactly 4 GiB whose length field is \<^verbatim>\<open>0xFFFFFFFC\<close>
  passes the length check and then wraps the end of the slice to 0.
\<close>

theorem readSSHString_panic_bound:
  "(\<forall>b m. length b < 2 ^ 32 \<longrightarrow> readSSHString b \<noteq> Inl (Panic m)) \<and>
   (\<forall>b. length b = 2 ^ 32 \<and> take 4 b = [255, 255, 255, 252] \<longrightarrow>
      readSSHString b = Inl (Panic ''slice bounds out of range''))"
proof (intro conjI allI impI)
  fix b :: bytes and m assume "length b < 2 ^ 32"
  then show "readSSHString b \<noteq> Inl (Panic m)"
    using readSSHString_no_panic by fastforce
next
  fix b :: bytes assume b: "length b = 2 ^ 32 \<and> take 4 b = [255, 255, 255, 252]"
  have n: "Uint32 [255, 255, 255, 252] = 0xFFFFFFFC"
    by (simp add: Uint32_def)
  have len: "word_of_nat (length b - 4) = (0xFFFFFFFC :: uint32)"
    using b by simp
  show "readSSHString b = Inl (Panic ''slice bounds out of range'')"
    using b by (simp add: readSSHString_def n len del: of_nat_diff)
qed

theorem readSSHString_panic_bound_witness:
  "readSSHString ([255, 255, 255, 252] @ replicate (2 ^ 32 - 4) 0) =
     Inl (Panic ''slice bounds out of range'')"
  using readSSHString_panic_bound by simp

text \<open>
  A client that reads the \<^verbatim>\<open>exit-signal\<close> payload back gets the signal name, the core-dump
  flag, the error message and an empty language tag, for names and messages the wire can carry.
\<close>

theorem exitSignalPayload_roundtrip:
  assumes "length (exitSignalPayload name core msg) < 2 ^ 32"
  shows "\<exists>p. readSSHString (exitSignalPayload name core msg) =
             Inr (name, (if core then 1 else 0) # p, True) \<and>
           readSSHString p = Inr (msg, put_string '''', True)"
proof -
  let ?p = "put_string msg @ put_string ''''"
  have eq: "exitSignalPayload name core msg =
      put_string name @ ((if core then 1 else 0) # ?p)"
    by (simp add: exitSignalPayload_def Let_def appendSSHString_append [of "_ @ _"])
  from assms have "length ?p < 2 ^ 32" by (simp add: eq)
  then have "readSSHString ?p = Inr (msg, put_string '''', True)"
    by (rule readSSHString_put)
  moreover from assms have
    "readSSHString (exitSignalPayload name core msg) = Inr (name, (if core then 1 else 0) # ?p, True)"
    unfolding eq by (rule readSSHString_put)
  ultimately show ?thesis by blast
qed

theorem exitSignalPayload_roundtrip_witness:
  "\<exists>p. readSSHString (exitSignalPayload ''HUP'' False '''') = Inr (''HUP'', 0 # p, True)"
proof -
  have "length (exitSignalPayload ''HUP'' False '''') < 2 ^ 32"
    by (simp add: exitSignalPayload_def Let_def appendSSHString_def)
  from exitSignalPayload_roundtrip [OF this] show ?thesis by auto
qed

end
