(* ===== verification/Session.thy ===== *)
theory Session
  imports Wire Logging Resolve "HOL-Library.AList" "HOL-Library.Multiset"
begin

text \<open>
  \<^verbatim>\<open>internal/session/service.go\<close>, \<^verbatim>\<open>pty.go\<close> and \<^verbatim>\<open>sysproc.go\<close>: the life of one session channel. A
  handler takes the per-channel state and returns the effects it has on the outside world, in
  order, and the new state. Effects are the replies, log events, requests and closes the client
  or the operating system sees, so leaks and missing answers can be stated on them.

  What the outside contributes is an argument: the PTY allocator's answer to each request, whether
  a process starts and with which pid, which of the three ways a supervised child is settled, how often the process group is
  still found alive, and the wait status. The PTY library, the SFTP server and the SSH channel are
  thus parameters. File descriptors are numbers. A slice panic of the wire parsers ends the handler with \<open>Inl\<close>.

  Go's maps iterate in an unspecified order, so \<open>buildEnv\<close> may produce its entries in another order
  than the association list used here; every statement is about the set of entries.
\<close>

section \<open>Requests, effects, state\<close>

record request =
  rq_Type :: string
  rq_WantReply :: bool
  rq_Payload :: bytes

type_synonym fd = nat

datatype seffect =
    Reply bool
  | SLog log_event
  | SetWinsize fd "16 word" "16 word" "16 word" "16 word"
  | OpenPty fd fd
  | CloseFd fd
  | SendRequest string bytes
  | CloseChannel
  | KillGroup int syscall_signal
  | CloseStdin

text \<open>\<^verbatim>\<open>req.Reply(ok, nil)\<close> sends nothing for a request that wants no reply.\<close>

definition reply :: "request \<Rightarrow> bool \<Rightarrow> seffect list" where
  "reply req ok = (if rq_WantReply req then [Reply ok] else [])"

record sessionState =
  st_pty :: "ptyReq option"
  st_ptyMaster :: "fd option"
  st_ptySlave :: "fd option"
  st_envFromCh :: "(string \<times> string) list"
  st_started :: bool

definition init_state :: sessionState where
  "init_state = \<lparr> st_pty = None, st_ptyMaster = None, st_ptySlave = None, st_envFromCh = [], st_started = False \<rparr>"

text \<open>
  The last three components are not fields of the Go struct but the surroundings that \<^verbatim>\<open>exec.Command\<close> consults when the service prepares a
  command: the search path of the process, whether the system would execute a file, and the text of the error for a name that cannot be resolved.
\<close>

datatype look_error = ErrDot | ErrNotFound | ErrNotExecutable

record Service =
  Shell :: string
  hostEnv :: "string list"
  os_PATH :: string
  os_executable :: "string \<Rightarrow> bool"
  os_look_text :: "look_error \<Rightarrow> string \<Rightarrow> string"

section \<open>Process attributes (\<^verbatim>\<open>sysproc.go\<close>)\<close>

record SysProcAttr =
  Setsid :: bool
  Setctty :: bool

definition newPipeSysProcAttr :: SysProcAttr where
  "newPipeSysProcAttr = \<lparr> Setsid = True, Setctty = False \<rparr>"

definition newPtySysProcAttr :: SysProcAttr where
  "newPtySysProcAttr = \<lparr> Setsid = True, Setctty = True \<rparr>"

definition applyPtySysProcAttr :: "SysProcAttr \<Rightarrow> SysProcAttr" where
  "applyPtySysProcAttr s = s\<lparr>Setsid := True, Setctty := True\<rparr>"

datatype stdio = NoStdio | PtyStdio fd | PipeStdio

record Cmd =
  c_Path :: string
  c_Args :: "string list"
  c_Env :: "string list"
  c_Err :: "string option"
  c_stdio :: stdio
  c_SysProcAttr :: "SysProcAttr option"

section \<open>The child environment\<close>

fun indexEqual :: "string \<Rightarrow> int" where
  "indexEqual [] = -1"
| "indexEqual (c # s) =
     (if c = CHR ''='' then 0 else (let i = indexEqual s in if i < 0 then -1 else i + 1))"

definition pick :: "string list \<Rightarrow> string \<Rightarrow> (string \<times> string) list \<Rightarrow> (string \<times> string) list" where
  "pick src name picked =
     foldl (\<lambda>m kv.
         let eq = indexEqual kv in
         if eq > 0 \<and> take (nat eq) kv = name then AList.update name (drop (nat eq + 1) kv) m else m)
       picked src"

definition pick_filtered :: "string list \<Rightarrow> (string \<times> string) list \<Rightarrow> (string \<times> string) list" where
  "pick_filtered src picked =
     foldl (\<lambda>m kv.
         let eq = indexEqual kv in
         if eq \<le> 0 then m
         else (let k = take (nat eq) kv in
           if filterEnv k then AList.update k (drop (nat eq + 1) kv) m else m))
       picked src"

definition picked_env :: "Service \<Rightarrow> sessionState \<Rightarrow> (string \<times> string) list" where
  "picked_env s st =
     (let src = hostEnv s;
          picked = pick src ''PATH'' (pick src ''SHELL'' (pick src ''LOGNAME'' (pick src ''USER'' (pick src ''HOME'' []))));
          picked = pick_filtered src picked;
          picked = foldl (\<lambda>m (k, v). AList.update k v m) picked (st_envFromCh st)
      in case st_pty st of
           None \<Rightarrow> picked
         | Some p \<Rightarrow> if Term p \<noteq> '''' then AList.update ''TERM'' (Term p) picked else picked)"

definition buildEnv :: "Service \<Rightarrow> sessionState \<Rightarrow> string list" where
  "buildEnv s st = map (\<lambda>(k, v). k @ ''='' @ v) (picked_env s st)"

section \<open>Commands\<close>

text \<open>\<^verbatim>\<open>filepath.Base\<close>\<close>

definition filepath_Base :: "string \<Rightarrow> string" where
  "filepath_Base p =
     (if p = '''' then ''.''
      else let q = rev (dropWhile (\<lambda>c. c = CHR ''/'') (rev p))
        in if q = '''' then ''/'' else rev (takeWhile (\<lambda>c. c \<noteq> CHR ''/'') (rev q)))"

text \<open>\<^verbatim>\<open>filepath.SplitList\<close>, \<^verbatim>\<open>exec.LookPath\<close> and \<^verbatim>\<open>exec.Command\<close>: a name that is its own base name is searched for in the path.\<close>

definition filepath_SplitList :: "string \<Rightarrow> string list" where
  "filepath_SplitList p = (if p = '''' then [] else strings_Split p (CHR '':''))"

definition filepath_IsAbs :: "string \<Rightarrow> bool" where
  "filepath_IsAbs p \<longleftrightarrow> prefix ''/'' p"

fun look_dirs :: "(string \<Rightarrow> bool) \<Rightarrow> string \<Rightarrow> string list \<Rightarrow> string \<times> look_error option" where
  "look_dirs ex file [] = ('''', Some ErrNotFound)"
| "look_dirs ex file (dir # dirs) =
     (let p = filepath_Join [if dir = '''' then ''.'' else dir, file]
      in if ex p then (p, if filepath_IsAbs p then None else Some ErrDot) else look_dirs ex file dirs)"

definition LookPath :: "Service \<Rightarrow> string \<Rightarrow> string \<times> look_error option" where
  "LookPath s file =
     (if CHR ''/'' \<in> set file then (if os_executable s file then (file, None) else ('''', Some ErrNotExecutable))
      else look_dirs (os_executable s) file (filepath_SplitList (os_PATH s)))"

definition exec_Command :: "Service \<Rightarrow> string \<Rightarrow> string \<times> string option" where
  "exec_Command s name =
     (if filepath_Base name = name
      then (let (lp, err) = LookPath s name
            in (if lp \<noteq> '''' then lp else name, map_option (\<lambda>e. os_look_text s e name) err))
      else (name, None))"

definition prepareShell :: "Service \<Rightarrow> sessionState \<Rightarrow> Cmd" where
  "prepareShell s st =
     \<lparr> c_Path = fst (exec_Command s (Shell s)), c_Args = [''-'' @ filepath_Base (Shell s)], c_Env = buildEnv s st,
       c_Err = snd (exec_Command s (Shell s)), c_stdio = NoStdio, c_SysProcAttr = None \<rparr>"

definition prepareExec :: "Service \<Rightarrow> sessionState \<Rightarrow> string \<Rightarrow> Cmd" where
  "prepareExec s st command =
     (let args = (if st_pty st \<noteq> None then [''-i'', ''-c'', command] else [''-c'', command])
      in \<lparr> c_Path = fst (exec_Command s (Shell s)), c_Args = filepath_Base (Shell s) # args, c_Env = buildEnv s st,
           c_Err = snd (exec_Command s (Shell s)), c_stdio = NoStdio, c_SysProcAttr = None \<rparr>)"

section \<open>Requests before the child starts\<close>

definition Setsize :: "fd \<Rightarrow> uint32 \<Rightarrow> uint32 \<Rightarrow> uint32 \<Rightarrow> uint32 \<Rightarrow> seffect" where
  "Setsize f cols rows widthPx heightPx = SetWinsize f (ucast cols) (ucast rows) (ucast widthPx) (ucast heightPx)"

type_synonym 'a handled = "(seffect list \<times> 'a) res"

definition handlePtyReq ::
  "request \<Rightarrow> string + fd \<times> fd \<Rightarrow> string \<Rightarrow> sessionState \<Rightarrow> sessionState handled" where
  "handlePtyReq req alloc remote st =
     (if st_started st then Inr (reply req False, st)
      else if st_pty st \<noteq> None then Inr (reply req False, st)
      else (case parsePtyReq (rq_Payload req) of
          Inl (Panic p) \<Rightarrow> Inl (Panic p)
        | Inl (Error err) \<Rightarrow> Inr (reply req False @ [SLog (Log_Error (''pty-req: '' @ err) remote)], st)
        | Inr pr \<Rightarrow>
            (case alloc of
               Inl err \<Rightarrow> Inr (reply req False @ [SLog (Log_Error (''pty allocation failed: '' @ err) remote)], st)
             | Inr (master, slave) \<Rightarrow>
                 Inr ([OpenPty master slave, Setsize master (Cols pr) (Rows pr) (WidthPx pr) (HeightPx pr)] @ reply req True,
                   st\<lparr>st_pty := Some pr, st_ptyMaster := Some master, st_ptySlave := Some slave\<rparr>))))"

definition handleEnv :: "request \<Rightarrow> sessionState \<Rightarrow> sessionState handled" where
  "handleEnv req st =
     (if st_started st then Inr (reply req False, st)
      else (case parseEnvReq (rq_Payload req) of
          Inl (Panic p) \<Rightarrow> Inl (Panic p)
        | Inl (Error err) \<Rightarrow> Inr (reply req True, st)
        | Inr e \<Rightarrow>
            Inr (reply req True,
              if filterEnv (envName e) then st\<lparr>st_envFromCh := AList.update (envName e) (envValue e) (st_envFromCh st)\<rparr>
              else st)))"

definition handleWindowChange :: "request \<Rightarrow> sessionState \<Rightarrow> seffect list" where
  "handleWindowChange req st =
     (case parseWindowChange (rq_Payload req) of
        Inl _ \<Rightarrow> reply req False
      | Inr wc \<Rightarrow>
          (case st_ptyMaster st of
             Some m \<Rightarrow> [Setsize m (wcCols wc) (wcRows wc) (wcWidthPx wc) (wcHeightPx wc)]
           | None \<Rightarrow> [])
          @ reply req True)"

record spawn =
  sp_kind :: string
  sp_cmd :: "Cmd option"
  sp_req :: request

definition preSpawnDispatch ::
  "Service \<Rightarrow> string \<Rightarrow> request \<Rightarrow> string + fd \<times> fd \<Rightarrow> sessionState \<Rightarrow> (spawn option \<times> sessionState) handled" where
  "preSpawnDispatch s remote req alloc st =
     (let stay = (\<lambda>es. Inr (es, None, st));
          lift = (\<lambda>r. case r of Inl f \<Rightarrow> Inl f | Inr (es, st') \<Rightarrow> Inr (es, None, st'))
      in if rq_Type req = ''pty-req'' then lift (handlePtyReq req alloc remote st)
         else if rq_Type req = ''env'' then lift (handleEnv req st)
         else if rq_Type req = ''window-change'' then stay (handleWindowChange req st)
         else if rq_Type req = ''shell'' then
           Inr ([], Some \<lparr> sp_kind = ''shell'', sp_cmd = Some (prepareShell s st), sp_req = req \<rparr>, st)
         else if rq_Type req = ''exec'' then
           (case parseExecCommand (rq_Payload req) of
              Inl (Panic p) \<Rightarrow> Inl (Panic p)
            | Inl (Error err) \<Rightarrow> stay (reply req False @ [SLog (Log_Error (''exec: '' @ err) remote)])
            | Inr command \<Rightarrow>
                Inr ([], Some \<lparr> sp_kind = ''exec'', sp_cmd = Some (prepareExec s st command), sp_req = req \<rparr>, st))
         else if rq_Type req = ''subsystem'' then
           (case parseSubsystemName (rq_Payload req) of
              Inl (Panic p) \<Rightarrow> Inl (Panic p)
            | Inl (Error err) \<Rightarrow> stay (reply req False @ [SLog (Log_Reject remote ''subsystem'')])
            | Inr name \<Rightarrow>
                if \<not> isSftpSubsystem name then stay (reply req False @ [SLog (Log_Reject remote ''subsystem'')])
                else Inr ([], Some \<lparr> sp_kind = ''sftp'', sp_cmd = None, sp_req = req \<rparr>, st))
         else if rq_Type req = ''signal'' then stay []
         else if rq_Type req = ''x11-req'' then stay (reply req False @ [SLog (Log_Reject remote ''x11'')])
         else if rq_Type req = ''auth-agent-req@openssh.com'' then stay (reply req False @ [SLog (Log_Reject remote ''agent'')])
         else stay (reply req False))"

text \<open>The first loop of \<^verbatim>\<open>Handle\<close>: it ends at the first request that commits the channel.\<close>

fun pre_loop ::
  "Service \<Rightarrow> string \<Rightarrow> (request \<times> (string + fd \<times> fd)) list \<Rightarrow> sessionState
   \<Rightarrow> (spawn option \<times> request list \<times> sessionState) handled" where
  "pre_loop s remote [] st = Inr ([], None, [], st)"
| "pre_loop s remote ((req, alloc) # rs) st =
     (case preSpawnDispatch s remote req alloc st of
        Inl f \<Rightarrow> Inl f
      | Inr (es, Some sp, st) \<Rightarrow> Inr (es, Some sp, map fst rs, st)
      | Inr (es, None, st) \<Rightarrow>
          (case pre_loop s remote rs st of
             Inl f \<Rightarrow> Inl f
           | Inr (es', r) \<Rightarrow> Inr (es @ es', r)))"

section \<open>Starting the child\<close>

record childRunner =
  r_cmd :: Cmd
  r_pgid :: int
  r_master :: "fd option"
  r_closers :: "fd list"
  r_drainDones :: nat

text \<open>
  \<open>start\<close> is what the system answers to \<^verbatim>\<open>cmd.Start\<close>: an error text or the pid; a command whose name could not be resolved is not tried. On success the parent's slave end
  is closed; on failure it stays open.
\<close>

definition cmd_Start :: "Cmd \<Rightarrow> string + int \<Rightarrow> string + int" where
  "cmd_Start cmd start = (case c_Err cmd of Some err \<Rightarrow> Inl err | None \<Rightarrow> start)"

definition startWithPTY :: "Cmd \<Rightarrow> fd \<Rightarrow> string + int \<Rightarrow> seffect list \<times> (string + Cmd \<times> int)" where
  "startWithPTY cmd slave start =
     (let cmd = cmd\<lparr>c_stdio := PtyStdio slave,
            c_SysProcAttr := Some (case c_SysProcAttr cmd of
                None \<Rightarrow> newPtySysProcAttr
              | Some a \<Rightarrow> applyPtySysProcAttr a)\<rparr>
      in case cmd_Start cmd start of Inl err \<Rightarrow> ([], Inl err) | Inr pid \<Rightarrow> ([CloseFd slave], Inr (cmd, pid)))"

text \<open>
  \<open>stdinErr\<close> is the error of \<^verbatim>\<open>cmd.StdinPipe\<close>, if it fails. The master and the slave are set whenever
  \<open>st_pty\<close> is (invariant \<open>pty_ok\<close> below); for a nil master the close in the failing branch is omitted.
  The goroutines that copy data between the channel and the child carry no decision and are left out.
\<close>

definition startChild ::
  "string option \<Rightarrow> string + int \<Rightarrow> Cmd \<Rightarrow> sessionState \<Rightarrow> seffect list \<times> sessionState \<times> (string + childRunner)" where
  "startChild stdinErr start cmd st =
     (let master = st_ptyMaster st; slave = st_ptySlave st; hasPty = (st_pty st \<noteq> None);
          st = st\<lparr>st_started := True\<rparr>;
          closeMaster = (case master of None \<Rightarrow> [] | Some m \<Rightarrow> [CloseFd m])
      in if hasPty then
           (case slave of
              None \<Rightarrow> (closeMaster, st, Inl ''invalid argument'')
            | Some f \<Rightarrow>
                (case startWithPTY cmd f start of
                   (es, Inl err) \<Rightarrow> (es @ closeMaster, st, Inl err)
                 | (es, Inr (cmd, pid)) \<Rightarrow>
                     (es, st, Inr \<lparr> r_cmd = cmd, r_pgid = pid, r_master = master,
                        r_closers = (case master of None \<Rightarrow> [] | Some m \<Rightarrow> [m]), r_drainDones = 1 \<rparr>)))
         else (case stdinErr of
              Some err \<Rightarrow> ([], st, Inl err)
            | None \<Rightarrow>
                let cmd = cmd\<lparr>c_stdio := PipeStdio, c_SysProcAttr := Some newPipeSysProcAttr\<rparr>
                in (case cmd_Start cmd start of
                      Inl err \<Rightarrow> ([CloseStdin], st, Inl err)
                    | Inr pid \<Rightarrow>
                        ([], st, Inr \<lparr> r_cmd = cmd, r_pgid = pid, r_master = None, r_closers = [], r_drainDones = 0 \<rparr>))))"

section \<open>Ending the child\<close>

definition shutdownGrace :: nanos where "shutdownGrace = 5 * Second"

definition poll_interval :: nanos where "poll_interval = 50 * 1000000"

text \<open>
  The polling loop of \<^verbatim>\<open>signalAndKill\<close>: \<open>alive i\<close> is the answer of the \<open>i\<close>-th probe, \<open>lag i\<close> what the
  \<open>i\<close>-th round takes beyond its sleep. The result says whether the deadline passed with the group
  alive, how many probes were made and when the loop ended.
\<close>

function kill_wait :: "(nat \<Rightarrow> bool) \<Rightarrow> (nat \<Rightarrow> nat) \<Rightarrow> nanos \<Rightarrow> nanos \<Rightarrow> nat \<Rightarrow> bool \<times> nat \<times> nanos" where
  "kill_wait alive lag deadline now i =
     (if now < deadline then
        if \<not> alive i then (False, Suc i, now)
        else kill_wait alive lag deadline (now + poll_interval + int (lag i)) (Suc i)
      else (True, i, now))"
  by pat_completeness auto
termination
  by (relation "measure (\<lambda>(_, _, deadline, now, _). nat (deadline - now))") (auto simp: poll_interval_def)

declare kill_wait.simps [simp del]

definition signalAndKill :: "(nat \<Rightarrow> bool) \<Rightarrow> (nat \<Rightarrow> nat) \<Rightarrow> nanos \<Rightarrow> int \<Rightarrow> string \<Rightarrow> seffect list" where
  "signalAndKill alive lag now pgid reason =
     [KillGroup pgid SIGHUP, SLog (Log_ShutdownSignal pgid ''HUP'' reason)] @
     (if fst (kill_wait alive lag (now + shutdownGrace) now 0)
      then [KillGroup pgid SIGKILL, SLog (Log_ShutdownSignal pgid ''KILL'' reason)] else [])"

text \<open>
  \<open>finished i\<close> says that the select on the \<open>i\<close>-th copy goroutine and the timer of two seconds takes the
  goroutine's channel. The number of waits is that of the copy goroutines, so the loop ends.
\<close>

fun drain_loop :: "(nat \<Rightarrow> bool) \<Rightarrow> string \<Rightarrow> string \<Rightarrow> nat list \<Rightarrow> seffect list" where
  "drain_loop finished remote knd [] = []"
| "drain_loop finished remote knd (i # remaining) =
     (if finished i then drain_loop finished remote knd remaining
      else [SLog (Log_DrainTimeout remote knd 0)])"

definition drain :: "(nat \<Rightarrow> bool) \<Rightarrow> string \<Rightarrow> string \<Rightarrow> nat \<Rightarrow> seffect list" where
  "drain finished remote knd n = drain_loop finished remote knd [0..<n]"

text \<open>
  The same loop with its clock: \<open>ended i\<close> is the instant at which the \<open>i\<close>-th copy goroutine closes its channel, if it ever does, and
  the timer fires at \<open>deadline\<close>. The result says whether all of them ended in time, and when the loop is left.
\<close>

definition drainCap :: nanos where "drainCap = 2 * Second"

fun drain_wait :: "(nat \<Rightarrow> nanos option) \<Rightarrow> nanos \<Rightarrow> nanos \<Rightarrow> nat list \<Rightarrow> bool \<times> nanos" where
  "drain_wait ended deadline now [] = (True, now)"
| "drain_wait ended deadline now (i # remaining) =
     (case ended i of
        None \<Rightarrow> (False, deadline)
      | Some u \<Rightarrow> if u \<le> deadline then drain_wait ended deadline (max now u) remaining else (False, deadline))"

text \<open>\<^verbatim>\<open>*os.ProcessState\<close>, by what \<^verbatim>\<open>sendExit\<close> asks it.\<close>

datatype process_state =
    PsNil
  | PsForeign int
  | PsSignaled os_signal bool
  | PsExited int
  | PsOther

fun sendExit :: "process_state \<Rightarrow> seffect list" where
  "sendExit PsNil = [SendRequest ''exit-status'' (exitStatusPayload 0)]"
| "sendExit (PsForeign ec) = [SendRequest ''exit-status'' (exitStatusPayload (word_of_int ec))]"
| "sendExit (PsSignaled sig core) =
     (let (name, errMsg) = signalName sig
      in [SendRequest ''exit-signal'' (exitSignalPayload name core errMsg)])"
| "sendExit (PsExited ec) = [SendRequest ''exit-status'' (exitStatusPayload (word_of_int ec))]"
| "sendExit PsOther = [SendRequest ''exit-status'' (exitStatusPayload 0)]"

section \<open>Requests while the child or the SFTP server runs\<close>

definition inflight_request :: "request \<Rightarrow> sessionState \<Rightarrow> seffect list" where
  "inflight_request req st =
     (if rq_Type req = ''window-change'' then handleWindowChange req st
      else if rq_Type req = ''signal'' then []
      else if rq_Type req \<in> {''shell'', ''exec'', ''subsystem''} then reply req False
      else reply req False)"

definition processInflightRequests :: "request list \<Rightarrow> sessionState \<Rightarrow> seffect list" where
  "processInflightRequests reqs st = concat (map (\<lambda>req. inflight_request req st) reqs)"

definition rejectExtraRequests :: "request list \<Rightarrow> seffect list" where
  "rejectExtraRequests reqs = concat (map (\<lambda>req. reply req False) reqs)"

text \<open>
  Two goroutines run side by side; \<open>merge sched\<close> interleaves their effects, each in its own order. A
  \<open>True\<close> of the schedule takes the next effect of the first. Every interleaving is the merge for some
  schedule (\<open>merge_shuffles\<close>).
\<close>

fun merge :: "bool list \<Rightarrow> 'a list \<Rightarrow> 'a list \<Rightarrow> 'a list" where
  "merge sched [] ys = ys"
| "merge sched xs [] = xs"
| "merge [] xs ys = xs @ ys"
| "merge (True # sched) (x # xs) ys = x # merge sched xs ys"
| "merge (False # sched) xs (y # ys) = y # merge sched xs ys"

section \<open>The SFTP runner\<close>

text \<open>
  \<open>served\<close> is what the SFTP server's \<^verbatim>\<open>Serve\<close> returned (no error, \<^verbatim>\<open>io.EOF\<close>, or another error),
  \<open>created\<close> the error of \<^verbatim>\<open>sftp.NewServer\<close>, if any.
\<close>

datatype go_err = NoErr | EOF | Err string

definition defaultSftpHandler :: "string option \<Rightarrow> go_err \<Rightarrow> go_err" where
  "defaultSftpHandler created served =
     (case created of
        Some e \<Rightarrow> Err e
      | None \<Rightarrow> (case served of Err e \<Rightarrow> Err e | _ \<Rightarrow> NoErr))"

datatype sftp_wake = SftpDone go_err | SftpCtxDone

fun sftp_supervisor :: "sftp_wake \<Rightarrow> string \<Rightarrow> seffect list" where
  "sftp_supervisor (SftpDone err) remote =
     (case err of Err e \<Rightarrow> [SLog (Log_Error (''sftp: '' @ e) remote)] | _ \<Rightarrow> [])"
| "sftp_supervisor SftpCtxDone remote = [CloseChannel]"

definition runSftp :: "bool list \<Rightarrow> sftp_wake \<Rightarrow> request list \<Rightarrow> string \<Rightarrow> seffect list" where
  "runSftp sched wake reqs remote = merge sched (rejectExtraRequests reqs) (sftp_supervisor wake remote)"

section \<open>Supervising the child\<close>

text \<open>
  Which of the three channels settles the select of \<^verbatim>\<open>runChild\<close>. \<open>ChanClosed\<close> means that the request
  goroutine has finished, so every request was handled before.
\<close>

datatype wake = CtxDone | ChanClosed | ChildExited

record run_env =
  re_stdinErr :: "string option"
  re_start :: "string + int"
  re_wake :: wake
  re_alive :: "nat \<Rightarrow> bool"
  re_lag :: "nat \<Rightarrow> nat"
  re_now :: nanos
  re_finished :: "nat \<Rightarrow> bool"
  re_ps :: process_state
  re_during :: nat
  re_late :: bool
  re_sched1 :: "bool list"
  re_sched2 :: "bool list"
  re_sftp :: sftp_wake

definition settle :: "run_env \<Rightarrow> childRunner \<Rightarrow> seffect list" where
  "settle e r =
     (case re_wake e of
        CtxDone \<Rightarrow> signalAndKill (re_alive e) (re_lag e) (re_now e) (r_pgid r) ''shutdown''
      | ChanClosed \<Rightarrow> signalAndKill (re_alive e) (re_lag e) (re_now e) (r_pgid r) ''channel-close''
      | ChildExited \<Rightarrow> [])"

text \<open>
  The request goroutine takes up \<open>re_during\<close> requests before the supervisor clears the PTY master and
  the rest after it; within each half the two goroutines interleave freely. A window change resizes the terminal under the mutex and
  replies after it, so the last reply of the first half may fall into the second (\<open>re_late\<close>). That these are
  all the interleavings there are is proved from the steps of the goroutines (\<open>SessionSteps\<close>).
\<close>

definition split_late :: "bool \<Rightarrow> seffect list \<Rightarrow> seffect list \<times> seffect list" where
  "split_late late es =
     (if late \<and> es \<noteq> [] then (case last es of Reply ok \<Rightarrow> (butlast es, [Reply ok]) | _ \<Rightarrow> (es, [])) else (es, []))"

definition runChild :: "run_env \<Rightarrow> request list \<Rightarrow> sessionState \<Rightarrow> childRunner \<Rightarrow> string \<Rightarrow> string \<Rightarrow> seffect list" where
  "runChild e reqs st r knd remote =
     (let drained = drain (re_finished e) remote knd (r_drainDones r);
          st' = (if r_master r \<noteq> None then st\<lparr>st_ptyMaster := None\<rparr> else st);
          killed = (re_wake e \<noteq> ChildExited);
          finish = map CloseFd (r_closers r) @ (if \<not> killed then sendExit (re_ps e) @ [CloseChannel] else [])
      in if re_wake e = ChanClosed
         then processInflightRequests reqs st @ settle e r @ drained @ finish
         else (let (early, late) = split_late (re_late e) (processInflightRequests (take (re_during e) reqs) st)
           in merge (re_sched1 e) early (settle e r @ drained) @
              merge (re_sched2 e) (late @ processInflightRequests (drop (re_during e) reqs) st') finish))"

section \<open>The whole channel\<close>

definition close_pty :: "sessionState \<Rightarrow> seffect list" where
  "close_pty st =
     (case st_ptyMaster st of None \<Rightarrow> [] | Some m \<Rightarrow> [CloseFd m]) @
     (case st_ptySlave st of None \<Rightarrow> [] | Some f \<Rightarrow> [CloseFd f])"

text \<open>
  Phase 2 of \<^verbatim>\<open>Handle\<close>; \<open>rest\<close> are the requests that follow the one that committed the channel. A shell
  or exec spawn always carries a command (\<open>pre_loop_spawn\<close>), so the branch without one is never taken.
\<close>

definition run_spawn ::
  "run_env \<Rightarrow> string \<Rightarrow> spawn \<Rightarrow> request list \<Rightarrow> sessionState \<Rightarrow> seffect list" where
  "run_spawn e remote sp rest st =
     (if sp_kind sp = ''sftp'' then
        reply (sp_req sp) True @ [SLog (Log_Session remote ''sftp'')] @ runSftp (re_sched1 e) (re_sftp e) rest remote
      else (case sp_cmd sp of
          None \<Rightarrow> []
        | Some cmd \<Rightarrow>
            (case startChild (re_stdinErr e) (re_start e) cmd st of
               (es, st, Inl err) \<Rightarrow>
                 es @ reply (sp_req sp) False @ [SLog (Log_Error (''child spawn failed: '' @ err) remote),
                   SendRequest ''exit-status'' (exitStatusPayload 127)]
             | (es, st, Inr runner) \<Rightarrow>
                 es @ reply (sp_req sp) True @ [SLog (Log_Session remote (sp_kind sp))] @
                 runChild e rest st runner (sp_kind sp) remote)))"

text \<open>\<^verbatim>\<open>Handle\<close>, with the deferred close of the channel at its end.\<close>

definition Handle ::
  "Service \<Rightarrow> run_env \<Rightarrow> string \<Rightarrow> (request \<times> (string + fd \<times> fd)) list \<Rightarrow> seffect list res" where
  "Handle s e remote reqs =
     (case pre_loop s remote reqs init_state of
        Inl f \<Rightarrow> Inl f
      | Inr (es, None, rest, st) \<Rightarrow> Inr (es @ close_pty st @ [CloseChannel])
      | Inr (es, Some sp, rest, st) \<Rightarrow> Inr (es @ run_spawn e remote sp rest st @ [CloseChannel]))"

end
