(* ===== verification/SessionProps.thy ===== *)
theory SessionProps
  imports Session
begin

text \<open>
  What a session channel guarantees. Effects are read off a run by projections: the descriptors opened
  and closed, the replies, the requests sent to the client and the signals sent to the process group.
  The lemmas on \<open>merge\<close> say how each projection behaves under every interleaving of the two goroutines;
  those on \<open>pre_loop\<close> are by induction on the requests.
\<close>

section \<open>Interleavings\<close>

lemma merge_Nil2 [simp]: "merge sched xs [] = xs"
  by (cases xs; cases sched) auto

lemma append_in_shuffles: "xs @ ys \<in> shuffles xs ys"
proof (induction xs)
  case (Cons x xs)
  then show ?case by (simp add: Cons_in_shuffles_leftI)
qed simp

lemma merge_shuffles: "zs \<in> shuffles xs ys \<longleftrightarrow> (\<exists>sched. zs = merge sched xs ys)"
proof
  show "zs \<in> shuffles xs ys \<Longrightarrow> \<exists>sched. zs = merge sched xs ys"
  proof (induction xs ys arbitrary: zs rule: shuffles.induct)
    case (3 x xs y ys)
    from "3.prems" consider us where "zs = x # us" "us \<in> shuffles xs (y # ys)"
      | us where "zs = y # us" "us \<in> shuffles (x # xs) ys" by auto
    then show ?case
    proof cases
      case 1
      with "3.IH"(1) obtain sc where "us = merge sc xs (y # ys)" by blast
      with 1 have "zs = merge (True # sc) (x # xs) (y # ys)" by simp
      then show ?thesis by blast
    next
      case 2
      with "3.IH"(2) obtain sc where "us = merge sc (x # xs) ys" by blast
      with 2 have "zs = merge (False # sc) (x # xs) (y # ys)" by simp
      then show ?thesis by blast
    qed
  qed auto
next
  have "merge sc xs ys \<in> shuffles xs ys" for sc
    by (induction sc xs ys rule: merge.induct)
      (auto intro: Cons_in_shuffles_leftI Cons_in_shuffles_rightI append_in_shuffles)
  then show "\<exists>sched. zs = merge sched xs ys \<Longrightarrow> zs \<in> shuffles xs ys" by blast
qed

section \<open>Projections\<close>

fun opens :: "seffect \<Rightarrow> fd list" where
  "opens (OpenPty m f) = [m, f]"
| "opens _ = []"

fun closes :: "seffect \<Rightarrow> fd list" where
  "closes (CloseFd f) = [f]"
| "closes _ = []"

fun answers :: "seffect \<Rightarrow> bool list" where
  "answers (Reply ok) = [ok]"
| "answers _ = []"

fun sends :: "seffect \<Rightarrow> (string \<times> bytes) list" where
  "sends (SendRequest t p) = [(t, p)]"
| "sends _ = []"

fun kills :: "seffect \<Rightarrow> (int \<times> syscall_signal) list" where
  "kills (KillGroup p sig) = [(p, sig)]"
| "kills _ = []"

primrec over :: "(seffect \<Rightarrow> 'b list) \<Rightarrow> seffect list \<Rightarrow> 'b list" where
  "over h [] = []"
| "over h (e # es) = h e @ over h es"

lemma over_append [simp]: "over h (xs @ ys) = over h xs @ over h ys"
  by (induction xs) auto

lemma mset_over_merge:
  "mset (over h (merge sched xs ys)) = mset (over h xs) + mset (over h ys)"
  by (induction sched xs ys rule: merge.induct) auto

lemma length_over_merge:
  "length (over h (merge sched xs ys)) = length (over h xs) + length (over h ys)"
  by (induction sched xs ys rule: merge.induct) auto

lemma over_merge_left:
  "over h xs = [] \<Longrightarrow> over h (merge sched xs ys) = over h ys"
  by (induction sched xs ys rule: merge.induct) auto

named_theorems proj \<open>projections of the effects of each operation\<close>

definition answerable :: "request \<Rightarrow> bool" where
  "answerable req \<longleftrightarrow> rq_WantReply req \<and> rq_Type req \<noteq> ''signal''"

abbreviation n_answerable :: "request list \<Rightarrow> nat" where
  "n_answerable rs \<equiv> length (filter answerable rs)"

lemma over_reply [proj]:
  "over opens (reply req b) = []" "over closes (reply req b) = []" "over sends (reply req b) = []"
  "over kills (reply req b) = []" "over answers (reply req b) = (if rq_WantReply req then [b] else [])"
  by (auto simp: reply_def)

lemma over_Setsize [proj]:
  "opens (Setsize f a b c d) = []" "closes (Setsize f a b c d) = []" "sends (Setsize f a b c d) = []"
  "kills (Setsize f a b c d) = []" "answers (Setsize f a b c d) = []"
  by (auto simp: Setsize_def)

lemma over_handleWindowChange [proj]:
  "over opens (handleWindowChange req st) = []" "over closes (handleWindowChange req st) = []"
  "over sends (handleWindowChange req st) = []" "over kills (handleWindowChange req st) = []"
  "over answers (handleWindowChange req st) = (if rq_WantReply req then [\<not> isl (parseWindowChange (rq_Payload req))] else [])"
  by (auto simp: handleWindowChange_def proj split: sum.splits option.splits)

lemma over_inflight_request [proj]:
  "over opens (inflight_request req st) = []" "over closes (inflight_request req st) = []"
  "over sends (inflight_request req st) = []" "over kills (inflight_request req st) = []"
  "length (over answers (inflight_request req st)) = (if answerable req then 1 else 0)"
  by (auto simp: inflight_request_def answerable_def proj)

lemma over_processInflight [proj]:
  "over opens (processInflightRequests rs st) = []" "over closes (processInflightRequests rs st) = []"
  "over sends (processInflightRequests rs st) = []" "over kills (processInflightRequests rs st) = []"
  "length (over answers (processInflightRequests rs st)) = n_answerable rs"
  by (induction rs) (simp_all add: processInflightRequests_def proj)

lemma over_reject [proj]:
  "over opens (rejectExtraRequests rs) = []" "over closes (rejectExtraRequests rs) = []"
  "over sends (rejectExtraRequests rs) = []" "over kills (rejectExtraRequests rs) = []"
  "length (over answers (rejectExtraRequests rs)) = length (filter rq_WantReply rs)"
  by (induction rs) (simp_all add: rejectExtraRequests_def proj)

lemma over_drain [proj]:
  "over opens (drain fin remote knd n) = []" "over closes (drain fin remote knd n) = []"
  "over sends (drain fin remote knd n) = []" "over kills (drain fin remote knd n) = []"
  "over answers (drain fin remote knd n) = []"
proof -
  have "over opens (drain_loop fin remote knd xs) = [] \<and> over closes (drain_loop fin remote knd xs) = [] \<and>
    over sends (drain_loop fin remote knd xs) = [] \<and> over kills (drain_loop fin remote knd xs) = [] \<and>
    over answers (drain_loop fin remote knd xs) = []" for xs
    by (induction xs) auto
  then show "over opens (drain fin remote knd n) = []" "over closes (drain fin remote knd n) = []"
    "over sends (drain fin remote knd n) = []" "over kills (drain fin remote knd n) = []"
    "over answers (drain fin remote knd n) = []"
    by (simp_all add: drain_def)
qed

lemma over_signalAndKill [proj]:
  "over opens (signalAndKill al lag now p why) = []" "over closes (signalAndKill al lag now p why) = []"
  "over sends (signalAndKill al lag now p why) = []" "over answers (signalAndKill al lag now p why) = []"
  "over kills (signalAndKill al lag now p why) =
     (p, SIGHUP) # (if fst (kill_wait al lag (now + shutdownGrace) now 0) then [(p, SIGKILL)] else [])"
  by (simp_all add: signalAndKill_def)

lemma over_settle [proj]:
  "over opens (settle e r) = []" "over closes (settle e r) = []"
  "over sends (settle e r) = []" "over answers (settle e r) = []"
  by (simp_all add: settle_def proj split: wake.split)

lemma over_sendExit [proj]:
  "over opens (sendExit ps) = []" "over closes (sendExit ps) = []"
  "over kills (sendExit ps) = []" "over answers (sendExit ps) = []"
  "over sends (sendExit ps) = map (\<lambda>e. case e of SendRequest t p \<Rightarrow> (t, p)) (sendExit ps)"
  by (cases ps; simp add: case_prod_beta)+

lemma over_CloseFd [proj]:
  "over opens (map CloseFd fs) = []" "over closes (map CloseFd fs) = fs" "over sends (map CloseFd fs) = []"
  "over kills (map CloseFd fs) = []" "over answers (map CloseFd fs) = []"
  by (induction fs) auto

section \<open>The requests before the child\<close>

definition pty_fds :: "sessionState \<Rightarrow> fd list" where
  "pty_fds st = (case st_ptyMaster st of None \<Rightarrow> [] | Some m \<Rightarrow> [m]) @ (case st_ptySlave st of None \<Rightarrow> [] | Some f \<Rightarrow> [f])"

text \<open>The invariant of the per-channel state before the child starts.\<close>

definition env_ok :: "(string \<times> string) list \<Rightarrow> bool" where
  "env_ok al \<longleftrightarrow> distinct (map fst al) \<and> fst ` set al \<subseteq> Collect filterEnv"

lemma env_ok_Nil [simp]: "env_ok []"
  by (simp add: env_ok_def)

lemma env_ok_update [simp]: "env_ok al \<Longrightarrow> filterEnv k \<Longrightarrow> env_ok (AList.update k v al)"
  by (simp add: env_ok_def distinct_update dom_update)

definition session_ok :: "sessionState \<Rightarrow> bool" where
  "session_ok st \<longleftrightarrow>
     (st_pty st = None \<longleftrightarrow> st_ptyMaster st = None) \<and> (st_pty st = None \<longleftrightarrow> st_ptySlave st = None) \<and>
     env_ok (st_envFromCh st) \<and> \<not> st_started st"

definition spawn_ok :: "spawn \<Rightarrow> bool" where
  "spawn_ok sp \<longleftrightarrow>
     (sp_kind sp = ''sftp'' \<and> sp_cmd sp = None \<or> sp_kind sp \<in> {''shell'', ''exec''} \<and> sp_cmd sp \<noteq> None) \<and>
     rq_Type (sp_req sp) \<noteq> ''signal''"

definition spawn_wants :: "spawn option \<Rightarrow> nat" where
  "spawn_wants sp = (case sp of None \<Rightarrow> 0 | Some s \<Rightarrow> if rq_WantReply (sp_req s) then 1 else 0)"

text \<open>What one request or a run of requests does: the shape every lemma on the first phase has.\<close>

definition phase1 :: "sessionState \<Rightarrow> seffect list \<Rightarrow> spawn option \<Rightarrow> sessionState \<Rightarrow> request list \<Rightarrow> bool" where
  "phase1 st es sp st' rs \<longleftrightarrow>
     session_ok st' \<and> (\<forall>s. sp = Some s \<longrightarrow> spawn_ok s) \<and>
     over closes es = [] \<and> over sends es = [] \<and> over kills es = [] \<and>
     pty_fds st' = pty_fds st @ over opens es \<and>
     length (over answers es) + spawn_wants sp = n_answerable rs"

lemma session_ok_init [simp]: "session_ok init_state"
  by (simp add: session_ok_def init_state_def)

lemma handlePtyReq_phase1:
  assumes "handlePtyReq req alloc remote st = Inr (es, st')" and "session_ok st" and "rq_Type req \<noteq> ''signal''"
  shows "phase1 st es None st' [req]"
  using assms
  by (auto simp: handlePtyReq_def phase1_def session_ok_def pty_fds_def spawn_wants_def answerable_def proj
      split: if_splits sum.splits go_fail.splits prod.splits)

lemma handleEnv_phase1:
  assumes "handleEnv req st = Inr (es, st')" and "session_ok st" and "rq_Type req \<noteq> ''signal''"
  shows "phase1 st es None st' [req]"
  using assms
  by (auto simp: handleEnv_def phase1_def session_ok_def pty_fds_def spawn_wants_def answerable_def proj
      split: if_splits sum.splits go_fail.splits)

lemma phase1_quiet:
  assumes "session_ok st" and "over opens es = []" and "over closes es = []" and "over sends es = []" and "over kills es = []"
    and "length (over answers es) = (if answerable req then 1 else 0)"
  shows "phase1 st es None st [req]"
  using assms by (simp add: phase1_def spawn_wants_def)

lemma phase1_spawn:
  assumes "session_ok st" and "spawn_ok sp" and "sp_req sp = req"
  shows "phase1 st [] (Some sp) st [req]"
  using assms by (simp add: phase1_def spawn_wants_def answerable_def spawn_ok_def)

lemma preSpawnDispatch_phase1:
  assumes "preSpawnDispatch s remote req alloc st = Inr (es, sp, st')" and "session_ok st"
  shows "phase1 st es sp st' [req]"
proof -
  consider "rq_Type req = ''pty-req''" | "rq_Type req = ''env''"
    | "rq_Type req \<noteq> ''pty-req''" "rq_Type req \<noteq> ''env''" by blast
  then show ?thesis
  proof cases
    case 1
    with assms show ?thesis
      by (auto simp: preSpawnDispatch_def split: sum.splits intro!: handlePtyReq_phase1)
  next
    case 2
    with assms show ?thesis
      by (auto simp: preSpawnDispatch_def split: sum.splits intro!: handleEnv_phase1)
  next
    case 3
    with assms show ?thesis
      by (auto simp: preSpawnDispatch_def proj answerable_def spawn_ok_def
          split: if_splits sum.splits go_fail.splits intro!: phase1_quiet phase1_spawn)
  qed
qed

lemma phase1_trans:
  assumes "phase1 st es None st1 rs" and "phase1 st1 es' sp st2 rs'"
  shows "phase1 st (es @ es') sp st2 (rs @ rs')"
  using assms by (simp add: phase1_def spawn_wants_def)

text \<open>The loop handles a prefix of the requests; nothing remains unless a spawn was decided.\<close>

lemma pre_loop_phase1:
  assumes "pre_loop s remote reqs st = Inr (es, sp, rest, st')" and "session_ok st"
  shows "\<exists>pre. map fst reqs = pre @ rest \<and> phase1 st es sp st' pre \<and> (sp = None \<longrightarrow> rest = [])"
  using assms
proof (induction s remote reqs st arbitrary: es rule: pre_loop.induct)
  case (1 s remote st)
  then show ?case by (simp add: phase1_def spawn_wants_def)
next
  case (2 s remote req alloc rs st)
  from "2.prems" obtain es1 sp1 st1 where d: "preSpawnDispatch s remote req alloc st = Inr (es1, sp1, st1)"
    by (auto split: sum.splits)
  note p = preSpawnDispatch_phase1 [OF d "2.prems"(2)]
  show ?case
  proof (cases sp1)
    case (Some s1)
    with d p "2.prems" show ?thesis by auto
  next
    case None
    with d "2.prems" obtain es2 where l: "pre_loop s remote rs st1 = Inr (es2, sp, rest, st')" and e: "es = es1 @ es2"
      by (auto split: sum.splits)
    from p have "session_ok st1" by (simp add: phase1_def)
    from "2.IH" [OF d refl refl None l this] obtain pre where
      "map fst rs = pre @ rest" "phase1 st1 es2 sp st' pre" "sp = None \<longrightarrow> rest = []" by auto
    with p None e show ?thesis
      by (intro exI [of _ "req # pre"]) (auto dest: phase1_trans [of st es1 st1 "[req]"])
  qed
qed

section \<open>The child and the SFTP server\<close>

text \<open>The command of a spawn starts: its name was resolved, the system starts it, and without a PTY its pipe was made.\<close>

definition child_started :: "run_env \<Rightarrow> spawn \<Rightarrow> sessionState \<Rightarrow> bool" where
  "child_started e sp st \<longleftrightarrow> (case sp_cmd sp of
     None \<Rightarrow> False
   | Some cmd \<Rightarrow> \<not> isl (cmd_Start cmd (re_start e)) \<and> (st_pty st = None \<longrightarrow> re_stdinErr e = None))"

lemma cmd_Start_simps [simp]:
  "cmd_Start (cmd\<lparr>c_stdio := a, c_SysProcAttr := b\<rparr>) start = cmd_Start cmd start"
  by (simp add: cmd_Start_def)

lemma startChild_PTY:
  assumes "st_pty st = Some pr" and "st_ptyMaster st = Some m" and "st_ptySlave st = Some f"
  shows "cmd_Start cmd start = Inl err \<Longrightarrow> startChild se start cmd st = ([CloseFd m], st\<lparr>st_started := True\<rparr>, Inl err)"
    and "cmd_Start cmd start = Inr pid \<Longrightarrow> startChild se start cmd st = ([CloseFd f], st\<lparr>st_started := True\<rparr>,
      Inr \<lparr> r_cmd = cmd\<lparr>c_stdio := PtyStdio f, c_SysProcAttr := Some (case c_SysProcAttr cmd of
            None \<Rightarrow> newPtySysProcAttr | Some a \<Rightarrow> applyPtySysProcAttr a)\<rparr>,
        r_pgid = pid, r_master = Some m, r_closers = [m], r_drainDones = 1 \<rparr>)"
  using assms by (simp_all add: startChild_def startWithPTY_def)

lemma startChild_pipes:
  assumes "st_pty st = None"
  shows "startChild (Some err) start cmd st = ([], st\<lparr>st_started := True\<rparr>, Inl err)"
    and "cmd_Start cmd start = Inl err \<Longrightarrow> startChild None start cmd st = ([CloseStdin], st\<lparr>st_started := True\<rparr>, Inl err)"
    and "cmd_Start cmd start = Inr pid \<Longrightarrow> startChild None start cmd st = ([], st\<lparr>st_started := True\<rparr>,
      Inr \<lparr> r_cmd = cmd\<lparr>c_stdio := PipeStdio, c_SysProcAttr := Some newPipeSysProcAttr\<rparr>,
        r_pgid = pid, r_master = None, r_closers = [], r_drainDones = 0 \<rparr>)"
  using assms by (simp_all add: startChild_def)

lemma session_ok_cases:
  assumes "session_ok st"
  obtains "st_pty st = None" "st_ptyMaster st = None" "st_ptySlave st = None" "pty_fds st = []"
  | pr m f where "st_pty st = Some pr" "st_ptyMaster st = Some m" "st_ptySlave st = Some f" "pty_fds st = [m, f]"
  using assms by (cases "st_pty st"; cases "st_ptyMaster st"; cases "st_ptySlave st")
    (auto simp: session_ok_def pty_fds_def)

lemma n_answerable_split: "n_answerable (take n rs) + n_answerable (drop n rs) = n_answerable rs"
  by (simp flip: length_append filter_append)

lemma split_late_append: "fst (split_late b es) @ snd (split_late b es) = es"
  by (cases "b \<and> es \<noteq> []") (auto simp: split_late_def split: seffect.split dest: sym [OF append_butlast_last_id])

text \<open>A run of the supervisor against the requests: the effects of the requests are split in two, and each part is merged.\<close>

lemma runChild_parts:
  assumes "re_wake e \<noteq> ChanClosed"
  obtains early late where
    "early @ late = processInflightRequests (take (re_during e) rs) st @
       processInflightRequests (drop (re_during e) rs) (if r_master r \<noteq> None then st\<lparr>st_ptyMaster := None\<rparr> else st)"
    "runChild e rs st r knd remote = merge (re_sched1 e) early (settle e r @ drain (re_finished e) remote knd (r_drainDones r)) @
       merge (re_sched2 e) late (map CloseFd (r_closers r) @
         (if re_wake e = ChildExited then sendExit (re_ps e) @ [CloseChannel] else []))"
proof -
  let ?p = "processInflightRequests (take (re_during e) rs) st"
  have "fst (split_late (re_late e) ?p) @ snd (split_late (re_late e) ?p) @ qs = ?p @ qs" for qs
    using split_late_append [of "re_late e" ?p] by (simp flip: append_assoc)
  then show thesis
    using that [of "fst (split_late (re_late e) ?p)" "snd (split_late (re_late e) ?p) @
        processInflightRequests (drop (re_during e) rs) (if r_master r \<noteq> None then st\<lparr>st_ptyMaster := None\<rparr> else st)"] assms
    by (simp add: runChild_def Let_def split_beta)
qed

lemma over_split:
  assumes "a @ b = xs @ ys" and "over h xs = []" and "over h ys = []"
  shows "over h a = []" and "over h b = []"
  using arg_cong [OF assms(1), of "over h"] assms(2,3) by simp_all

lemma over_runChild:
  "over opens (runChild e rs st r knd remote) = []"
  "over closes (runChild e rs st r knd remote) = r_closers r"
  "over sends (runChild e rs st r knd remote) = (if re_wake e = ChildExited then over sends (sendExit (re_ps e)) else [])"
  "over kills (runChild e rs st r knd remote) = over kills (settle e r)"
  "length (over answers (runChild e rs st r knd remote)) = n_answerable rs"
proof -
  let ?run = "runChild e rs st r knd remote"
  have "over opens ?run = [] \<and> over closes ?run = r_closers r \<and>
    over sends ?run = (if re_wake e = ChildExited then over sends (sendExit (re_ps e)) else []) \<and>
    over kills ?run = over kills (settle e r) \<and> length (over answers ?run) = n_answerable rs"
  proof (cases "re_wake e = ChanClosed")
    case True
    then show ?thesis by (simp add: runChild_def Let_def proj)
  next
    case False
    obtain a b where ab: "a @ b = processInflightRequests (take (re_during e) rs) st @
        processInflightRequests (drop (re_during e) rs) (if r_master r \<noteq> None then st\<lparr>st_ptyMaster := None\<rparr> else st)"
      and run: "?run = merge (re_sched1 e) a (settle e r @ drain (re_finished e) remote knd (r_drainDones r)) @
        merge (re_sched2 e) b (map CloseFd (r_closers r) @ (if re_wake e = ChildExited then sendExit (re_ps e) @ [CloseChannel] else []))"
      using runChild_parts [OF False] by blast
    have "length (over answers a) + length (over answers b) = n_answerable rs"
      using arg_cong [OF ab, of "\<lambda>xs. length (over answers xs)"] n_answerable_split [of "re_during e" rs] by (simp add: proj)
    moreover note q = over_split [OF ab]
    ultimately show ?thesis
      by (simp add: run over_merge_left length_over_merge proj q [OF over_processInflight(1) over_processInflight(1)]
          q [OF over_processInflight(2) over_processInflight(2)] q [OF over_processInflight(3) over_processInflight(3)]
          q [OF over_processInflight(4) over_processInflight(4)])
  qed
  then show "over opens ?run = []" "over closes ?run = r_closers r"
    "over sends ?run = (if re_wake e = ChildExited then over sends (sendExit (re_ps e)) else [])"
    "over kills ?run = over kills (settle e r)" "length (over answers ?run) = n_answerable rs" by blast+
qed

lemma over_runSftp:
  "over opens (runSftp sched w rs remote) = []" "over closes (runSftp sched w rs remote) = []"
  "over sends (runSftp sched w rs remote) = []" "over kills (runSftp sched w rs remote) = []"
  "length (over answers (runSftp sched w rs remote)) = length (filter rq_WantReply rs)"
proof -
  have q: "over opens (sftp_supervisor w remote) = []" "over closes (sftp_supervisor w remote) = []"
    "over sends (sftp_supervisor w remote) = []" "over kills (sftp_supervisor w remote) = []"
    "over answers (sftp_supervisor w remote) = []"
    by (cases w; simp split: go_err.split)+
  show "over opens (runSftp sched w rs remote) = []" "over closes (runSftp sched w rs remote) = []"
    "over sends (runSftp sched w rs remote) = []" "over kills (runSftp sched w rs remote) = []"
    "length (over answers (runSftp sched w rs remote)) = length (filter rq_WantReply rs)"
    by (simp_all add: runSftp_def over_merge_left length_over_merge proj q)
qed

definition is_sftp :: "spawn \<Rightarrow> bool" where
  "is_sftp sp \<longleftrightarrow> sp_kind sp = ''sftp''"

lemma spawn_ok_cases:
  assumes "spawn_ok sp"
  obtains "is_sftp sp" | cmd where "\<not> is_sftp sp" "sp_kind sp \<in> {''shell'', ''exec''}" "sp_cmd sp = Some cmd"
  using assms by (auto simp: spawn_ok_def is_sftp_def)

text \<open>The three ways phase 2 can go: SFTP, a failed start, a supervised child.\<close>

lemma run_spawn_sftp:
  "is_sftp sp \<Longrightarrow> run_spawn e remote sp rest st =
     reply (sp_req sp) True @ [SLog (Log_Session remote ''sftp'')] @ runSftp (re_sched1 e) (re_sftp e) rest remote"
  by (simp add: run_spawn_def is_sftp_def)

lemma run_spawn_failed:
  assumes "spawn_ok sp" and "\<not> is_sftp sp" and "session_ok st" and "\<not> child_started e sp st"
  obtains err es where "over opens es = []" "over sends es = []" "over kills es = []" "over answers es = []" "CloseChannel \<notin> set es"
    "over closes es = (case st_ptyMaster st of None \<Rightarrow> [] | Some m \<Rightarrow> [m])"
    "run_spawn e remote sp rest st = es @ reply (sp_req sp) False @
       [SLog (Log_Error (''child spawn failed: '' @ err) remote), SendRequest ''exit-status'' (exitStatusPayload 127)]"
proof -
  from assms(1,2) obtain cmd where c: "sp_cmd sp = Some cmd" by (auto elim: spawn_ok_cases)
  have k: "sp_kind sp \<noteq> ''sftp''" using assms(2) by (simp add: is_sftp_def)
  from assms(3) show thesis
  proof (cases rule: session_ok_cases)
    case 1
    then consider err where "re_stdinErr e = Some err" | err where "re_stdinErr e = None" "cmd_Start cmd (re_start e) = Inl err"
      using assms(4) c by (cases "re_stdinErr e"; cases "cmd_Start cmd (re_start e)") (auto simp: child_started_def)
    then show ?thesis
    proof cases
      case 1
      then show ?thesis
        using that [of "[]"] \<open>st_pty st = None\<close> \<open>st_ptyMaster st = None\<close> c k by (simp add: run_spawn_def startChild_pipes)
    next
      case 2
      then show ?thesis
        using that [of "[CloseStdin]"] \<open>st_pty st = None\<close> \<open>st_ptyMaster st = None\<close> c k by (simp add: run_spawn_def startChild_pipes)
    qed
  next
    case (2 pr m f)
    moreover from this assms(4) c obtain err where "cmd_Start cmd (re_start e) = Inl err"
      by (cases "cmd_Start cmd (re_start e)") (auto simp: child_started_def)
    ultimately show ?thesis
      using that [of "[CloseFd m]"] c k by (simp add: run_spawn_def startChild_PTY)
  qed
qed

lemma run_spawn_started:
  assumes "spawn_ok sp" and "\<not> is_sftp sp" and "session_ok st" and "child_started e sp st"
  obtains r es where "over opens es = []" "over sends es = []" "over kills es = []" "over answers es = []" "CloseChannel \<notin> set es"
    "mset (over closes es @ r_closers r) = mset (pty_fds st)" "r_pgid r = projr (cmd_Start (the (sp_cmd sp)) (re_start e))"
    "r_drainDones r = (if st_pty st = None then 0 else 1)"
    "c_SysProcAttr (r_cmd r) = Some \<lparr> Setsid = True, Setctty = (st_pty st \<noteq> None) \<rparr>"
    "run_spawn e remote sp rest st = es @ reply (sp_req sp) True @ [SLog (Log_Session remote (sp_kind sp))] @
       runChild e rest (st\<lparr>st_started := True\<rparr>) r (sp_kind sp) remote"
proof -
  from assms(1,2) obtain cmd where c: "sp_cmd sp = Some cmd" by (auto elim: spawn_ok_cases)
  have k: "sp_kind sp \<noteq> ''sftp''" using assms(2) by (simp add: is_sftp_def)
  from assms(4) c obtain pid where p: "cmd_Start cmd (re_start e) = Inr pid"
    by (cases "cmd_Start cmd (re_start e)") (auto simp: child_started_def)
  from assms(3) show thesis
  proof (cases rule: session_ok_cases)
    case 1
    with assms(4) show ?thesis
      using that [of "[]" "\<lparr> r_cmd = cmd\<lparr>c_stdio := PipeStdio, c_SysProcAttr := Some newPipeSysProcAttr\<rparr>,
        r_pgid = pid, r_master = None, r_closers = [], r_drainDones = 0 \<rparr>"] c k p
      by (simp add: run_spawn_def startChild_pipes child_started_def newPipeSysProcAttr_def)
  next
    case (2 pr m f)
    then show ?thesis
      using that [of "[CloseFd f]" "\<lparr> r_cmd = cmd\<lparr>c_stdio := PtyStdio f, c_SysProcAttr := Some (case c_SysProcAttr cmd of
            None \<Rightarrow> newPtySysProcAttr | Some a \<Rightarrow> applyPtySysProcAttr a)\<rparr>,
        r_pgid = pid, r_master = Some m, r_closers = [m], r_drainDones = 1 \<rparr>"] c k p
      by (simp add: run_spawn_def startChild_PTY newPtySysProcAttr_def applyPtySysProcAttr_def split: option.splits)
  qed
qed

section \<open>The whole channel\<close>

lemma pty_fds_init [simp]: "pty_fds init_state = []"
  by (simp add: pty_fds_def init_state_def)

lemma over_close_pty [proj]:
  "over closes (close_pty st) = pty_fds st" "over opens (close_pty st) = []" "over sends (close_pty st) = []"
  "over kills (close_pty st) = []" "over answers (close_pty st) = []"
  by (simp_all add: close_pty_def pty_fds_def split: option.split)

lemma HandleE:
  assumes "Handle s e remote reqs = Inr es"
  obtains (no_spawn) es1 st where "pre_loop s remote reqs init_state = Inr (es1, None, [], st)"
      "phase1 init_state es1 None st (map fst reqs)" "es = es1 @ close_pty st @ [CloseChannel]"
  | (spawned) es1 sp rest st pre where "pre_loop s remote reqs init_state = Inr (es1, Some sp, rest, st)"
      "map fst reqs = pre @ rest" "phase1 init_state es1 (Some sp) st pre" "spawn_ok sp" "session_ok st"
      "es = es1 @ run_spawn e remote sp rest st @ [CloseChannel]"
proof -
  from assms obtain es1 sp rest st where p: "pre_loop s remote reqs init_state = Inr (es1, sp, rest, st)"
    by (auto simp: Handle_def split: sum.splits)
  from pre_loop_phase1 [OF p] obtain pre where m: "map fst reqs = pre @ rest" and ph: "phase1 init_state es1 sp st pre"
    and r: "sp = None \<longrightarrow> rest = []" by auto
  show thesis
  proof (cases sp)
    case None
    with p m ph r assms show ?thesis by (intro no_spawn) (auto simp: Handle_def)
  next
    case (Some s1)
    with p m ph assms show ?thesis by (intro spawned) (auto simp: Handle_def phase1_def)
  qed
qed

text \<open>The descriptors a spawn closes.\<close>

definition spawn_closes :: "run_env \<Rightarrow> spawn \<Rightarrow> sessionState \<Rightarrow> fd list" where
  "spawn_closes e sp st =
     (if is_sftp sp then [] else if child_started e sp st then pty_fds st
      else (case st_ptyMaster st of None \<Rightarrow> [] | Some m \<Rightarrow> [m]))"

lemma run_spawn_fds:
  assumes "spawn_ok sp" and "session_ok st"
  shows "over opens (run_spawn e remote sp rest st) = []"
    and "mset (over closes (run_spawn e remote sp rest st)) = mset (spawn_closes e sp st)"
proof -
  have "over opens (run_spawn e remote sp rest st) = [] \<and>
    mset (over closes (run_spawn e remote sp rest st)) = mset (spawn_closes e sp st)"
  proof (cases "is_sftp sp")
    case True
    then show ?thesis by (simp add: run_spawn_sftp proj over_runSftp spawn_closes_def)
  next
    case False
    show ?thesis
    proof (cases "child_started e sp st")
      case True
      obtain r es where "over opens es = []" "mset (over closes es @ r_closers r) = mset (pty_fds st)"
        "run_spawn e remote sp rest st = es @ reply (sp_req sp) True @ [SLog (Log_Session remote (sp_kind sp))] @
          runChild e rest (st\<lparr>st_started := True\<rparr>) r (sp_kind sp) remote"
        by (rule run_spawn_started [OF assms(1) False assms(2) True, of remote rest])
      then show ?thesis by (simp add: proj over_runChild spawn_closes_def False True)
    next
      case started: False
      obtain err es where "over opens es = []" "over closes es = (case st_ptyMaster st of None \<Rightarrow> [] | Some m \<Rightarrow> [m])"
        "run_spawn e remote sp rest st = es @ reply (sp_req sp) False @
          [SLog (Log_Error (''child spawn failed: '' @ err) remote), SendRequest ''exit-status'' (exitStatusPayload 127)]"
        by (rule run_spawn_failed [OF assms(1) False assms(2) started, of remote rest])
      then show ?thesis by (simp add: proj spawn_closes_def False started)
    qed
  qed
  then show "over opens (run_spawn e remote sp rest st) = []"
    and "mset (over closes (run_spawn e remote sp rest st)) = mset (spawn_closes e sp st)" by simp_all
qed

text \<open>
  C9: Descriptor accounting of a session channel. Whatever the requests, the interleaving and the
  outcome, the channel opens at most the one PTY pair recorded in its state, and it closes each end
  exactly once when no child was requested and when a child was started. When the start of a child with
  a PTY fails only the master is closed, and when SFTP was requested after a pty-req neither end is:
  those descriptors stay open until the garbage collector finalises them.\<close>
theorem Handle_descriptors:
  assumes "pre_loop s remote reqs init_state = Inr (es1, sp, rest, st)"
    and "Handle s e remote reqs = Inr es"
  shows "over opens es = pty_fds st \<and>
    mset (over closes es) = mset (case sp of
        None \<Rightarrow> pty_fds st
      | Some p \<Rightarrow> if is_sftp p then [] else if child_started e p st then pty_fds st
          else (case st_ptyMaster st of None \<Rightarrow> [] | Some m \<Rightarrow> [m]))"
  using assms(2)
proof (cases rule: HandleE)
  case (no_spawn es2 st2)
  from no_spawn(1) assms(1) have "sp = None" "st = st2" by simp_all
  with no_spawn show ?thesis by (simp add: phase1_def proj)
next
  case (spawned es2 sp2 rest2 st2 pre)
  from spawned(1) assms(1) have "sp = Some sp2" "st = st2" by simp_all
  with spawned run_spawn_fds [OF spawned(4,5), of e remote rest2] show ?thesis
    by (simp add: phase1_def spawn_closes_def)
qed

definition sample_service :: Service where
  "sample_service = \<lparr> Shell = ''/bin/zsh'', hostEnv = [''HOME=/home/me'', ''MINISSHD_PASS=secret'', ''LANG=C''],
     os_PATH = ''/usr/bin:/bin'', os_executable = (\<lambda>p. p = ''/bin/zsh''), os_look_text = (\<lambda>_ n. n) \<rparr>"

definition sample_run :: run_env where
  "sample_run = \<lparr> re_stdinErr = None, re_start = Inr 42, re_wake = ChildExited, re_alive = (\<lambda>_. False),
     re_lag = (\<lambda>_. 0), re_now = 0, re_finished = (\<lambda>_. True), re_ps = PsExited 3, re_during = 1,
     re_late = False, re_sched1 = [False, True], re_sched2 = [True], re_sftp = SftpDone NoErr \<rparr>"

definition sample_pty :: "request \<times> (string + fd \<times> fd)" where
  "sample_pty = (\<lparr> rq_Type = ''pty-req'', rq_WantReply = True,
     rq_Payload = put_string ''xterm'' @ PutUint32 80 @ PutUint32 24 @ PutUint32 0 @ PutUint32 0 @ put_string '''' \<rparr>, Inr (7, 8))"

definition sample_req :: "string \<Rightarrow> bool \<Rightarrow> request \<times> (string + fd \<times> fd)" where
  "sample_req t w = (\<lparr> rq_Type = t, rq_WantReply = w, rq_Payload = [] \<rparr>, Inl '''')"

definition sample_reqs :: "(request \<times> (string + fd \<times> fd)) list" where
  "sample_reqs = [sample_pty, sample_req ''shell'' True, sample_req ''exec'' True, sample_req ''signal'' False]"

definition sample_pre :: "seffect list \<times> spawn option \<times> request list \<times> sessionState" where
  "sample_pre = projr (pre_loop sample_service ''r'' sample_reqs init_state)"

theorem Handle_descriptors_witness:
  "over opens (projr (Handle sample_service (sample_run\<lparr>re_start := Inl ''e''\<rparr>) ''r'' sample_reqs)) = [7, 8] \<and>
   mset (over closes (projr (Handle sample_service (sample_run\<lparr>re_start := Inl ''e''\<rparr>) ''r'' sample_reqs))) = {#7#}"
proof -
  have "pre_loop sample_service ''r'' sample_reqs init_state =
    Inr (fst sample_pre, fst (snd sample_pre), fst (snd (snd sample_pre)), snd (snd (snd sample_pre)))"
    by code_simp
  moreover have "Handle sample_service (sample_run\<lparr>re_start := Inl ''e''\<rparr>) ''r'' sample_reqs =
    Inr (projr (Handle sample_service (sample_run\<lparr>re_start := Inl ''e''\<rparr>) ''r'' sample_reqs))"
    by code_simp
  moreover have "pty_fds (snd (snd (snd sample_pre))) = [7, 8]" by code_simp
  moreover have "map_option is_sftp (fst (snd sample_pre)) = Some False" by code_simp
  moreover have "st_ptyMaster (snd (snd (snd sample_pre))) = Some 7" by code_simp
  moreover have "\<not> child_started (sample_run\<lparr>re_start := Inl ''e''\<rparr>) (the (fst (snd sample_pre))) (snd (snd (snd sample_pre)))" by code_simp
  ultimately show ?thesis
    using Handle_descriptors [of sample_service "''r''" sample_reqs "fst sample_pre" "fst (snd sample_pre)"
        "fst (snd (snd sample_pre))" "snd (snd (snd sample_pre))" "sample_run\<lparr>re_start := Inl ''e''\<rparr>"]
    by auto
qed

section \<open>Replies\<close>

text \<open>The requests after the one that asked for SFTP or a child, as far as they are answered.\<close>

definition later_answers :: "run_env \<Rightarrow> spawn \<Rightarrow> request list \<Rightarrow> sessionState \<Rightarrow> nat" where
  "later_answers e sp rest st =
     (if is_sftp sp then length (filter rq_WantReply rest)
      else if child_started e sp st then length (filter (\<lambda>r. rq_WantReply r \<and> rq_Type r \<noteq> ''signal'') rest) else 0)"

lemma run_spawn_answers:
  assumes "spawn_ok sp" and "session_ok st"
  shows "length (over answers (run_spawn e remote sp rest st)) = spawn_wants (Some sp) + later_answers e sp rest st"
proof (cases "is_sftp sp")
  case True
  then show ?thesis by (simp add: run_spawn_sftp proj over_runSftp spawn_wants_def later_answers_def)
next
  case False
  show ?thesis
  proof (cases "child_started e sp st")
    case True
    obtain r es where "over answers es = []"
      "run_spawn e remote sp rest st = es @ reply (sp_req sp) True @ [SLog (Log_Session remote (sp_kind sp))] @
        runChild e rest (st\<lparr>st_started := True\<rparr>) r (sp_kind sp) remote"
      by (rule run_spawn_started [OF assms(1) False assms(2) True, of remote rest])
    then show ?thesis by (simp add: proj over_runChild spawn_wants_def later_answers_def False True answerable_def [abs_def])
  next
    case started: False
    obtain err es where "over answers es = []"
      "run_spawn e remote sp rest st = es @ reply (sp_req sp) False @
        [SLog (Log_Error (''child spawn failed: '' @ err) remote), SendRequest ''exit-status'' (exitStatusPayload 127)]"
      by (rule run_spawn_failed [OF assms(1) False assms(2) started, of remote rest])
    then show ?thesis by (simp add: proj spawn_wants_def later_answers_def False started)
  qed
qed

text \<open>
  C11: How many replies a channel sends, exactly. Up to and including the request that asks for a shell, a command or SFTP, every request that wants a reply gets one,
  except signal requests, which are never answered there. Of the later requests, those that want a reply get one each while
  SFTP is served; while a child runs and after it, the signal requests among them are again left out; and when the child does not start
  none is answered. This holds under every interleaving of the two goroutines.\<close>
theorem Handle_replies:
  assumes "pre_loop s remote reqs init_state = Inr (es1, sp, rest, st)" and "Handle s e remote reqs = Inr es"
  shows "\<exists>early. map fst reqs = early @ rest \<and>
    length (over answers es) = length (filter (\<lambda>r. rq_WantReply r \<and> rq_Type r \<noteq> ''signal'') early) +
      (case sp of
         None \<Rightarrow> 0
       | Some p \<Rightarrow>
           if sp_kind p = ''sftp'' then length (filter rq_WantReply rest)
           else if child_started e p st then length (filter (\<lambda>r. rq_WantReply r \<and> rq_Type r \<noteq> ''signal'') rest) else 0)"
  using assms(2)
proof (cases rule: HandleE)
  case (no_spawn es2 st2)
  from no_spawn(1) assms(1) have "sp = None" "rest = []" by simp_all
  with no_spawn show ?thesis
    by (simp add: phase1_def proj spawn_wants_def answerable_def [abs_def])
next
  case (spawned es2 sp2 rest2 st2 early)
  from spawned(1) assms(1) have eq: "sp = Some sp2" "st = st2" "rest = rest2" by simp_all
  from spawned(3) have "length (over answers es2) + spawn_wants (Some sp2) = n_answerable early"
    by (simp add: phase1_def)
  with run_spawn_answers [OF spawned(4,5), of e remote rest2] spawned(2,6) eq show ?thesis
    by (intro exI [of _ early]) (simp add: later_answers_def is_sftp_def answerable_def [abs_def])
qed

text \<open>A shell with a PTY, then a second command, a window change and a signal that all want a reply.\<close>

definition sample_more :: "(request \<times> (string + fd \<times> fd)) list" where
  "sample_more = [sample_pty, sample_req ''shell'' True, sample_req ''exec'' True, sample_req ''signal'' True]"

definition sample_more_pre :: "seffect list \<times> spawn option \<times> request list \<times> sessionState" where
  "sample_more_pre = projr (pre_loop sample_service ''r'' sample_more init_state)"

theorem Handle_replies_witness:
  "\<exists>early. map fst sample_more = early @ fst (snd (snd sample_more_pre)) \<and>
    length (over answers (projr (Handle sample_service sample_run ''r'' sample_more))) =
      length (filter (\<lambda>r. rq_WantReply r \<and> rq_Type r \<noteq> ''signal'') early) + 1"
proof -
  have "pre_loop sample_service ''r'' sample_more init_state =
    Inr (fst sample_more_pre, Some (the (fst (snd sample_more_pre))), fst (snd (snd sample_more_pre)), snd (snd (snd sample_more_pre)))"
    by code_simp
  moreover have "Handle sample_service sample_run ''r'' sample_more = Inr (projr (Handle sample_service sample_run ''r'' sample_more))"
    by code_simp
  moreover have "child_started sample_run (the (fst (snd sample_more_pre))) (snd (snd (snd sample_more_pre)))" by code_simp
  moreover have "sp_kind (the (fst (snd sample_more_pre))) = ''shell''" by code_simp
  moreover have "length (filter (\<lambda>r. rq_WantReply r \<and> rq_Type r \<noteq> ''signal'') (fst (snd (snd sample_more_pre)))) = 1" by code_simp
  ultimately show ?thesis
    using Handle_replies [of sample_service "''r''" sample_more "fst sample_more_pre" "Some (the (fst (snd sample_more_pre)))"
        "fst (snd (snd sample_more_pre))" "snd (snd (snd sample_more_pre))" sample_run]
    by simp
qed

section \<open>The end of the child\<close>

lemma takeWhile_merge:
  assumes "over h xs = []" and "c \<notin> set xs"
  shows "over h (takeWhile (\<lambda>x. x \<noteq> c) (merge sched xs ys)) = over h (takeWhile (\<lambda>x. x \<noteq> c) ys)"
  using assms
proof (induction sched xs ys rule: merge.induct)
  case (2 sched x xs)
  then have t: "takeWhile (\<lambda>x. x \<noteq> c) xs = xs" by (auto simp: takeWhile_eq_all_conv)
  from 2 show ?case by (simp add: t)
next
  case (3 x xs y ys)
  then have "takeWhile (\<lambda>x. x \<noteq> c) ((x # xs) @ y # ys) = (x # xs) @ takeWhile (\<lambda>x. x \<noteq> c) (y # ys)"
    by (intro takeWhile_append2) auto
  with 3 show ?case by simp
qed auto

lemma set_merge: "set (merge sched xs ys) = set xs \<union> set ys"
  by (induction sched xs ys rule: merge.induct) auto

lemma no_close_inflight: "CloseChannel \<notin> set (processInflightRequests rs st)"
  by (auto simp: processInflightRequests_def inflight_request_def handleWindowChange_def reply_def Setsize_def
      split: sum.splits option.splits if_splits)

lemma no_close_settle: "CloseChannel \<notin> set (settle e r)"
  by (auto simp: settle_def signalAndKill_def split: wake.splits if_splits)

lemma no_close_drain: "CloseChannel \<notin> set (drain fin remote knd n)"
proof -
  have "CloseChannel \<notin> set (drain_loop fin remote knd xs)" for xs
    by (induction xs) auto
  then show ?thesis by (simp add: drain_def)
qed

lemma no_close_sendExit: "CloseChannel \<notin> set (sendExit ps)"
  by (cases ps) (simp_all add: case_prod_beta)

lemmas no_close = no_close_inflight no_close_settle no_close_drain no_close_sendExit

lemma takeWhile_no_close:
  "CloseChannel \<notin> set xs \<Longrightarrow> takeWhile (\<lambda>x. x \<noteq> CloseChannel) (xs @ ys) = xs @ takeWhile (\<lambda>x. x \<noteq> CloseChannel) ys"
  by (rule takeWhile_append2) auto

text \<open>The exit report of a supervised child goes out before the channel is closed.\<close>

lemma runChild_report_first:
  "over sends (takeWhile (\<lambda>x. x \<noteq> CloseChannel) (runChild e rs st r knd remote @ [CloseChannel])) =
   over sends (runChild e rs st r knd remote)"
proof (cases "re_wake e = ChanClosed")
  case True
  have "CloseChannel \<notin> set (runChild e rs st r knd remote)"
    using no_close by (auto simp: runChild_def True Let_def)
  then show ?thesis by (simp add: takeWhile_no_close)
next
  case False
  let ?sup = "settle e r @ drain (re_finished e) remote knd (r_drainDones r)"
  let ?fin = "map CloseFd (r_closers r) @ (if re_wake e = ChildExited then sendExit (re_ps e) @ [CloseChannel] else [])"
  obtain a b where ab: "a @ b = processInflightRequests (take (re_during e) rs) st @
      processInflightRequests (drop (re_during e) rs) (if r_master r \<noteq> None then st\<lparr>st_ptyMaster := None\<rparr> else st)"
    and run: "runChild e rs st r knd remote = merge (re_sched1 e) a ?sup @ merge (re_sched2 e) b ?fin"
    using runChild_parts [OF False] by blast
  let ?A = "merge (re_sched1 e) a ?sup"
  let ?B = "merge (re_sched2 e) b ?fin"
  have "CloseChannel \<notin> set (a @ b)"
    unfolding ab by (simp add: no_close_inflight)
  with over_split [OF ab over_processInflight(3) over_processInflight(3)]
  have quiet: "over sends b = []" "CloseChannel \<notin> set a" "CloseChannel \<notin> set b" by simp_all
  have A: "CloseChannel \<notin> set ?A"
    using no_close quiet by (simp add: set_merge)
  have fd: "CloseChannel \<notin> set (map CloseFd (r_closers r))" by auto
  have fin: "over sends (takeWhile (\<lambda>x. x \<noteq> CloseChannel) ?fin) = over sends ?fin"
    using takeWhile_no_close [OF fd] takeWhile_no_close [OF no_close_sendExit]
    by (simp add: proj takeWhile_no_close [OF fd, of "[]", simplified])
  show ?thesis
  proof (cases "CloseChannel \<in> set ?B")
    case True
    then have "takeWhile (\<lambda>x. x \<noteq> CloseChannel) (?B @ [CloseChannel]) = takeWhile (\<lambda>x. x \<noteq> CloseChannel) ?B"
      by (intro takeWhile_append1) auto
    then have "over sends (takeWhile (\<lambda>x. x \<noteq> CloseChannel) (?B @ [CloseChannel])) = over sends ?B"
      using fin takeWhile_merge [OF quiet(1,3)] by (simp add: over_merge_left quiet(1) proj)
    then show ?thesis by (simp add: run takeWhile_no_close [OF A])
  next
    case False
    then show ?thesis by (simp add: run takeWhile_no_close A)
  qed
qed

lemma no_close_phase1:
  assumes "pre_loop s remote reqs st = Inr (es, sp, rest, st')"
  shows "CloseChannel \<notin> set es"
  using assms
proof (induction s remote reqs st arbitrary: es rule: pre_loop.induct)
  case (2 s remote req alloc rs st)
  have one: "CloseChannel \<notin> set es1" if "preSpawnDispatch s remote req alloc st = Inr (es1, sp1, st1)" for es1 sp1 st1
    using that by (auto simp: preSpawnDispatch_def handlePtyReq_def handleEnv_def handleWindowChange_def reply_def Setsize_def Let_def
        split: if_splits sum.splits go_fail.splits option.splits)
  from "2.prems" obtain es1 sp1 st1 where d: "preSpawnDispatch s remote req alloc st = Inr (es1, sp1, st1)"
    by (auto split: sum.splits)
  show ?case
  proof (cases sp1)
    case (Some s1)
    with d one [OF d] "2.prems" show ?thesis by auto
  next
    case None
    with d "2.prems" obtain es2 where l: "pre_loop s remote rs st1 = Inr (es2, sp, rest, st')" and e: "es = es1 @ es2"
      by (auto split: sum.splits)
    from "2.IH" [OF d refl refl None l] one [OF d] e show ?thesis by simp
  qed
qed simp

text \<open>
  The exit report as RFC 4254 section 6.10 prescribes it, written without the encoders of the program: the wait status as four bytes in network order, or
  the name of the signal, the core flag, a message and an empty language tag. A wait status that is neither is reported as status 0, and a signal that the RFC does
  not name as TERM with its text in the message.
\<close>

definition net32 :: "int \<Rightarrow> bytes" where
  "net32 n = map (\<lambda>i. word_of_int (n div 2 ^ (8 * i))) [3, 2, 1, 0]"

definition net_string :: "string \<Rightarrow> bytes" where
  "net_string s = net32 (int (length s)) @ bytes_of_string s"

definition rfc_signals :: "(syscall_signal \<times> string) list" where
  "rfc_signals = [(SIGABRT, ''ABRT''), (SIGALRM, ''ALRM''), (SIGFPE, ''FPE''), (SIGHUP, ''HUP''), (SIGILL, ''ILL''), (SIGINT, ''INT''),
     (SIGKILL, ''KILL''), (SIGPIPE, ''PIPE''), (SIGQUIT, ''QUIT''), (SIGSEGV, ''SEGV''), (SIGTERM, ''TERM''), (SIGUSR1, ''USR1''), (SIGUSR2, ''USR2'')]"

fun rfc_signal :: "os_signal \<Rightarrow> string \<times> string" where
  "rfc_signal (SyscallSignal (SIGOther txt)) = (''TERM'', ''unmapped signal: '' @ txt)"
| "rfc_signal (SyscallSignal sig) = (the (map_of rfc_signals sig), '''')"
| "rfc_signal (ForeignSignal txt) = (''TERM'', ''unmapped signal: '' @ txt)"

fun exit_report :: "process_state \<Rightarrow> string \<times> bytes" where
  "exit_report (PsExited ec) = (''exit-status'', net32 ec)"
| "exit_report (PsForeign ec) = (''exit-status'', net32 ec)"
| "exit_report (PsSignaled sig core) =
     (''exit-signal'', net_string (fst (rfc_signal sig)) @ [if core then 1 else 0] @ net_string (snd (rfc_signal sig)) @ net_string '''')"
| "exit_report PsNil = (''exit-status'', net32 0)"
| "exit_report PsOther = (''exit-status'', net32 0)"

lemma PutUint32_net32: "PutUint32 (word_of_int n) = net32 n"
proof -
  have "ucast (drop_bit k (word_of_int n :: uint32)) = (word_of_int (n div 2 ^ k) :: 8 word)" if "k \<le> 24" for k
    using that by (intro bit_word_eqI) (auto simp: bit_simps simp flip: drop_bit_eq_div)
  from this [of 24] this [of 16] this [of 8] this [of 0] show ?thesis
    by (simp add: PutUint32_def net32_def)
qed

lemma put_string_net: "put_string s = net_string s"
  using PutUint32_net32 [of "int (length s)"] by (simp add: appendSSHString_def net_string_def)

lemma signalName_rfc: "signalName sig = rfc_signal sig"
  by (cases sig rule: signalName.cases) (simp_all add: rfc_signals_def)

lemma sendExit_report: "over sends (sendExit ps) = [exit_report ps]"
proof (cases ps)
  case (PsSignaled sig core)
  have "exitSignalPayload n core m = net_string n @ [if core then 1 else 0] @ net_string m @ net_string ''''" for n m
    by (simp add: exitSignalPayload_def Let_def appendSSHString_append [of "_ @ _"] put_string_net)
  with PsSignaled show ?thesis by (simp add: signalName_rfc case_prod_beta)
qed (use PutUint32_net32 [of 0] in \<open>simp_all add: exitStatusPayload_def PutUint32_net32\<close>)

text \<open>
  C10: The end of a shell or exec child. A child that ends by itself is reported by exactly one
  exit-status or exit-signal request, whose payload is that of RFC 4254 for its wait status, sent before the channel is closed, and no
  signal is sent. When the server shuts down or the client closes the channel first, no report is sent and
  the process group of the child (its own, since it runs in a new session) gets SIGHUP, then SIGKILL if
  it outlives the grace period. The last thing the handler does is close the channel.\<close>
theorem Handle_child_outcome:
  assumes "pre_loop s remote reqs init_state = Inr (es1, Some sp, rest, st)" and "sp_cmd sp = Some cmd"
    and "cmd_Start cmd (re_start e) = Inr pid" and "re_stdinErr e = None" and "Handle s e remote reqs = Inr es"
  shows "over sends es = (if re_wake e = ChildExited then [exit_report (re_ps e)] else []) \<and>
    over sends (takeWhile (\<lambda>x. x \<noteq> CloseChannel) es) = over sends es \<and>
    over kills es = (if re_wake e = ChildExited then []
      else (pid, SIGHUP) # (if fst (kill_wait (re_alive e) (re_lag e) (re_now e + shutdownGrace) (re_now e) 0)
        then [(pid, SIGKILL)] else [])) \<and>
    last es = CloseChannel"
  using assms(5)
proof (cases rule: HandleE)
  case (spawned es2 sp2 rest2 st2 pre)
  from spawned(1) assms(1) have sp: "sp2 = sp" by simp
  with spawned(4) assms(2) have ns: "\<not> is_sftp sp2" by (auto simp: is_sftp_def spawn_ok_def)
  have started: "child_started e sp2 st2" using assms(2-4) sp by (simp add: child_started_def)
  obtain r es3 where q: "over sends es3 = []" "over kills es3 = []" "over opens es3 = []" "over answers es3 = []"
      "mset (over closes es3 @ r_closers r) = mset (pty_fds st2)" "CloseChannel \<notin> set es3"
    and pg: "r_pgid r = projr (cmd_Start (the (sp_cmd sp2)) (re_start e))"
    and run: "run_spawn e remote sp2 rest2 st2 = es3 @ reply (sp_req sp2) True @ [SLog (Log_Session remote (sp_kind sp2))] @
      runChild e rest2 (st2\<lparr>st_started := True\<rparr>) r (sp_kind sp2) remote"
    by (rule run_spawn_started [OF spawned(4) ns spawned(5) started, of remote rest2])
  let ?run = "runChild e rest2 (st2\<lparr>st_started := True\<rparr>) r (sp_kind sp2) remote"
  let ?pre = "es2 @ es3 @ reply (sp_req sp2) True @ [SLog (Log_Session remote (sp_kind sp2))]"
  have es: "es = ?pre @ ?run @ [CloseChannel]" using spawned(6) run by simp
  have quiet: "over sends ?pre = []" "over kills ?pre = []"
    using spawned(3) q by (simp_all add: phase1_def proj)
  from q(6) have "CloseChannel \<notin> set ?pre"
    using no_close_phase1 [OF spawned(1)] by (simp add: reply_def)
  from takeWhile_no_close [OF this] have
    "over sends (takeWhile (\<lambda>x. x \<noteq> CloseChannel) es) = over sends es"
    using quiet runChild_report_first [of e rest2 "st2\<lparr>st_started := True\<rparr>" r "sp_kind sp2" remote] by (simp add: es)
  moreover have "over kills (settle e r) = (if re_wake e = ChildExited then []
      else (pid, SIGHUP) # (if fst (kill_wait (re_alive e) (re_lag e) (re_now e + shutdownGrace) (re_now e) 0)
        then [(pid, SIGKILL)] else []))"
    using pg assms(2,3) sp by (cases "re_wake e") (simp_all add: settle_def proj)
  ultimately show ?thesis using quiet by (simp add: es over_runChild sendExit_report)
qed (use assms(1) in simp)

theorem Handle_child_outcome_witness:
  "over sends (projr (Handle sample_service (sample_run\<lparr>re_ps := PsSignaled (SyscallSignal SIGSEGV) True\<rparr>) ''r'' sample_reqs)) =
     [(''exit-signal'', [0, 0, 0, 4, 0x53, 0x45, 0x47, 0x56, 1, 0, 0, 0, 0, 0, 0, 0, 0])]"
proof -
  let ?e = "sample_run\<lparr>re_ps := PsSignaled (SyscallSignal SIGSEGV) True\<rparr>"
  let ?sp = "the (fst (snd sample_pre))"
  have "pre_loop sample_service ''r'' sample_reqs init_state =
    Inr (fst sample_pre, Some ?sp, fst (snd (snd sample_pre)), snd (snd (snd sample_pre)))"
    by code_simp
  moreover have "sp_cmd ?sp = Some (the (sp_cmd ?sp))" by code_simp
  moreover have "cmd_Start (the (sp_cmd ?sp)) (re_start ?e) = Inr 42" by code_simp
  moreover have "re_stdinErr ?e = None" "re_wake ?e = ChildExited" by (simp_all add: sample_run_def)
  moreover have "Handle sample_service ?e ''r'' sample_reqs = Inr (projr (Handle sample_service ?e ''r'' sample_reqs))"
    by code_simp
  moreover have "exit_report (re_ps ?e) = (''exit-signal'', [0, 0, 0, 4, 0x53, 0x45, 0x47, 0x56, 1, 0, 0, 0, 0, 0, 0, 0, 0])"
    by code_simp
  ultimately show ?thesis
    using Handle_child_outcome [of sample_service "''r''" sample_reqs "fst sample_pre" ?sp
        "fst (snd (snd sample_pre))" "snd (snd (snd sample_pre))" "the (sp_cmd ?sp)" ?e 42]
    by simp
qed

section \<open>The grace period\<close>

lemma kill_wait_bounds:
  assumes "i \<le> 100" and "deadline \<le> now + (100 - int i) * poll_interval"
  shows "fst (snd (kill_wait alive lag deadline now i)) \<le> 100 \<and>
    (fst (kill_wait alive lag deadline now i) \<longrightarrow> deadline \<le> snd (snd (kill_wait alive lag deadline now i)) \<and>
       (\<forall>j. i \<le> j \<and> j < fst (snd (kill_wait alive lag deadline now i)) \<longrightarrow> alive j)) \<and>
    (\<not> fst (kill_wait alive lag deadline now i) \<longrightarrow>
       (\<exists>j. fst (snd (kill_wait alive lag deadline now i)) = Suc j \<and> \<not> alive j) \<and>
       snd (snd (kill_wait alive lag deadline now i)) < deadline)"
  using assms
proof (induction alive lag deadline now i rule: kill_wait.induct)
  case (1 alive lag deadline now i)
  show ?case
  proof (cases "now < deadline \<and> alive i")
    case True
    then have "0 < (100 - int i) * poll_interval" using "1.prems"(2) by linarith
    then have i: "Suc i \<le> 100" by (simp add: poll_interval_def)
    have "deadline \<le> (now + poll_interval + int (lag i)) + (100 - int (Suc i)) * poll_interval"
      using "1.prems"(2) by (simp add: algebra_simps)
    with "1.IH" True i have IH: "fst (snd (kill_wait alive lag deadline (now + poll_interval + int (lag i)) (Suc i))) \<le> 100 \<and>
      (fst (kill_wait alive lag deadline (now + poll_interval + int (lag i)) (Suc i)) \<longrightarrow>
         deadline \<le> snd (snd (kill_wait alive lag deadline (now + poll_interval + int (lag i)) (Suc i))) \<and>
         (\<forall>j. Suc i \<le> j \<and> j < fst (snd (kill_wait alive lag deadline (now + poll_interval + int (lag i)) (Suc i))) \<longrightarrow> alive j)) \<and>
      (\<not> fst (kill_wait alive lag deadline (now + poll_interval + int (lag i)) (Suc i)) \<longrightarrow>
         (\<exists>j. fst (snd (kill_wait alive lag deadline (now + poll_interval + int (lag i)) (Suc i))) = Suc j \<and> \<not> alive j) \<and>
         snd (snd (kill_wait alive lag deadline (now + poll_interval + int (lag i)) (Suc i))) < deadline)"
      by blast
    have "kill_wait alive lag deadline now i = kill_wait alive lag deadline (now + poll_interval + int (lag i)) (Suc i)"
      using True by (simp add: kill_wait.simps [of alive lag deadline now i])
    with IH True show ?thesis by (metis le_antisym not_less_eq_eq)
  next
    case False
    have "now < deadline \<Longrightarrow> i < 100"
      using "1.prems" by (cases "i = 100") (auto simp: poll_interval_def)
    with False "1.prems" show ?thesis
      by (auto simp: kill_wait.simps [of alive lag deadline now i])
  qed
qed

text \<open>
  The drain after a child's exit is left within two seconds, and it reports a timeout exactly if some copy goroutine has not ended by then.
\<close>

lemma drain_wait_bounds:
  assumes "now \<le> deadline" and "drain_wait ended deadline now is = (ok, t)"
  shows "now \<le> t \<and> t \<le> deadline \<and> (ok \<longleftrightarrow> (\<forall>i \<in> set is. \<exists>u. ended i = Some u \<and> u \<le> deadline))"
  using assms by (induction ended deadline now "is" rule: drain_wait.induct) (auto split: option.split_asm if_split_asm)

lemma drain_loop_wait:
  "drain_loop (\<lambda>i. \<exists>u. ended i = Some u \<and> u \<le> deadline) remote knd is =
     (if fst (drain_wait ended deadline now is) then [] else [SLog (Log_DrainTimeout remote knd 0)])"
proof (induction "is" arbitrary: now)
  case (Cons i "is")
  show ?case
  proof (cases "ended i")
    case (Some u)
    with Cons.IH [of "max now u"] show ?thesis by simp
  qed simp
qed simp

lemma drain_within_cap:
  assumes "drain_wait ended (now + drainCap) now [0..<n] = (ok, t)"
  shows "t - now \<le> 2 * Second \<and>
    drain (\<lambda>i. \<exists>u. ended i = Some u \<and> u \<le> now + drainCap) remote knd n = (if ok then [] else [SLog (Log_DrainTimeout remote knd 0)])"
proof -
  have "now \<le> now + drainCap" by (simp add: drainCap_def Second_def)
  from drain_wait_bounds [OF this assms] show ?thesis
    using drain_loop_wait [of ended "now + drainCap" remote knd "[0..<n]" now] assms by (simp add: drain_def drainCap_def)
qed

text \<open>
  C34: The kill sequence ends within bounds. SIGHUP comes first; the group is probed at most 100 times,
  whatever delays occur; SIGKILL is sent exactly when every probe found the group alive, and then not
  before the grace period of five seconds is over, while a group found gone is left alone before it.\<close>
theorem signalAndKill_grace:
  fixes alive :: "nat \<Rightarrow> bool" and lag :: "nat \<Rightarrow> nat" and now :: nanos
  defines "w \<equiv> kill_wait alive lag (now + shutdownGrace) now 0"
  shows "hd (signalAndKill alive lag now pgid why) = KillGroup pgid SIGHUP \<and>
    fst (snd w) \<le> 100 \<and>
    (KillGroup pgid SIGKILL \<in> set (signalAndKill alive lag now pgid why) \<longleftrightarrow> (\<forall>j < fst (snd w). alive j)) \<and>
    (KillGroup pgid SIGKILL \<in> set (signalAndKill alive lag now pgid why) \<longleftrightarrow> now + 5 * Second \<le> snd (snd w))"
proof -
  have "now + shutdownGrace \<le> now + (100 - int 0) * poll_interval"
    by (simp add: shutdownGrace_def poll_interval_def Second_def)
  from kill_wait_bounds [OF _ this, of alive lag]
  have b: "fst (snd w) \<le> 100" "fst w \<Longrightarrow> now + shutdownGrace \<le> snd (snd w)" "fst w \<Longrightarrow> \<forall>j < fst (snd w). alive j"
    "\<not> fst w \<Longrightarrow> \<exists>j. fst (snd w) = Suc j \<and> \<not> alive j" "\<not> fst w \<Longrightarrow> snd (snd w) < now + shutdownGrace"
    by (auto simp: w_def)
  have k: "KillGroup pgid SIGKILL \<in> set (signalAndKill alive lag now pgid why) \<longleftrightarrow> fst w"
    by (simp add: signalAndKill_def w_def)
  have h: "hd (signalAndKill alive lag now pgid why) = KillGroup pgid SIGHUP"
    by (simp add: signalAndKill_def)
  show ?thesis
  proof (cases "fst w")
    case True
    with b k h show ?thesis by (auto simp: shutdownGrace_def)
  next
    case False
    with b(1,4,5) k h show ?thesis by (auto simp: shutdownGrace_def)
  qed
qed

theorem signalAndKill_grace_witness:
  "KillGroup 42 SIGKILL \<in> set (signalAndKill (\<lambda>_. True) (\<lambda>_. 0) 0 42 ''shutdown'') \<and>
   fst (snd (kill_wait (\<lambda>_. True) (\<lambda>_. 0) (0 + shutdownGrace) 0 0)) \<le> 100"
  using signalAndKill_grace [of "\<lambda>_. True" "\<lambda>_. 0" 0 42 "''shutdown''"] by simp

section \<open>Resolving the name of a command\<close>

lemma Base_self: "filepath_Base p = p \<longleftrightarrow> p \<noteq> '''' \<and> CHR ''/'' \<notin> set p \<or> p = ''/''"
proof (cases "CHR ''/'' \<in> set p")
  case False
  have "takeWhile (\<lambda>c. c \<noteq> CHR ''/'') (rev p) = rev p" using False by (simp add: takeWhile_eq_all_conv) metis
  moreover have "dropWhile (\<lambda>c. c = CHR ''/'') (rev p) = rev p"
    using False by (cases p rule: rev_cases) auto
  ultimately have "filepath_Base p = (if p = '''' then ''.'' else p)"
    by (simp add: filepath_Base_def del: takeWhile_eq_all_conv)
  moreover have "p \<noteq> ''/''" using False by auto
  ultimately show ?thesis using False by simp
next
  case True
  have no: "CHR ''/'' \<notin> set (rev (takeWhile (\<lambda>c. c \<noteq> CHR ''/'') q))" for q
    by (auto dest: set_takeWhileD)
  show ?thesis
  proof (cases "p = ''/''")
    case True
    then show ?thesis by (simp add: filepath_Base_def)
  next
    case False
    from True have ne: "p \<noteq> ''''" by auto
    have "filepath_Base p = ''/'' \<or> CHR ''/'' \<notin> set (filepath_Base p)"
      unfolding filepath_Base_def Let_def if_not_P [OF ne]
      by (cases "rev (dropWhile (\<lambda>c. c = CHR ''/'') (rev p)) = ''''") (simp_all only: if_True if_False no simp_thms)
    with True False have "filepath_Base p \<noteq> p" by metis
    with True False show ?thesis by simp
  qed
qed

lemma look_dirs_find:
  "look_dirs ex file dirs =
     (case find ex (map (\<lambda>d. filepath_Join [if d = '''' then ''.'' else d, file]) dirs) of
        None \<Rightarrow> ('''', Some ErrNotFound)
      | Some p \<Rightarrow> (p, if prefix ''/'' p then None else Some ErrDot))"
  by (induction dirs) (simp_all add: Let_def filepath_IsAbs_def)

lemma Join_nonempty: "d \<noteq> '''' \<Longrightarrow> filepath_Join (d # es) \<noteq> ''''"
  by (simp add: filepath_Join_def filepath_Clean_def Let_def)

lemma found_nonempty:
  assumes "find ex (map (\<lambda>d. filepath_Join [if d = '''' then ''.'' else d, file]) dirs) = Some p"
  shows "p \<noteq> ''''"
proof -
  from assms obtain d where "p = filepath_Join [if d = '''' then ''.'' else d, file]"
    unfolding find_Some_iff by (auto simp: nth_map)
  then show ?thesis using Join_nonempty [of "''.''"] Join_nonempty [of d] by simp
qed

section \<open>The child environment\<close>

definition standard_names :: "string list" where
  "standard_names = [''HOME'', ''USER'', ''LOGNAME'', ''SHELL'', ''PATH'']"

text \<open>What the server's environment gives for a name: the last entry wins, an entry with no name is skipped.\<close>

definition entry_of :: "string \<Rightarrow> (string \<times> string) option" where
  "entry_of kv = (let i = indexEqual kv in if i > 0 then Some (take (nat i) kv, drop (nat i + 1) kv) else None)"

definition host_lookup :: "string list \<Rightarrow> string \<Rightarrow> string option" where
  "host_lookup src k = map_of (rev (List.map_filter entry_of src)) k"

text \<open>
  The specification of a child's environment: the terminal type of its PTY, then what the client set,
  then what the server's environment has for a standard name or a locale name; nothing else.
\<close>

definition child_env :: "Service \<Rightarrow> sessionState \<Rightarrow> string \<Rightarrow> string option" where
  "child_env s st k =
     (if k = ''TERM'' \<and> st_pty st \<noteq> None \<and> Term (the (st_pty st)) \<noteq> '''' then Some (Term (the (st_pty st)))
      else if map_of (st_envFromCh st) k \<noteq> None then map_of (st_envFromCh st) k
      else if k \<in> set standard_names \<or> filterEnv k then host_lookup (hostEnv s) k
      else None)"

lemma host_lookup_Nil [simp]: "host_lookup [] k = None"
  by (simp add: host_lookup_def map_filter_simps)

lemma host_lookup_Cons [simp]:
  "host_lookup (kv # src) k =
     (case host_lookup src k of
        Some v \<Rightarrow> Some v
      | None \<Rightarrow> (case entry_of kv of Some (k', v) \<Rightarrow> if k' = k then Some v else None | None \<Rightarrow> None))"
  by (auto simp: host_lookup_def map_filter_simps map_add_def split: option.splits)

text \<open>One pass of \<open>buildEnv\<close> over the server's environment: every entry whose name passes \<open>P\<close> is taken.\<close>

definition take_entries :: "(string \<Rightarrow> bool) \<Rightarrow> string list \<Rightarrow> (string \<times> string) list \<Rightarrow> (string \<times> string) list" where
  "take_entries P src m =
     foldl (\<lambda>m kv. case entry_of kv of None \<Rightarrow> m | Some (k, v) \<Rightarrow> if P k then AList.update k v m else m) m src"

lemma pick_take_entries: "pick src name m = take_entries (\<lambda>k. k = name) src m"
  unfolding pick_def take_entries_def
  by (rule arg_cong [of _ _ "\<lambda>f. foldl f m src"]) (auto simp: entry_of_def Let_def fun_eq_iff)

lemma pick_filtered_take_entries: "pick_filtered src m = take_entries filterEnv src m"
  unfolding pick_filtered_def take_entries_def
  by (rule arg_cong [of _ _ "\<lambda>f. foldl f m src"]) (auto simp: entry_of_def Let_def fun_eq_iff)

lemma map_of_take_entries:
  "map_of (take_entries P src m) k =
     (case (if P k then host_lookup src k else None) of Some v \<Rightarrow> Some v | None \<Rightarrow> map_of m k)"
proof (induction src arbitrary: m)
  case Nil
  show ?case by (simp add: take_entries_def)
next
  case (Cons kv src)
  have "take_entries P (kv # src) m = take_entries P src
      (case entry_of kv of None \<Rightarrow> m | Some (k, v) \<Rightarrow> if P k then AList.update k v m else m)"
    by (simp add: take_entries_def)
  then show ?case
    by (simp add: Cons.IH update_conv' split: option.split)
qed

lemma distinct_take_entries: "distinct (map fst m) \<Longrightarrow> distinct (map fst (take_entries P src m))"
  by (induction src arbitrary: m)
    (auto simp: take_entries_def distinct_update split: option.splits)

lemma map_of_override:
  "distinct (map fst al) \<Longrightarrow>
   map_of (foldl (\<lambda>m (k, v). AList.update k v m) m al) k =
     (case map_of al k of Some v \<Rightarrow> Some v | None \<Rightarrow> map_of m k)"
proof (induction al arbitrary: m)
  case (Cons kv al)
  then have "map_of al (fst kv) = None" by (simp add: map_of_eq_None_iff)
  with Cons show ?case
    by (cases kv) (auto simp: update_conv' split: option.split)
qed simp

lemma distinct_override:
  "distinct (map fst m) \<Longrightarrow> distinct (map fst (foldl (\<lambda>m (k, v). AList.update k v m) m al))"
  by (induction al arbitrary: m) (auto simp: distinct_update)

lemma child_env_picked:
  assumes "session_ok st"
  shows "map_of (picked_env s st) k = child_env s st k" and "distinct (map fst (picked_env s st))"
proof -
  let ?src = "hostEnv s"
  define host where "host = pick_filtered ?src (pick ?src ''PATH'' (pick ?src ''SHELL'' (pick ?src ''LOGNAME''
    (pick ?src ''USER'' (pick ?src ''HOME'' [])))))"
  define over where "over = foldl (\<lambda>m (k, v). AList.update k v m) host (st_envFromCh st)"
  have host: "map_of host k = (if k \<in> set standard_names \<or> filterEnv k then host_lookup ?src k else None)" for k
    by (auto simp: host_def pick_take_entries pick_filtered_take_entries map_of_take_entries standard_names_def
        split: option.split)
  have dh: "distinct (map fst host)"
    by (simp add: host_def pick_take_entries pick_filtered_take_entries distinct_take_entries)
  have env: "distinct (map fst (st_envFromCh st))"
    using assms by (simp add: session_ok_def env_ok_def)
  have ov: "map_of over k = (case map_of (st_envFromCh st) k of Some v \<Rightarrow> Some v | None \<Rightarrow> map_of host k)" for k
    by (simp add: over_def map_of_override [OF env])
  have do: "distinct (map fst over)"
    by (simp add: over_def distinct_override dh)
  have p: "picked_env s st = (case st_pty st of None \<Rightarrow> over
      | Some p \<Rightarrow> if Term p \<noteq> '''' then AList.update ''TERM'' (Term p) over else over)"
    unfolding picked_env_def Let_def over_def host_def by (rule refl)
  show "map_of (picked_env s st) k = child_env s st k"
    by (auto simp: p child_env_def ov host update_conv' split: option.split)
  show "distinct (map fst (picked_env s st))"
    by (auto simp: p do distinct_update split: option.split)
qed

lemma pre_loop_spawn:
  assumes "pre_loop s remote reqs st = Inr (es, Some sp, rest, st')" and "sp_cmd sp = Some cmd"
  shows "cmd = prepareShell s st' \<or> (\<exists>command. cmd = prepareExec s st' command)"
  using assms
proof (induction s remote reqs st arbitrary: es rule: pre_loop.induct)
  case (2 s remote req alloc rs st)
  from "2.prems" obtain es1 sp1 st1 where d: "preSpawnDispatch s remote req alloc st = Inr (es1, sp1, st1)"
    by (auto split: sum.splits)
  show ?case
  proof (cases sp1)
    case (Some s1)
    with d "2.prems" have "sp1 = Some sp" "st1 = st'" by auto
    with d "2.prems"(2) show ?thesis
      by (auto simp: preSpawnDispatch_def Let_def split: if_splits sum.splits go_fail.splits)
  next
    case None
    with d "2.prems" obtain es2 where l: "pre_loop s remote rs st1 = Inr (es2, Some sp, rest, st')"
      by (auto split: sum.splits)
    from "2.IH" [OF d refl refl None l "2.prems"(2)] show ?thesis .
  qed
qed simp

lemma filterEnv_LC: "filterEnv k \<Longrightarrow> k = ''LANG'' \<or> prefix ''LC_'' k"
  by (simp add: filterEnv_def split: if_splits)

lemma child_env_name:
  assumes "session_ok st" and "child_env s st k \<noteq> None"
  shows "k \<in> set standard_names \<union> {''LANG''} \<union> {k. prefix ''LC_'' k} \<union> (if st_pty st = None then {} else {''TERM''})"
proof -
  have "filterEnv k" if "map_of (st_envFromCh st) k = Some v" for v
    using assms(1) that by (auto simp: session_ok_def env_ok_def dest!: map_of_SomeD)
  then consider "k = ''TERM'' \<and> st_pty st \<noteq> None" | "filterEnv k" | "k \<in> set standard_names"
    using assms(2) by (auto simp: child_env_def split: if_split_asm)
  then show ?thesis
  proof cases
    case 1
    then show ?thesis by auto
  next
    case 2
    from filterEnv_LC [OF this] show ?thesis by blast
  next
    case 3
    then show ?thesis by blast
  qed
qed

text \<open>
  C14: The environment of a child. The command a channel decides to run gets one entry per name, and
  exactly the entries of the specification: a name the client may set takes the client's value,
  otherwise HOME, USER, LOGNAME, SHELL, PATH, LANG and LC names take the server's value, TERM is the
  type of the PTY, and nothing else of the server's environment, in particular not the password
  variable, is handed on.\<close>
theorem child_environment:
  assumes "pre_loop s remote reqs init_state = Inr (es, Some sp, rest, st)" and "sp_cmd sp = Some cmd"
  shows "set (c_Env cmd) = {k @ ''='' @ v |k v. child_env s st k = Some v} \<and>
    distinct (map fst (picked_env s st)) \<and>
    {k. child_env s st k \<noteq> None} \<subseteq> set standard_names \<union> {''LANG''} \<union> {k. prefix ''LC_'' k} \<union>
      (if st_pty st = None then {} else {''TERM''})"
proof -
  from pre_loop_phase1 [OF assms(1) session_ok_init] have ok: "session_ok st"
    by (auto simp: phase1_def)
  note pe = child_env_picked [OF ok, of s]
  have "c_Env cmd = buildEnv s st"
    using pre_loop_spawn [OF assms] by (auto simp: prepareShell_def prepareExec_def Let_def)
  moreover have "set (buildEnv s st) = {k @ ''='' @ v |k v. child_env s st k = Some v}"
    unfolding buildEnv_def pe(1) [symmetric] map_of_eq_Some_iff [OF pe(2)] by (auto simp: image_iff)
  moreover have "{k. child_env s st k \<noteq> None} \<subseteq> set standard_names \<union> {''LANG''} \<union> {k. prefix ''LC_'' k} \<union>
      (if st_pty st = None then {} else {''TERM''})"
    by (rule subsetI, rule child_env_name [OF ok], erule CollectD)
  ultimately show ?thesis using pe(2) by simp
qed

theorem child_environment_witness:
  "set (c_Env (the (sp_cmd (the (fst (snd sample_pre)))))) =
     {k @ ''='' @ v |k v. child_env sample_service (snd (snd (snd sample_pre))) k = Some v} \<and>
   c_Env (the (sp_cmd (the (fst (snd sample_pre))))) = [''HOME=/home/me'', ''LANG=C'', ''TERM=xterm'']"
proof -
  have "pre_loop sample_service ''r'' sample_reqs init_state =
    Inr (fst sample_pre, Some (the (fst (snd sample_pre))), fst (snd (snd sample_pre)), snd (snd (snd sample_pre)))"
    by code_simp
  moreover have "sp_cmd (the (fst (snd sample_pre))) = Some (the (sp_cmd (the (fst (snd sample_pre)))))"
    by code_simp
  moreover have "c_Env (the (sp_cmd (the (fst (snd sample_pre))))) = [''HOME=/home/me'', ''LANG=C'', ''TERM=xterm'']"
    by code_simp
  ultimately show ?thesis
    using child_environment [of sample_service "''r''" sample_reqs "fst sample_pre" "the (fst (snd sample_pre))"
        "fst (snd (snd sample_pre))" "snd (snd (snd sample_pre))" "the (sp_cmd (the (fst (snd sample_pre))))"]
    by simp
qed

end
