(* ===== verification/SessionSteps.thy ===== *)
theory SessionSteps
  imports SessionProps
begin

text \<open>
  The supervision of a child (\<^verbatim>\<open>runChild\<close> and \<^verbatim>\<open>processInflightRequests\<close> of \<^verbatim>\<open>internal/session/service.go\<close>) with its blocking points, as a
  step system of two goroutines: the supervisor, which waits in a select, then for the child, then for the client, and
  the goroutine that answers requests. \<open>Session\<close> describes a finished run by its effects; here the order in which the context is cancelled, the client
  closes the channel, requests arrive and the child ends is open at every moment. Every run that returns has the effects
  \<open>Session\<close> says (\<open>supervision_refines_runChild\<close>); what else is shown is about runs that wait.
\<close>

section \<open>State\<close>

text \<open>
  Where the supervisor is: in the select, in \<^verbatim>\<open>signalAndKill\<close> with the effects that remain, at the receive from \<^verbatim>\<open>waitErr\<close>, before the drain,
  before the section that clears the PTY master, at the closes and the exit report, at the receive from \<^verbatim>\<open>chanClosed\<close>, returned.
\<close>

datatype sup_pc =
    SupSelect
  | Killing wake "seffect list"
  | Reaping wake
  | DrainOutput wake
  | ClearMaster wake
  | Finishing wake "seffect list"
  | AwaitClosed wake
  | RunReturned wake

text \<open>
  \<open>ss_queue\<close> and \<open>ss_reqs_closed\<close> are the channel \<^verbatim>\<open>reqs\<close>, \<open>ss_reply\<close> is what the request goroutine still has to send for the request it handles,
  \<open>ss_waited\<close> says that \<^verbatim>\<open>cmd.Wait\<close> has returned. \<open>ss_handled\<close> and \<open>ss_effects\<close> record the run.
\<close>

record sup_state =
  ss_pc :: sup_pc
  ss_queue :: "request list"
  ss_reqs_closed :: bool
  ss_reply :: "seffect list"
  ss_chanClosed :: bool
  ss_ctx_done :: bool
  ss_waited :: bool
  ss_st :: sessionState
  ss_handled :: "request list"
  ss_effects :: "seffect list"

definition sup_start :: "sessionState \<Rightarrow> sup_state" where
  "sup_start st = \<lparr> ss_pc = SupSelect, ss_queue = [], ss_reqs_closed = False, ss_reply = [], ss_chanClosed = False,
     ss_ctx_done = False, ss_waited = False, ss_st = st, ss_handled = [], ss_effects = [] \<rparr>"

definition clear_master :: "childRunner \<Rightarrow> sessionState \<Rightarrow> sessionState" where
  "clear_master r st = (if r_master r \<noteq> None then st\<lparr>st_ptyMaster := None\<rparr> else st)"

definition finish_effects :: "run_env \<Rightarrow> childRunner \<Rightarrow> wake \<Rightarrow> seffect list" where
  "finish_effects e r w = map CloseFd (r_closers r) @ (if w = ChildExited then sendExit (re_ps e) @ [CloseChannel] else [])"

section \<open>Steps\<close>

text \<open>
  The first four labels are the surroundings: a request arrives, the request channel ends because the client closed its side or is gone, the context is cancelled, the
  child has been waited for. The last two are a step of the request goroutine and one of the supervisor. A request is taken up together with its first effect, since a window change
  looks at the PTY master and resizes it in one section of the mutex; its reply is a step of its own.
\<close>

datatype sup_label = Arrive request | ReqsClosed | CtxCancelled | ChildWaited | ReqStep | SupStep

inductive sup_step :: "run_env \<Rightarrow> childRunner \<Rightarrow> string \<Rightarrow> string \<Rightarrow> sup_label \<Rightarrow> sup_state \<Rightarrow> sup_state \<Rightarrow> bool"
  for e :: run_env and r :: childRunner and knd :: string and remote :: string where
  arrive: "\<not> ss_reqs_closed s \<Longrightarrow> sup_step e r knd remote (Arrive q) s (s\<lparr>ss_queue := ss_queue s @ [q]\<rparr>)"
| reqs_closed: "sup_step e r knd remote ReqsClosed s (s\<lparr>ss_reqs_closed := True\<rparr>)"
| ctx_cancelled: "sup_step e r knd remote CtxCancelled s (s\<lparr>ss_ctx_done := True\<rparr>)"
| child_waited: "sup_step e r knd remote ChildWaited s (s\<lparr>ss_waited := True\<rparr>)"
| request_take: "ss_reply s = [] \<Longrightarrow> ss_queue s = q # qs \<Longrightarrow> es = inflight_request q (ss_st s) \<Longrightarrow>
    sup_step e r knd remote ReqStep s
      (s\<lparr>ss_queue := qs, ss_reply := drop 1 es, ss_handled := ss_handled s @ [q], ss_effects := ss_effects s @ take 1 es\<rparr>)"
| request_reply: "ss_reply s = x # xs \<Longrightarrow>
    sup_step e r knd remote ReqStep s (s\<lparr>ss_reply := xs, ss_effects := ss_effects s @ [x]\<rparr>)"
| request_end: "ss_reply s = [] \<Longrightarrow> ss_queue s = [] \<Longrightarrow> ss_reqs_closed s \<Longrightarrow> \<not> ss_chanClosed s \<Longrightarrow>
    sup_step e r knd remote ReqStep s (s\<lparr>ss_chanClosed := True\<rparr>)"
| select_ctx: "ss_pc s = SupSelect \<Longrightarrow> ss_ctx_done s \<Longrightarrow>
    sup_step e r knd remote SupStep s (s\<lparr>ss_pc := Killing CtxDone (settle (e\<lparr>re_wake := CtxDone\<rparr>) r)\<rparr>)"
| select_closed: "ss_pc s = SupSelect \<Longrightarrow> ss_chanClosed s \<Longrightarrow>
    sup_step e r knd remote SupStep s (s\<lparr>ss_pc := Killing ChanClosed (settle (e\<lparr>re_wake := ChanClosed\<rparr>) r)\<rparr>)"
| select_exit: "ss_pc s = SupSelect \<Longrightarrow> ss_waited s \<Longrightarrow>
    sup_step e r knd remote SupStep s (s\<lparr>ss_pc := DrainOutput ChildExited\<rparr>)"
| kill_emit: "ss_pc s = Killing w (x # xs) \<Longrightarrow>
    sup_step e r knd remote SupStep s (s\<lparr>ss_pc := Killing w xs, ss_effects := ss_effects s @ [x]\<rparr>)"
| kill_done: "ss_pc s = Killing w [] \<Longrightarrow> sup_step e r knd remote SupStep s (s\<lparr>ss_pc := Reaping w\<rparr>)"
| reap: "ss_pc s = Reaping w \<Longrightarrow> ss_waited s \<Longrightarrow> sup_step e r knd remote SupStep s (s\<lparr>ss_pc := DrainOutput w\<rparr>)"
| drain_output: "ss_pc s = DrainOutput w \<Longrightarrow>
    sup_step e r knd remote SupStep s
      (s\<lparr>ss_pc := ClearMaster w, ss_effects := ss_effects s @ drain (re_finished e) remote knd (r_drainDones r)\<rparr>)"
| clear_pty: "ss_pc s = ClearMaster w \<Longrightarrow>
    sup_step e r knd remote SupStep s (s\<lparr>ss_pc := Finishing w (finish_effects e r w), ss_st := clear_master r (ss_st s)\<rparr>)"
| finish_emit: "ss_pc s = Finishing w (x # xs) \<Longrightarrow>
    sup_step e r knd remote SupStep s (s\<lparr>ss_pc := Finishing w xs, ss_effects := ss_effects s @ [x]\<rparr>)"
| finish_done: "ss_pc s = Finishing w [] \<Longrightarrow> sup_step e r knd remote SupStep s (s\<lparr>ss_pc := AwaitClosed w\<rparr>)"
| await_closed: "ss_pc s = AwaitClosed w \<Longrightarrow> ss_chanClosed s \<Longrightarrow>
    sup_step e r knd remote SupStep s (s\<lparr>ss_pc := RunReturned w\<rparr>)"

inductive_cases sup_stepE: "sup_step e r knd remote l s t"
inductive_cases sup_ownE: "sup_step e r knd remote ReqStep s t" "sup_step e r knd remote SupStep s t"

definition sup_next :: "run_env \<Rightarrow> childRunner \<Rightarrow> string \<Rightarrow> string \<Rightarrow> sup_state \<Rightarrow> sup_state \<Rightarrow> bool" where
  "sup_next e r knd remote s t \<longleftrightarrow> (\<exists>l. sup_step e r knd remote l s t)"

fun woken_by :: "sup_pc \<Rightarrow> wake option" where
  "woken_by SupSelect = None"
| "woken_by (Killing w xs) = Some w"
| "woken_by (Reaping w) = Some w"
| "woken_by (DrainOutput w) = Some w"
| "woken_by (ClearMaster w) = Some w"
| "woken_by (Finishing w xs) = Some w"
| "woken_by (AwaitClosed w) = Some w"
| "woken_by (RunReturned w) = Some w"

section \<open>The invariant\<close>

text \<open>What the supervisor has done by itself at each point, before and after it clears the PTY master.\<close>

definition sup_first :: "run_env \<Rightarrow> childRunner \<Rightarrow> string \<Rightarrow> string \<Rightarrow> wake \<Rightarrow> seffect list" where
  "sup_first e r knd remote w = settle (e\<lparr>re_wake := w\<rparr>) r @ drain (re_finished e) remote knd (r_drainDones r)"

fun did :: "run_env \<Rightarrow> childRunner \<Rightarrow> string \<Rightarrow> string \<Rightarrow> sup_pc \<Rightarrow> seffect list \<Rightarrow> bool" where
  "did e r knd remote SupSelect es \<longleftrightarrow> es = []"
| "did e r knd remote (Killing w xs) es \<longleftrightarrow> es @ xs = settle (e\<lparr>re_wake := w\<rparr>) r"
| "did e r knd remote (Reaping w) es \<longleftrightarrow> es = settle (e\<lparr>re_wake := w\<rparr>) r"
| "did e r knd remote (DrainOutput w) es \<longleftrightarrow> es = settle (e\<lparr>re_wake := w\<rparr>) r"
| "did e r knd remote (ClearMaster w) es \<longleftrightarrow> es = sup_first e r knd remote w"
| "did e r knd remote _ es \<longleftrightarrow> False"

fun did_after :: "run_env \<Rightarrow> childRunner \<Rightarrow> sup_pc \<Rightarrow> seffect list \<Rightarrow> bool" where
  "did_after e r (Finishing w xs) es \<longleftrightarrow> es @ xs = finish_effects e r w"
| "did_after e r (AwaitClosed w) es \<longleftrightarrow> es = finish_effects e r w"
| "did_after e r (RunReturned w) es \<longleftrightarrow> es = finish_effects e r w"
| "did_after e r _ es \<longleftrightarrow> False"

definition one_reply :: "seffect list \<Rightarrow> bool" where
  "one_reply es \<longleftrightarrow> es = [] \<or> (\<exists>ok. es = [Reply ok])"

definition before_clear :: "run_env \<Rightarrow> childRunner \<Rightarrow> string \<Rightarrow> string \<Rightarrow> sessionState \<Rightarrow> sup_state \<Rightarrow> bool" where
  "before_clear e r knd remote st s \<longleftrightarrow> (\<exists>as bs. did e r knd remote (ss_pc s) bs \<and>
     as @ ss_reply s = processInflightRequests (ss_handled s) st \<and> ss_effects s \<in> shuffles as bs \<and> ss_st s = st)"

definition after_clear :: "run_env \<Rightarrow> childRunner \<Rightarrow> string \<Rightarrow> string \<Rightarrow> sessionState \<Rightarrow> sup_state \<Rightarrow> bool" where
  "after_clear e r knd remote st s \<longleftrightarrow> (\<exists>w n as late as' bs' es es'. woken_by (ss_pc s) = Some w \<and> did_after e r (ss_pc s) bs' \<and>
     n \<le> length (ss_handled s) \<and> one_reply late \<and> as @ late = processInflightRequests (take n (ss_handled s)) st \<and>
     es \<in> shuffles as (sup_first e r knd remote w) \<and>
     as' @ ss_reply s = late @ processInflightRequests (drop n (ss_handled s)) (clear_master r st) \<and>
     es' \<in> shuffles as' bs' \<and> ss_effects s = es @ es' \<and> ss_st s = clear_master r st)"

definition sup_parts :: "run_env \<Rightarrow> childRunner \<Rightarrow> string \<Rightarrow> string \<Rightarrow> sessionState \<Rightarrow> sup_state \<Rightarrow> bool" where
  "sup_parts e r knd remote st s \<longleftrightarrow> before_clear e r knd remote st s \<or> after_clear e r knd remote st s"

text \<open>A supervisor woken by the end of the request channel runs after the request goroutine.\<close>

definition after_requests :: "run_env \<Rightarrow> childRunner \<Rightarrow> string \<Rightarrow> string \<Rightarrow> sessionState \<Rightarrow> sup_state \<Rightarrow> bool" where
  "after_requests e r knd remote st s \<longleftrightarrow> (woken_by (ss_pc s) = Some ChanClosed \<longrightarrow> ss_chanClosed s \<and>
     (\<exists>bs. (did e r knd remote (ss_pc s) bs \<or> (\<exists>bs'. did_after e r (ss_pc s) bs' \<and> bs = sup_first e r knd remote ChanClosed @ bs')) \<and>
       ss_effects s = processInflightRequests (ss_handled s) st @ bs))"

definition waits_ok :: "sup_state \<Rightarrow> bool" where
  "waits_ok s \<longleftrightarrow> one_reply (ss_reply s) \<and> (ss_chanClosed s \<longrightarrow> ss_reqs_closed s \<and> ss_queue s = [] \<and> ss_reply s = []) \<and>
     (\<forall>w. ss_pc s = RunReturned w \<longrightarrow> ss_chanClosed s) \<and>
     (case ss_pc s of SupSelect \<Rightarrow> True | Killing w xs \<Rightarrow> w \<noteq> ChildExited | Reaping w \<Rightarrow> w \<noteq> ChildExited | _ \<Rightarrow> ss_waited s)"

definition sup_inv :: "run_env \<Rightarrow> childRunner \<Rightarrow> string \<Rightarrow> string \<Rightarrow> sessionState \<Rightarrow> sup_state \<Rightarrow> bool" where
  "sup_inv e r knd remote st s \<longleftrightarrow> waits_ok s \<and> sup_parts e r knd remote st s \<and> after_requests e r knd remote st s"

lemma shuffles_append_left: "zs \<in> shuffles xs ys \<Longrightarrow> zs @ ws \<in> shuffles (xs @ ws) ys"
proof (induction xs ys arbitrary: zs rule: shuffles.induct)
  case (1 ys)
  then show ?case using append_in_shuffles [of ys ws] by (simp add: shuffles_commutes [of ws])
next
  case (2 x xs)
  then show ?case by simp
next
  case (3 x xs y ys)
  then show ?case by (auto intro: Cons_in_shuffles_leftI Cons_in_shuffles_rightI)
qed

lemma shuffles_append_right: "zs \<in> shuffles xs ys \<Longrightarrow> zs @ ws \<in> shuffles xs (ys @ ws)"
  using shuffles_append_left [of zs ys xs ws] by (simp add: shuffles_commutes)

lemma processInflight_append [simp]:
  "processInflightRequests (xs @ ys) st = processInflightRequests xs st @ processInflightRequests ys st"
  by (simp add: processInflightRequests_def)

lemma processInflight_simps [simp]:
  "processInflightRequests [] st = []" "processInflightRequests (q # qs) st = inflight_request q st @ processInflightRequests qs st"
  by (simp_all add: processInflightRequests_def)

lemma inflight_rest: "one_reply (drop 1 (inflight_request q st))"
  by (auto simp: one_reply_def inflight_request_def handleWindowChange_def reply_def split: sum.split option.split)

lemma waits_ok_step: "sup_step e r knd remote l s t \<Longrightarrow> waits_ok s \<Longrightarrow> waits_ok t"
  by (erule sup_step.cases) (auto simp: waits_ok_def inflight_rest [simplified] one_reply_def [of "[]"] one_reply_def [of "_ # _"] split: sup_pc.split)

text \<open>How the recorded run grows: by a step of the request goroutine, or by one of the supervisor, on either side of the clearing.\<close>

lemma before_clear_request:
  assumes "before_clear e r knd remote st s" and "ss_pc t = ss_pc s" and "ss_st t = ss_st s" and "ss_effects t = ss_effects s @ xs"
    and "\<And>as. as @ ss_reply s = processInflightRequests (ss_handled s) st \<Longrightarrow> ss_st s = st \<Longrightarrow>
      as @ xs @ ss_reply t = processInflightRequests (ss_handled t) st"
  shows "before_clear e r knd remote st t"
proof -
  from assms(1) obtain as bs where *: "did e r knd remote (ss_pc s) bs" "as @ ss_reply s = processInflightRequests (ss_handled s) st"
    "ss_effects s \<in> shuffles as bs" "ss_st s = st" by (auto simp: before_clear_def)
  with assms(5) have "(as @ xs) @ ss_reply t = processInflightRequests (ss_handled t) st" by simp
  with * shuffles_append_left [OF *(3), of xs] assms(2-4) show ?thesis
    unfolding before_clear_def by metis
qed

lemma after_clearI:
  assumes "woken_by (ss_pc s) = Some w" and "did_after e r (ss_pc s) bs'" and "n \<le> length (ss_handled s)" and "one_reply late"
    and "as @ late = processInflightRequests (take n (ss_handled s)) st" and "es \<in> shuffles as (sup_first e r knd remote w)"
    and "as' @ ss_reply s = late @ processInflightRequests (drop n (ss_handled s)) (clear_master r st)"
    and "es' \<in> shuffles as' bs'" and "ss_effects s = es @ es'" and "ss_st s = clear_master r st"
  shows "after_clear e r knd remote st s"
  unfolding after_clear_def using assms by (intro exI conjI)

lemma after_clearE:
  assumes "after_clear e r knd remote st s"
  obtains w n as late as' bs' es es' where "woken_by (ss_pc s) = Some w" "did_after e r (ss_pc s) bs'"
    "n \<le> length (ss_handled s)" "one_reply late" "as @ late = processInflightRequests (take n (ss_handled s)) st"
    "es \<in> shuffles as (sup_first e r knd remote w)"
    "as' @ ss_reply s = late @ processInflightRequests (drop n (ss_handled s)) (clear_master r st)"
    "es' \<in> shuffles as' bs'" "ss_effects s = es @ es'" "ss_st s = clear_master r st"
  using assms unfolding after_clear_def by blast

lemma after_clear_request:
  assumes "after_clear e r knd remote st s" and "ss_pc t = ss_pc s" and "ss_st t = ss_st s" and "ss_effects t = ss_effects s @ xs"
    and "ss_handled t = ss_handled s @ qs"
    and "\<And>as ps. as @ ss_reply s = ps \<Longrightarrow> ss_st s = clear_master r st \<Longrightarrow>
      as @ xs @ ss_reply t = ps @ processInflightRequests qs (clear_master r st)"
  shows "after_clear e r knd remote st t"
  using assms(1)
proof (cases rule: after_clearE)
  case (1 w n as late as' bs' es es')
  have "take n (ss_handled t) = take n (ss_handled s)" "drop n (ss_handled t) = drop n (ss_handled s) @ qs"
    using 1(3) by (simp_all add: assms(5))
  with assms(6) [OF 1(7,10)]
  have "(as' @ xs) @ ss_reply t = late @ processInflightRequests (drop n (ss_handled t)) (clear_master r st)"
    and "as @ late = processInflightRequests (take n (ss_handled t)) st"
    using 1(5) by simp_all
  moreover have "ss_effects t = es @ es' @ xs" "woken_by (ss_pc t) = Some w" "did_after e r (ss_pc t) bs'"
    "n \<le> length (ss_handled t)" "ss_st t = clear_master r st"
    using 1 assms(2-5) by simp_all
  ultimately show ?thesis using after_clearI 1(4,6) shuffles_append_left [OF 1(8), of xs] by blast
qed

lemma before_clear_supervisor:
  assumes "before_clear e r knd remote st s" and "ss_handled t = ss_handled s" and "ss_reply t = ss_reply s" and "ss_st t = ss_st s"
    and "ss_effects t = ss_effects s @ xs" and "\<And>bs. did e r knd remote (ss_pc s) bs \<Longrightarrow> did e r knd remote (ss_pc t) (bs @ xs)"
  shows "before_clear e r knd remote st t"
proof -
  from assms(1) obtain as bs where *: "did e r knd remote (ss_pc s) bs" "as @ ss_reply s = processInflightRequests (ss_handled s) st"
    "ss_effects s \<in> shuffles as bs" "ss_st s = st" by (auto simp: before_clear_def)
  with assms(2-5) assms(6) [OF *(1)] shuffles_append_right [OF *(3), of xs] show ?thesis
    unfolding before_clear_def by metis
qed

lemma after_clear_supervisor:
  assumes "after_clear e r knd remote st s" and "ss_handled t = ss_handled s" and "ss_reply t = ss_reply s" and "ss_st t = ss_st s"
    and "ss_effects t = ss_effects s @ xs" and "woken_by (ss_pc t) = woken_by (ss_pc s)"
    and "\<And>bs. did_after e r (ss_pc s) bs \<Longrightarrow> did_after e r (ss_pc t) (bs @ xs)"
  shows "after_clear e r knd remote st t"
  using assms(1)
proof (cases rule: after_clearE)
  case (1 w n as late as' bs' es es')
  moreover from 1 assms(2-7) have "ss_effects t = es @ es' @ xs" "woken_by (ss_pc t) = Some w" "did_after e r (ss_pc t) (bs' @ xs)"
    "n \<le> length (ss_handled t)" "ss_st t = clear_master r st" by simp_all
  ultimately show ?thesis
    using after_clearI [of t w e r "bs' @ xs" n late as st es knd remote as' "es' @ xs"] shuffles_append_right [OF 1(8), of xs]
    by (simp only: assms(2,3))
qed

lemma clear_now:
  assumes "before_clear e r knd remote st s" and "ss_pc s = ClearMaster w" and "one_reply (ss_reply s)"
  shows "after_clear e r knd remote st (s\<lparr>ss_pc := Finishing w (finish_effects e r w), ss_st := clear_master r (ss_st s)\<rparr>)"
proof -
  from assms(1,2) obtain as where *: "as @ ss_reply s = processInflightRequests (ss_handled s) st"
    "ss_effects s \<in> shuffles as (sup_first e r knd remote w)" "ss_st s = st" by (auto simp: before_clear_def)
  show ?thesis
    by (rule after_clearI [of _ w _ _ "[]" "length (ss_handled s)" "ss_reply s" as _ "ss_effects s" _ _ "[]" "[]"])
      (simp_all add: assms(3) *)
qed

lemma surroundings_irrelevant [simp]:
  "before_clear e r knd remote st (s\<lparr>ss_queue := qs\<rparr>) = before_clear e r knd remote st s"
  "before_clear e r knd remote st (s\<lparr>ss_reqs_closed := b\<rparr>) = before_clear e r knd remote st s"
  "before_clear e r knd remote st (s\<lparr>ss_chanClosed := b\<rparr>) = before_clear e r knd remote st s"
  "before_clear e r knd remote st (s\<lparr>ss_ctx_done := b\<rparr>) = before_clear e r knd remote st s"
  "before_clear e r knd remote st (s\<lparr>ss_waited := b\<rparr>) = before_clear e r knd remote st s"
  "after_clear e r knd remote st (s\<lparr>ss_queue := qs\<rparr>) = after_clear e r knd remote st s"
  "after_clear e r knd remote st (s\<lparr>ss_reqs_closed := b\<rparr>) = after_clear e r knd remote st s"
  "after_clear e r knd remote st (s\<lparr>ss_chanClosed := b\<rparr>) = after_clear e r knd remote st s"
  "after_clear e r knd remote st (s\<lparr>ss_ctx_done := b\<rparr>) = after_clear e r knd remote st s"
  "after_clear e r knd remote st (s\<lparr>ss_waited := b\<rparr>) = after_clear e r knd remote st s"
  by (simp_all add: before_clear_def after_clear_def)

lemma sup_parts_supervisor:
  assumes "sup_parts e r knd remote st s" and "ss_handled t = ss_handled s" and "ss_reply t = ss_reply s" and "ss_st t = ss_st s"
    and "ss_effects t = ss_effects s @ xs"
    and "\<And>bs. did e r knd remote (ss_pc s) bs \<Longrightarrow> did e r knd remote (ss_pc t) (bs @ xs)"
    and "\<And>bs. did_after e r (ss_pc s) bs \<Longrightarrow> did_after e r (ss_pc t) (bs @ xs) \<and> woken_by (ss_pc t) = woken_by (ss_pc s)"
  shows "sup_parts e r knd remote st t"
  using assms(1) unfolding sup_parts_def
proof
  assume "before_clear e r knd remote st s"
  from before_clear_supervisor [OF this assms(2-6)] show "before_clear e r knd remote st t \<or> after_clear e r knd remote st t" ..
next
  assume a: "after_clear e r knd remote st s"
  then obtain bs where "did_after e r (ss_pc s) bs" by (auto simp: after_clear_def)
  with assms(7) after_clear_supervisor [OF a assms(2-5)] show "before_clear e r knd remote st t \<or> after_clear e r knd remote st t" by blast
qed

lemma sup_parts_request:
  assumes "sup_parts e r knd remote st s" and "ss_pc t = ss_pc s" and "ss_st t = ss_st s" and "ss_effects t = ss_effects s @ xs"
    and "ss_handled t = ss_handled s @ qs" and "xs @ ss_reply t = ss_reply s @ processInflightRequests qs (ss_st s)"
  shows "sup_parts e r knd remote st t"
  using assms(1) unfolding sup_parts_def
proof
  assume "before_clear e r knd remote st s"
  from before_clear_request [OF this assms(2-4)] assms(5,6) show "before_clear e r knd remote st t \<or> after_clear e r knd remote st t"
    by (metis append_assoc processInflight_append)
next
  assume "after_clear e r knd remote st s"
  from after_clear_request [OF this assms(2-5)] assms(6) show "before_clear e r knd remote st t \<or> after_clear e r knd remote st t"
    by (metis append_assoc)
qed

lemma sup_parts_step:
  assumes "sup_step e r knd remote l s t" and "waits_ok s" and p: "sup_parts e r knd remote st s"
  shows "sup_parts e r knd remote st t"
  using assms(1)
proof (cases rule: sup_step.cases)
  case (request_take q qs es)
  with sup_parts_request [OF p, of t "take 1 es" "[q]"] show ?thesis by simp
next
  case (request_reply x xs)
  with sup_parts_request [OF p, of t "[x]" "[]"] show ?thesis by simp
next
  case select_ctx
  with sup_parts_supervisor [OF p, of t "[]"] show ?thesis by simp
next
  case select_closed
  with sup_parts_supervisor [OF p, of t "[]"] show ?thesis by simp
next
  case select_exit
  with sup_parts_supervisor [OF p, of t "[]"] show ?thesis by (simp add: settle_def)
next
  case (kill_emit w x xs)
  with sup_parts_supervisor [OF p, of t "[x]"] show ?thesis by simp
next
  case (kill_done w)
  with sup_parts_supervisor [OF p, of t "[]"] show ?thesis by simp
next
  case (reap w)
  with sup_parts_supervisor [OF p, of t "[]"] show ?thesis by simp
next
  case (drain_output w)
  with sup_parts_supervisor [OF p, of t "drain (re_finished e) remote knd (r_drainDones r)"] show ?thesis by (simp add: sup_first_def)
next
  case (clear_pty w)
  then have "\<not> after_clear e r knd remote st s" by (simp add: after_clear_def)
  with p have "before_clear e r knd remote st s" by (simp add: sup_parts_def)
  from clear_now [OF this clear_pty(3)] assms(2) clear_pty show ?thesis by (simp add: waits_ok_def sup_parts_def)
next
  case (finish_emit w x xs)
  with sup_parts_supervisor [OF p, of t "[x]"] show ?thesis by simp
next
  case (finish_done w)
  with sup_parts_supervisor [OF p, of t "[]"] show ?thesis by simp
next
  case (await_closed w)
  with sup_parts_supervisor [OF p, of t "[]"] show ?thesis by simp
qed (use p in \<open>simp_all add: sup_parts_def\<close>)

lemma after_requests_step:
  assumes "sup_step e r knd remote l s t" and "waits_ok s" and "after_requests e r knd remote st s" and p: "sup_parts e r knd remote st s"
  shows "after_requests e r knd remote st t"
  using assms(1)
proof (cases rule: sup_step.cases)
  case select_closed
  with assms(2) have "ss_reply s = []" by (simp add: waits_ok_def)
  moreover from p select_closed have "before_clear e r knd remote st s" by (auto simp: sup_parts_def after_clear_def)
  ultimately show ?thesis using select_closed by (auto simp: after_requests_def before_clear_def)
next
  case (drain_output w)
  with assms(3) show ?thesis by (auto simp: after_requests_def sup_first_def)
qed (use assms(2,3) in \<open>auto simp: after_requests_def waits_ok_def\<close>)

lemma sup_inv_step:
  assumes "sup_inv e r knd remote st s" and "sup_step e r knd remote l s t"
  shows "sup_inv e r knd remote st t"
  using assms(1) waits_ok_step [OF assms(2)] sup_parts_step [OF assms(2)] after_requests_step [OF assms(2)] by (simp add: sup_inv_def)

interpretation sup: inv_system "\<lambda>s. s = sup_start st" "sup_next e r knd remote" "sup_inv e r knd remote st" for e r knd remote st
proof
  fix s assume "s = sup_start st"
  then show "sup_inv e r knd remote st s"
    by (simp add: sup_inv_def sup_start_def waits_ok_def one_reply_def sup_parts_def before_clear_def after_requests_def)
next
  fix s t assume "sup_inv e r knd remote st s" and "sup_next e r knd remote s t"
  then show "sup_inv e r knd remote st t"
    unfolding sup_next_def by (elim exE) (rule sup_inv_step)
qed

section \<open>Runs and their effects\<close>

inductive sup_run :: "run_env \<Rightarrow> childRunner \<Rightarrow> string \<Rightarrow> string \<Rightarrow> sup_state \<Rightarrow> sup_label list \<Rightarrow> sup_state \<Rightarrow> bool"
  for e :: run_env and r :: childRunner and knd :: string and remote :: string and s :: sup_state where
  run_nil: "sup_run e r knd remote s [] s"
| run_snoc: "sup_run e r knd remote s ls t \<Longrightarrow> sup_step e r knd remote l t u \<Longrightarrow> sup_run e r knd remote s (ls @ [l]) u"

fun arrived :: "sup_label \<Rightarrow> request list" where
  "arrived (Arrive q) = [q]"
| "arrived _ = []"

definition arrivals :: "sup_label list \<Rightarrow> request list" where
  "arrivals ls = concat (map arrived ls)"

lemma run_inv: "sup_run e r knd remote (sup_start st) ls s \<Longrightarrow> sup_inv e r knd remote st s"
  by (induction rule: sup_run.induct) (auto intro: sup.start_inv sup_inv_step)

lemma run_arrivals: "sup_run e r knd remote (sup_start st) ls s \<Longrightarrow> arrivals ls = ss_handled s @ ss_queue s"
proof (induction rule: sup_run.induct)
  case (run_snoc ls t l u)
  from run_snoc(2) have "ss_handled u @ ss_queue u = ss_handled t @ ss_queue t @ arrived l"
    by (cases rule: sup_step.cases) simp_all
  with run_snoc(3) show ?case by (simp add: arrivals_def)
qed (simp add: arrivals_def sup_start_def)

lemma split_late_reply: "one_reply late \<Longrightarrow> split_late (late \<noteq> []) (as @ late) = (as, late)"
  by (auto simp: one_reply_def split_late_def)

lemma settle_env:
  "settle (e\<lparr>re_wake := w, re_during := n, re_late := b, re_sched1 := s1, re_sched2 := s2\<rparr>) r = settle (e\<lparr>re_wake := w\<rparr>) r"
  by (cases w) (simp_all add: settle_def)

text \<open>
  C8: The supervisor and the request goroutine together do what \<open>runChild\<close> says. However the cancellation of the context, the end of
  the request channel, the arrival of requests, the end of the child and the steps of the two goroutines follow each other, the effects of a run
  that returns are those of \<open>runChild\<close> on the requests that arrived, for the case that settled the select and some interleaving.
\<close>

theorem supervision_refines_runChild:
  assumes "sup_run e r knd remote (sup_start st) ls s" and "ss_pc s = RunReturned w"
  shows "\<exists>n late sched1 sched2. ss_effects s =
    runChild (e\<lparr>re_wake := w, re_during := n, re_late := late, re_sched1 := sched1, re_sched2 := sched2\<rparr>) (arrivals ls) st r knd remote"
proof -
  note inv = run_inv [OF assms(1)]
  have "ss_queue s = []" "ss_reply s = []" using inv assms(2) by (auto simp: sup_inv_def waits_ok_def)
  with run_arrivals [OF assms(1)] have arr: "arrivals ls = ss_handled s" by simp
  show ?thesis
  proof (cases "w = ChanClosed")
    case True
    with inv assms(2) have "ss_effects s = processInflightRequests (ss_handled s) st @ sup_first e r knd remote w @ finish_effects e r w"
      by (auto simp: sup_inv_def after_requests_def)
    then have "ss_effects s = runChild (e\<lparr>re_wake := w, re_during := n, re_late := late, re_sched1 := sched1, re_sched2 := sched2\<rparr>)
        (arrivals ls) st r knd remote" for n late sched1 sched2
      by (simp add: runChild_def settle_env sup_first_def finish_effects_def arr True)
    then show ?thesis by blast
  next
    case False
    from inv assms(2) have "after_clear e r knd remote st s" by (auto simp: sup_inv_def sup_parts_def before_clear_def)
    then show ?thesis
    proof (cases rule: after_clearE)
      case (1 w' n as late as' bs' es es')
      with assms(2) have w: "w' = w" "bs' = finish_effects e r w" by simp_all
      from 1(6,8) obtain sched1 sched2 where
        m: "es = merge sched1 as (sup_first e r knd remote w)" "es' = merge sched2 as' (finish_effects e r w)"
        unfolding merge_shuffles w by blast
      have "as' = late @ processInflightRequests (drop n (ss_handled s)) (clear_master r st)"
        using 1(7) \<open>ss_reply s = []\<close> by simp
      with m 1(9) False have "ss_effects s = runChild
          (e\<lparr>re_wake := w, re_during := n, re_late := late \<noteq> [], re_sched1 := sched1, re_sched2 := sched2\<rparr>) (arrivals ls) st r knd remote"
        by (simp add: runChild_def settle_env arr flip: 1(5))
          (simp add: split_late_reply [OF 1(4)] sup_first_def finish_effects_def clear_master_def settle_env)
      then show ?thesis by blast
    qed
  qed
qed

section \<open>The steps as a function\<close>

text \<open>The successors of a state under a label, in the order of the cases of the select; they are exactly the steps.\<close>

definition sup_succs :: "run_env \<Rightarrow> childRunner \<Rightarrow> string \<Rightarrow> string \<Rightarrow> sup_label \<Rightarrow> sup_state \<Rightarrow> sup_state list" where
  "sup_succs e r knd remote l s =
     (case l of
        Arrive q \<Rightarrow> if ss_reqs_closed s then [] else [s\<lparr>ss_queue := ss_queue s @ [q]\<rparr>]
      | ReqsClosed \<Rightarrow> [s\<lparr>ss_reqs_closed := True\<rparr>]
      | CtxCancelled \<Rightarrow> [s\<lparr>ss_ctx_done := True\<rparr>]
      | ChildWaited \<Rightarrow> [s\<lparr>ss_waited := True\<rparr>]
      | ReqStep \<Rightarrow>
          (case ss_reply s of
             x # xs \<Rightarrow> [s\<lparr>ss_reply := xs, ss_effects := ss_effects s @ [x]\<rparr>]
           | [] \<Rightarrow> (case ss_queue s of
                 q # qs \<Rightarrow> [s\<lparr>ss_queue := qs, ss_reply := drop 1 (inflight_request q (ss_st s)), ss_handled := ss_handled s @ [q],
                     ss_effects := ss_effects s @ take 1 (inflight_request q (ss_st s))\<rparr>]
               | [] \<Rightarrow> if ss_reqs_closed s \<and> \<not> ss_chanClosed s then [s\<lparr>ss_chanClosed := True\<rparr>] else []))
      | SupStep \<Rightarrow>
          (case ss_pc s of
             SupSelect \<Rightarrow>
               (if ss_ctx_done s then [s\<lparr>ss_pc := Killing CtxDone (settle (e\<lparr>re_wake := CtxDone\<rparr>) r)\<rparr>] else []) @
               (if ss_chanClosed s then [s\<lparr>ss_pc := Killing ChanClosed (settle (e\<lparr>re_wake := ChanClosed\<rparr>) r)\<rparr>] else []) @
               (if ss_waited s then [s\<lparr>ss_pc := DrainOutput ChildExited\<rparr>] else [])
           | Killing w xs \<Rightarrow>
               (case xs of x # xs \<Rightarrow> [s\<lparr>ss_pc := Killing w xs, ss_effects := ss_effects s @ [x]\<rparr>] | [] \<Rightarrow> [s\<lparr>ss_pc := Reaping w\<rparr>])
           | Reaping w \<Rightarrow> if ss_waited s then [s\<lparr>ss_pc := DrainOutput w\<rparr>] else []
           | DrainOutput w \<Rightarrow>
               [s\<lparr>ss_pc := ClearMaster w, ss_effects := ss_effects s @ drain (re_finished e) remote knd (r_drainDones r)\<rparr>]
           | ClearMaster w \<Rightarrow> [s\<lparr>ss_pc := Finishing w (finish_effects e r w), ss_st := clear_master r (ss_st s)\<rparr>]
           | Finishing w xs \<Rightarrow>
               (case xs of x # xs \<Rightarrow> [s\<lparr>ss_pc := Finishing w xs, ss_effects := ss_effects s @ [x]\<rparr>] | [] \<Rightarrow> [s\<lparr>ss_pc := AwaitClosed w\<rparr>])
           | AwaitClosed w \<Rightarrow> if ss_chanClosed s then [s\<lparr>ss_pc := RunReturned w\<rparr>] else []
           | RunReturned w \<Rightarrow> []))"

lemma sup_succs_steps: "sup_step e r knd remote l s t \<longleftrightarrow> t \<in> set (sup_succs e r knd remote l s)"
proof
  show "sup_step e r knd remote l s t \<Longrightarrow> t \<in> set (sup_succs e r knd remote l s)"
    by (erule sup_step.cases) (simp_all add: sup_succs_def)
next
  assume "t \<in> set (sup_succs e r knd remote l s)"
  then show "sup_step e r knd remote l s t"
    by (cases l) (auto simp: sup_succs_def intro: sup_step.intros sup_step.request_take [OF _ _ refl, unfolded One_nat_def] sym
        split: if_split_asm list.split_asm sup_pc.split_asm)
qed

fun run_succs :: "run_env \<Rightarrow> childRunner \<Rightarrow> string \<Rightarrow> string \<Rightarrow> sup_label list \<Rightarrow> sup_state \<Rightarrow> sup_state list" where
  "run_succs e r knd remote [] s = [s]"
| "run_succs e r knd remote (l # ls) s = concat (map (run_succs e r knd remote ls) (sup_succs e r knd remote l s))"

lemma run_cons: "sup_run e r knd remote t ls u \<Longrightarrow> sup_step e r knd remote l s t \<Longrightarrow> sup_run e r knd remote s (l # ls) u"
proof (induction rule: sup_run.induct)
  case run_nil
  from sup_run.run_snoc [OF sup_run.run_nil this] show ?case by simp
next
  case (run_snoc ls t l' u)
  from sup_run.run_snoc [OF run_snoc(3) [OF run_snoc(4)] run_snoc(2)] show ?case by simp
qed

lemma run_succs_run: "t \<in> set (run_succs e r knd remote ls s) \<Longrightarrow> sup_run e r knd remote s ls t"
proof (induction ls arbitrary: s)
  case (Cons l ls)
  then obtain u where "u \<in> set (sup_succs e r knd remote l s)" "t \<in> set (run_succs e r knd remote ls u)" by auto
  with Cons.IH show ?case using run_cons sup_succs_steps by blast
qed (simp add: sup_run.run_nil)

section \<open>Waiting\<close>

definition sup_own :: "run_env \<Rightarrow> childRunner \<Rightarrow> string \<Rightarrow> string \<Rightarrow> sup_state \<Rightarrow> sup_state \<Rightarrow> bool" where
  "sup_own e r knd remote s t \<longleftrightarrow> sup_step e r knd remote ReqStep s t \<or> sup_step e r knd remote SupStep s t"

text \<open>How many steps of their own the two goroutines can still take.\<close>

fun pc_left :: "nat \<Rightarrow> sup_pc \<Rightarrow> nat" where
  "pc_left n SupSelect = 11 + n"
| "pc_left n (Killing w xs) = 6 + length xs + n"
| "pc_left n (Reaping w) = 5 + n"
| "pc_left n (DrainOutput w) = 4 + n"
| "pc_left n (ClearMaster w) = 3 + n"
| "pc_left n (Finishing w xs) = 2 + length xs"
| "pc_left n (AwaitClosed w) = 1"
| "pc_left n (RunReturned w) = 0"

definition steps_left :: "childRunner \<Rightarrow> sup_state \<Rightarrow> nat" where
  "steps_left r s = pc_left (length (r_closers r) + 2) (ss_pc s) + 2 * length (ss_queue s) + length (ss_reply s) + (if ss_chanClosed s then 0 else 1)"

lemma length_settle: "length (settle e r) \<le> 4"
  by (simp add: settle_def signalAndKill_def split: wake.split)

lemma length_finish: "length (finish_effects e r w) \<le> length (r_closers r) + 2"
  by (cases "re_ps e") (simp_all add: finish_effects_def case_prod_beta)

lemma length_inflight: "length (inflight_request q st) \<le> 2"
  using inflight_rest [of q st] by (cases "inflight_request q st") (auto simp: one_reply_def)

lemma own_decreases:
  assumes "sup_own e r knd remote s t"
  shows "steps_left r t < steps_left r s"
proof -
  have f: "length (finish_effects e r w) < 3 + length (r_closers r)" for w
    using length_finish [of e r w] by simp
  have q: "length (inflight_request q st) - Suc 0 < 2" for q st
    using length_inflight [of q st] by simp
  show ?thesis
    using assms length_settle [of "e\<lparr>re_wake := CtxDone\<rparr>" r] length_settle [of "e\<lparr>re_wake := ChanClosed\<rparr>" r] f q
    unfolding sup_own_def by (auto elim!: sup_ownE simp: steps_left_def)
qed

lemma own_run_bound: "(sup_own e r knd remote ^^ k) s t \<Longrightarrow> k + steps_left r t \<le> steps_left r s"
proof (induction k arbitrary: t)
  case (Suc k)
  then obtain u where "(sup_own e r knd remote ^^ k) s u" "sup_own e r knd remote u t" by auto
  with Suc.IH [of u] own_decreases [of e r knd remote u t] show ?case by simp
qed simp

lemma steps_left_bound:
  assumes "sup_inv e r knd remote st s"
  shows "steps_left r s \<le> length (r_closers r) + 2 * length (ss_queue s) + 15"
proof -
  have "length (ss_reply s) \<le> 1" using assms by (auto simp: sup_inv_def waits_ok_def one_reply_def)
  moreover have "pc_left (length (r_closers r) + 2) (ss_pc s) \<le> length (r_closers r) + 13"
  proof (cases "ss_pc s")
    case (Killing w xs)
    with assms obtain bs where "bs @ xs = settle (e\<lparr>re_wake := w\<rparr>) r"
      by (auto simp: sup_inv_def sup_parts_def before_clear_def after_clear_def)
    with length_settle [of "e\<lparr>re_wake := w\<rparr>" r] have "length xs \<le> 4" by (metis add_leD2 length_append)
    with Killing show ?thesis by simp
  next
    case (Finishing w xs)
    with assms obtain bs where "bs @ xs = finish_effects e r w"
      by (auto simp: sup_inv_def sup_parts_def before_clear_def after_clear_def)
    with length_finish [of e r w] have "length xs \<le> length (r_closers r) + 2" by (metis add_leD2 length_append)
    with Finishing show ?thesis by simp
  qed simp_all
  ultimately show ?thesis by (simp add: steps_left_def)
qed

text \<open>The two goroutines are both blocked exactly at the receives of the code.\<close>

definition both_wait :: "sup_state \<Rightarrow> bool" where
  "both_wait s \<longleftrightarrow> ss_reply s = [] \<and> ss_queue s = [] \<and> (ss_reqs_closed s \<longrightarrow> ss_chanClosed s) \<and>
     (case ss_pc s of
        SupSelect \<Rightarrow> \<not> ss_ctx_done s \<and> \<not> ss_chanClosed s \<and> \<not> ss_waited s
      | Reaping w \<Rightarrow> \<not> ss_waited s
      | AwaitClosed w \<Rightarrow> \<not> ss_chanClosed s
      | RunReturned w \<Rightarrow> True
      | _ \<Rightarrow> False)"

lemma both_wait_iff: "(\<nexists>t. sup_own e r knd remote s t) \<longleftrightarrow> both_wait s"
proof -
  have "(\<nexists>t. sup_own e r knd remote s t) \<longleftrightarrow> sup_succs e r knd remote ReqStep s = [] \<and> sup_succs e r knd remote SupStep s = []"
    unfolding sup_own_def sup_succs_steps ex_disj_distrib ex_in_conv de_Morgan_disj not_not set_empty ..
  also have "\<dots> \<longleftrightarrow> both_wait s"
    by (auto simp: sup_succs_def both_wait_def split: list.split sup_pc.split)
  finally show ?thesis .
qed

section \<open>What the client has been told\<close>

definition silent :: "seffect list \<Rightarrow> bool" where
  "silent es \<longleftrightarrow> CloseChannel \<notin> set es \<and> over sends es = []"

lemma silent_append [simp]: "silent (xs @ ys) \<longleftrightarrow> silent xs \<and> silent ys" "silent []"
  by (auto simp: silent_def)

lemma silent_shuffles: "zs \<in> shuffles xs ys \<Longrightarrow> silent zs \<longleftrightarrow> silent xs \<and> silent ys"
proof -
  assume "zs \<in> shuffles xs ys"
  then obtain sc where zs: "zs = merge sc xs ys" using merge_shuffles by blast
  have "over sends zs = [] \<longleftrightarrow> over sends xs = [] \<and> over sends ys = []"
    using length_over_merge [of sends sc xs ys] by (simp add: zs flip: length_0_conv)
  then show ?thesis by (auto simp: silent_def zs set_merge)
qed

lemma silent_parts [simp]:
  "silent (processInflightRequests qs st)" "silent (sup_first e r knd remote w)"
  "silent (finish_effects e r w) \<longleftrightarrow> w \<noteq> ChildExited"
  by (auto simp: silent_def sup_first_def finish_effects_def no_close proj)

lemma silent_prefix: "xs @ ys = zs \<Longrightarrow> silent zs \<Longrightarrow> silent xs"
  by auto

lemma did_silent:
  assumes "did e r knd remote pc bs"
  shows "silent bs"
proof -
  have "silent (settle (e\<lparr>re_wake := w\<rparr>) r)" for w
    using silent_parts(2) [of e r knd remote w] by (simp add: sup_first_def)
  with assms show ?thesis by (cases pc) (auto intro: silent_prefix)
qed

lemma silent_until_report:
  assumes "sup_inv e r knd remote st s" and "woken_by (ss_pc s) \<noteq> Some ChildExited"
  shows "silent (ss_effects s)"
proof -
  from assms(1) consider "before_clear e r knd remote st s" | "after_clear e r knd remote st s"
    by (auto simp: sup_inv_def sup_parts_def)
  then show ?thesis
  proof cases
    case 1
    then obtain as bs where *: "did e r knd remote (ss_pc s) bs" "as @ ss_reply s = processInflightRequests (ss_handled s) st"
      "ss_effects s \<in> shuffles as bs" by (auto simp: before_clear_def)
    from *(2) have "silent (as @ ss_reply s)" by simp
    moreover have "silent bs" by (rule did_silent [OF *(1)])
    ultimately show ?thesis using silent_shuffles [OF *(3)] by simp
  next
    case 2
    then show ?thesis
    proof (cases rule: after_clearE)
      case (1 w n as late as' bs' es es')
      from 1(5) have a: "silent (as @ late)" by simp
      then have "silent (as' @ ss_reply s)" unfolding 1(7) by simp
      moreover have "silent bs'" using 1(1,2) assms(2) by (cases "ss_pc s") (auto intro: silent_prefix)
      moreover note a
      ultimately show ?thesis using silent_shuffles [OF 1(6)] silent_shuffles [OF 1(8)] 1(9) by simp
    qed
  qed
qed

section \<open>The end of the supervision\<close>

lemma own_kept:
  assumes "sup_own e r knd remote s t"
  shows "ss_waited t = ss_waited s" and "ss_reqs_closed t = ss_reqs_closed s"
    and "woken_by (ss_pc s) = Some w \<Longrightarrow> woken_by (ss_pc t) = Some w"
  using assms unfolding sup_own_def by (auto elim!: sup_ownE)

lemma own_run_kept:
  assumes "(sup_own e r knd remote ^^ k) s t" and "sup_inv e r knd remote st s"
  shows "sup_inv e r knd remote st t \<and> ss_waited t = ss_waited s \<and> ss_reqs_closed t = ss_reqs_closed s \<and>
    (woken_by (ss_pc s) = Some w \<longrightarrow> woken_by (ss_pc t) = Some w)"
  using assms
proof (induction k arbitrary: t)
  case (Suc k)
  then obtain u where "(sup_own e r knd remote ^^ k) s u" and o: "sup_own e r knd remote u t" by auto
  with Suc have IH: "sup_inv e r knd remote st u" "ss_waited u = ss_waited s" "ss_reqs_closed u = ss_reqs_closed s"
    "woken_by (ss_pc s) = Some w \<longrightarrow> woken_by (ss_pc u) = Some w" by simp_all
  moreover from o IH(1) have "sup_inv e r knd remote st t" by (auto simp: sup_own_def intro: sup_inv_step)
  ultimately show ?case using own_kept [OF o] by simp
qed simp

text \<open>
  C12: The handler of a session returns once the child has been waited for and the client's side of the channel is closed. From any
  moment of any run at which both are so, the two goroutines take at most a number of steps given by the requests still queued, and they only stop when
  \<^verbatim>\<open>runChild\<close> has returned: there is no other way to block, whichever case settled the select.
\<close>

theorem supervision_returns:
  assumes "sup_run e r knd remote (sup_start st) ls s" and "ss_waited s" and "ss_reqs_closed s"
    and "(sup_own e r knd remote ^^ k) s t"
  shows "k \<le> length (r_closers r) + 2 * length (ss_queue s) + 15 \<and>
    ((\<nexists>u. sup_own e r knd remote t u) \<longrightarrow> (\<exists>w. ss_pc t = RunReturned w))"
proof
  note inv = run_inv [OF assms(1)]
  show "k \<le> length (r_closers r) + 2 * length (ss_queue s) + 15"
    using own_run_bound [OF assms(4)] steps_left_bound [OF inv] by simp
  from own_run_kept [OF assms(4) inv] assms(2,3) have kept: "ss_waited t" "ss_reqs_closed t" by simp_all
  show "(\<nexists>u. sup_own e r knd remote t u) \<longrightarrow> (\<exists>w. ss_pc t = RunReturned w)"
  proof
    assume "\<nexists>u. sup_own e r knd remote t u"
    then have "both_wait t" unfolding both_wait_iff .
    with kept show "\<exists>w. ss_pc t = RunReturned w" by (cases "ss_pc t") (simp_all add: both_wait_def)
  qed
qed

text \<open>The client's side is closed only by the client: no other step ends the request channel.\<close>

lemma run_not_closed: "sup_run e r knd remote (sup_start st) ls s \<Longrightarrow> ReqsClosed \<notin> set ls \<Longrightarrow> \<not> ss_reqs_closed s"
proof (induction rule: sup_run.induct)
  case (run_snoc ls t l u)
  then have "\<not> ss_reqs_closed t" by simp
  with run_snoc(2,4) show ?case by (cases rule: sup_step.cases) simp_all
qed (simp add: sup_start_def)

text \<open>After a child that ended by itself the receive from \<^verbatim>\<open>chanClosed\<close> is reached with the channel closed, so that the client answers.\<close>

lemma exit_closes_first:
  assumes "sup_run e r knd remote (sup_start st) ls s" and "ss_pc s = AwaitClosed ChildExited"
  shows "CloseChannel \<in> set (ss_effects s)"
proof -
  from run_inv [OF assms(1)] assms(2) have "after_clear e r knd remote st s" by (auto simp: sup_inv_def sup_parts_def before_clear_def)
  then show ?thesis
  proof (cases rule: after_clearE)
    case (1 w n as late as' bs' es es')
    then have "set es' = set as' \<union> set (finish_effects e r ChildExited)" by (simp add: assms(2) set_shuffles)
    with 1(9) show ?thesis by (simp add: finish_effects_def)
  qed
qed

text \<open>
  C13: At a shutdown the server waits for the client, and the client is not told. Take a run in which the cancelled context has settled the select and the client has not closed its
  side. \<^verbatim>\<open>runChild\<close> has not returned, no exit report was sent and the channel was not closed. Once the child has been
  waited for, the two goroutines stop after a bounded number of steps at the receive from \<^verbatim>\<open>chanClosed\<close>, still in silence, and nothing but the
  client's close lets them go on.
\<close>

theorem shutdown_waits_for_client:
  assumes "sup_run e r knd remote (sup_start st) ls s" and "ReqsClosed \<notin> set ls" and "woken_by (ss_pc s) = Some CtxDone"
  shows "ss_pc s \<noteq> RunReturned CtxDone \<and> CloseChannel \<notin> set (ss_effects s) \<and> over sends (ss_effects s) = [] \<and>
    (ss_waited s \<longrightarrow> (\<forall>k t. (sup_own e r knd remote ^^ k) s t \<longrightarrow>
       k \<le> length (r_closers r) + 2 * length (ss_queue s) + 15 \<and>
       CloseChannel \<notin> set (ss_effects t) \<and> over sends (ss_effects t) = [] \<and>
       ((\<nexists>u. sup_own e r knd remote t u) \<longrightarrow> ss_pc t = AwaitClosed CtxDone)))"
proof (intro conjI impI allI)
  note inv = run_inv [OF assms(1)] and unclosed = run_not_closed [OF assms(1,2)]
  from inv unclosed show "ss_pc s \<noteq> RunReturned CtxDone" by (auto simp: sup_inv_def waits_ok_def)
  from silent_until_report [OF inv] assms(3) show "CloseChannel \<notin> set (ss_effects s)" "over sends (ss_effects s) = []"
    by (simp_all add: silent_def)
  fix k t assume w: "ss_waited s" and k: "(sup_own e r knd remote ^^ k) s t"
  show "k \<le> length (r_closers r) + 2 * length (ss_queue s) + 15"
    using own_run_bound [OF k] steps_left_bound [OF inv] by simp
  from own_run_kept [OF k inv, of CtxDone] w unclosed assms(3)
  have kept: "sup_inv e r knd remote st t" "ss_waited t" "\<not> ss_reqs_closed t" "woken_by (ss_pc t) = Some CtxDone" by simp_all
  from silent_until_report [OF kept(1)] kept(4) show "CloseChannel \<notin> set (ss_effects t)" "over sends (ss_effects t) = []"
    by (simp_all add: silent_def)
  assume "\<nexists>u. sup_own e r knd remote t u"
  then have "both_wait t" unfolding both_wait_iff .
  moreover from kept(1,3) have "\<not> ss_chanClosed t" by (auto simp: sup_inv_def waits_ok_def)
  ultimately show "ss_pc t = AwaitClosed CtxDone"
    using kept by (cases "ss_pc t") (auto simp: both_wait_def sup_inv_def waits_ok_def)
qed

section \<open>Why the child was signalled\<close>

text \<open>
  The reason in a shutdown-signal event is the case that settled the select. When the context has been cancelled and the request channel has ended, both cases are ready.
\<close>

lemma disconnect_race:
  assumes "why \<in> {''shutdown'', ''channel-close''}"
  obtains s where "sup_run e r knd remote (sup_start st) [ReqsClosed, CtxCancelled, ReqStep, SupStep, SupStep, SupStep] s"
    and "ss_effects s = [KillGroup (r_pgid r) SIGHUP, SLog (Log_ShutdownSignal (r_pgid r) ''HUP'' why)]"
proof -
  have "\<exists>s \<in> set (run_succs e r knd remote [ReqsClosed, CtxCancelled, ReqStep, SupStep, SupStep, SupStep] (sup_start st)).
    ss_effects s = [KillGroup (r_pgid r) SIGHUP, SLog (Log_ShutdownSignal (r_pgid r) ''HUP'' why)]"
    using assms by (auto simp: sup_succs_def sup_start_def settle_def signalAndKill_def)
  with that run_succs_run show thesis by blast
qed

text \<open>Without a cancelled context the reason is always \<^verbatim>\<open>channel-close\<close>, without the end of the request channel always \<^verbatim>\<open>shutdown\<close>.\<close>

definition happened :: "sup_label list \<Rightarrow> sup_state \<Rightarrow> bool" where
  "happened ls s \<longleftrightarrow> (ss_ctx_done s \<longleftrightarrow> CtxCancelled \<in> set ls) \<and> (ss_reqs_closed s \<longleftrightarrow> ReqsClosed \<in> set ls) \<and>
     (ss_waited s \<longleftrightarrow> ChildWaited \<in> set ls) \<and>
     (woken_by (ss_pc s) = Some CtxDone \<longrightarrow> ss_ctx_done s) \<and> (woken_by (ss_pc s) = Some ChanClosed \<longrightarrow> ss_reqs_closed s)"

lemma run_happened: "sup_run e r knd remote (sup_start st) ls s \<Longrightarrow> happened ls s"
proof (induction rule: sup_run.induct)
  case (run_snoc ls t l u)
  from run_inv [OF run_snoc(1)] have "ss_chanClosed t \<Longrightarrow> ss_reqs_closed t" by (simp add: sup_inv_def waits_ok_def)
  with run_snoc(2,3) show ?case by (cases rule: sup_step.cases) (auto simp: happened_def)
qed (simp add: happened_def sup_start_def)

text \<open>Where an effect comes from.\<close>

lemma in_prefix: "xs @ ys = zs \<Longrightarrow> x \<in> set xs \<Longrightarrow> x \<in> set zs"
  by auto

lemma did_origin: "did e r knd remote pc bs \<Longrightarrow> x \<in> set bs \<Longrightarrow> \<exists>w. woken_by pc = Some w \<and> x \<in> set (sup_first e r knd remote w)"
  by (cases pc) (auto simp: sup_first_def dest: in_prefix)

lemma did_after_origin: "did_after e r pc bs \<Longrightarrow> x \<in> set bs \<Longrightarrow> \<exists>w. woken_by pc = Some w \<and> x \<in> set (finish_effects e r w)"
  by (cases pc) (auto dest: in_prefix)

lemma effect_origin:
  assumes "sup_inv e r knd remote st s" and "x \<in> set (ss_effects s)"
  obtains qs st' where "x \<in> set (processInflightRequests qs st')"
  | w where "woken_by (ss_pc s) = Some w" "x \<in> set (sup_first e r knd remote w)"
  | w where "woken_by (ss_pc s) = Some w" "x \<in> set (finish_effects e r w)"
proof -
  from assms(1) consider "before_clear e r knd remote st s" | "after_clear e r knd remote st s"
    by (auto simp: sup_inv_def sup_parts_def)
  then show thesis
  proof cases
    case 1
    then obtain as bs where *: "did e r knd remote (ss_pc s) bs" "as @ ss_reply s = processInflightRequests (ss_handled s) st"
      "ss_effects s \<in> shuffles as bs" by (auto simp: before_clear_def)
    from assms(2) consider "x \<in> set as" | "x \<in> set bs" using set_shuffles [OF *(3)] by auto
    then show thesis
    proof cases
      case 1
      then have "x \<in> set (as @ ss_reply s)" by simp
      then show thesis unfolding *(2) by (rule that(1))
    next
      case 2
      from did_origin [OF *(1) this] that(2) show thesis by blast
    qed
  next
    case 2
    then show thesis
    proof (cases rule: after_clearE)
      case (1 w n as late as' bs' es es')
      from assms(2) 1(9) consider "x \<in> set (as @ late)" | "x \<in> set (sup_first e r knd remote w)" | "x \<in> set (as' @ ss_reply s)" | "x \<in> set bs'"
        using set_shuffles [OF 1(6)] set_shuffles [OF 1(8)] by auto
      then show thesis
      proof cases
        case 1
        then show thesis unfolding \<open>as @ late = _\<close> by (rule that(1))
      next
        case 2
        with 1(1) show thesis by (rule that(2))
      next
        case 3
        then consider "x \<in> set (as @ late)" | "x \<in> set (processInflightRequests (drop n (ss_handled s)) (clear_master r st))"
          unfolding 1(7) by auto
        then show thesis unfolding 1(5) by cases (erule that(1))+
      next
        case 4
        from did_after_origin [OF 1(2) this] that(3) show thesis by blast
      qed
    qed
  qed
qed

lemma no_signal_event:
  "SLog (Log_ShutdownSignal p sig why) \<notin> set (processInflightRequests qs st)"
  "SLog (Log_ShutdownSignal p sig why) \<notin> set (drain fin remote knd n)"
  "SLog (Log_ShutdownSignal p sig why) \<notin> set (finish_effects e r w)"
proof -
  show "SLog (Log_ShutdownSignal p sig why) \<notin> set (processInflightRequests qs st)"
    by (auto simp: processInflightRequests_def inflight_request_def handleWindowChange_def reply_def Setsize_def
        split: sum.split_asm option.split_asm if_split_asm)
  have "SLog (Log_ShutdownSignal p sig why) \<notin> set (drain_loop fin remote knd xs)" for xs
    by (induction xs) (auto simp: Log_ShutdownSignal_def Log_DrainTimeout_def levelInfo_def levelWarn_def)
  then show "SLog (Log_ShutdownSignal p sig why) \<notin> set (drain fin remote knd n)" by (simp add: drain_def)
  show "SLog (Log_ShutdownSignal p sig why) \<notin> set (finish_effects e r w)"
    by (cases "re_ps e") (auto simp: finish_effects_def case_prod_beta)
qed

lemma ShutdownSignal_inject [simp]:
  "Log_ShutdownSignal p sig why = Log_ShutdownSignal p' sig' why' \<longleftrightarrow> p = p' \<and> sig = sig' \<and> why = why'"
  by (auto simp: Log_ShutdownSignal_def intField_def strField_def)

text \<open>
  Every shutdown-signal event is about the child of this session, and its reason is justified: \<^verbatim>\<open>shutdown\<close> is logged only if the context of the
  connection was cancelled, \<^verbatim>\<open>channel-close\<close> only if the client's side of the channel had ended, and a child that ended by itself is not signalled.
\<close>

lemma signal_reason:
  assumes "sup_run e r knd remote (sup_start st) ls s" and "SLog (Log_ShutdownSignal p sig why) \<in> set (ss_effects s)"
  shows "p = r_pgid r \<and> sig \<in> {''HUP'', ''KILL''} \<and>
    (why = ''shutdown'' \<and> CtxCancelled \<in> set ls \<and> woken_by (ss_pc s) = Some CtxDone \<or>
     why = ''channel-close'' \<and> ReqsClosed \<in> set ls \<and> woken_by (ss_pc s) = Some ChanClosed)"
proof -
  note inv = run_inv [OF assms(1)] and hap = run_happened [OF assms(1)]
  from inv assms(2) show ?thesis
  proof (cases rule: effect_origin)
    case (2 w)
    then have "SLog (Log_ShutdownSignal p sig why) \<in> set (settle (e\<lparr>re_wake := w\<rparr>) r)"
      by (simp add: sup_first_def no_signal_event)
    with 2(1) hap show ?thesis
      by (cases w) (auto simp: settle_def signalAndKill_def happened_def split: if_split_asm)
  qed (use no_signal_event in blast)+
qed

section \<open>A sample run\<close>

definition sample_runner :: childRunner where
  "sample_runner = \<lparr> r_cmd = \<lparr> c_Path = ''/bin/sh'', c_Args = [''-sh''], c_Env = [], c_Err = None, c_stdio = PtyStdio 8, c_SysProcAttr = None \<rparr>,
     r_pgid = 42, r_master = Some 7, r_closers = [7], r_drainDones = 1 \<rparr>"

definition sample_st :: sessionState where
  "sample_st = init_state\<lparr>st_ptyMaster := Some 7, st_ptySlave := Some 8, st_started := True\<rparr>"

definition sample_window :: request where
  "sample_window = \<lparr> rq_Type = ''window-change'', rq_WantReply = True,
     rq_Payload = PutUint32 80 @ PutUint32 24 @ PutUint32 0 @ PutUint32 0 \<rparr>"

text \<open>A window change is taken up before the PTY master is cleared and answered after the master is closed.\<close>

definition sample_exit :: "sup_label list" where
  "sample_exit = [Arrive sample_window, ChildWaited, SupStep, SupStep, ReqStep, SupStep, SupStep, ReqStep, SupStep, SupStep, SupStep,
     ReqsClosed, ReqStep, SupStep]"

definition sample_shutdown :: "sup_label list" where
  "sample_shutdown = [CtxCancelled, SupStep, SupStep, SupStep, SupStep, ChildWaited]"

abbreviation sample_state :: "sup_label list \<Rightarrow> sup_state" where
  "sample_state ls \<equiv> hd (run_succs sample_run sample_runner ''shell'' ''r'' ls (sup_start sample_st))"

lemma sample_exit_run: "sup_run sample_run sample_runner ''shell'' ''r'' (sup_start sample_st) sample_exit (sample_state sample_exit)"
proof -
  have "run_succs sample_run sample_runner ''shell'' ''r'' sample_exit (sup_start sample_st) \<noteq> []" by code_simp
  then show ?thesis by (intro run_succs_run hd_in_set)
qed

lemma sample_shutdown_run: "sup_run sample_run sample_runner ''shell'' ''r'' (sup_start sample_st) sample_shutdown (sample_state sample_shutdown)"
proof -
  have "run_succs sample_run sample_runner ''shell'' ''r'' sample_shutdown (sup_start sample_st) \<noteq> []" by code_simp
  then show ?thesis by (intro run_succs_run hd_in_set)
qed

theorem supervision_refines_runChild_witness:
  "\<exists>n late sched1 sched2. [SetWinsize 7 80 24 0 0, CloseFd 7, Reply True, SendRequest ''exit-status'' [0, 0, 0, 3], CloseChannel] =
    runChild (sample_run\<lparr>re_wake := ChildExited, re_during := n, re_late := late, re_sched1 := sched1, re_sched2 := sched2\<rparr>)
      [sample_window] sample_st sample_runner ''shell'' ''r''"
proof -
  have "ss_pc (sample_state sample_exit) = RunReturned ChildExited" by code_simp
  moreover have "ss_effects (sample_state sample_exit) =
    [SetWinsize 7 80 24 0 0, CloseFd 7, Reply True, SendRequest ''exit-status'' [0, 0, 0, 3], CloseChannel]" by code_simp
  moreover have "arrivals sample_exit = [sample_window]" by code_simp
  ultimately show ?thesis using supervision_refines_runChild [OF sample_exit_run] by metis
qed

lemma sample_signal_reason:
  "CtxCancelled \<in> set sample_shutdown \<and> woken_by (ss_pc (sample_state sample_shutdown)) = Some CtxDone"
proof -
  have "SLog (Log_ShutdownSignal 42 ''HUP'' ''shutdown'') \<in> set (ss_effects (sample_state sample_shutdown))" by code_simp
  from signal_reason [OF sample_shutdown_run this] show ?thesis by simp
qed

lemma run_succs_own:
  assumes "t \<in> set (run_succs e r knd remote ls s)" and "set ls \<subseteq> {ReqStep, SupStep}"
  shows "(sup_own e r knd remote ^^ length ls) s t"
  using assms
proof (induction ls arbitrary: s)
  case (Cons l ls)
  then obtain u where u: "u \<in> set (sup_succs e r knd remote l s)" "t \<in> set (run_succs e r knd remote ls u)" by auto
  with Cons.prems(2) have "sup_own e r knd remote s u" by (auto simp: sup_own_def sup_succs_steps)
  moreover from Cons u have "(sup_own e r knd remote ^^ length ls) u t" by simp
  ultimately show ?case by (metis length_Cons relpowp_Suc_I2)
qed simp

text \<open>The end of the sample shutdown: without the client the goroutines stop after five steps, with its close they return after seven.\<close>

abbreviation sample_end :: "sup_label list \<Rightarrow> sup_state \<Rightarrow> sup_state" where
  "sample_end ls s \<equiv> hd (run_succs sample_run sample_runner ''shell'' ''r'' ls s)"

theorem shutdown_waits_for_client_witness:
  "ss_pc (sample_end (replicate 5 SupStep) (sample_state sample_shutdown)) = AwaitClosed CtxDone \<and>
   CloseChannel \<notin> set (ss_effects (sample_end (replicate 5 SupStep) (sample_state sample_shutdown)))"
proof -
  let ?s = "sample_state sample_shutdown" and ?t = "sample_end (replicate 5 SupStep) (sample_state sample_shutdown)"
  have c: "ReqsClosed \<notin> set sample_shutdown" "woken_by (ss_pc ?s) = Some CtxDone" "ss_waited ?s" by code_simp+
  have "run_succs sample_run sample_runner ''shell'' ''r'' (replicate 5 SupStep) ?s \<noteq> []" by code_simp
  then have "?t \<in> set (run_succs sample_run sample_runner ''shell'' ''r'' (replicate 5 SupStep) ?s)" by (rule hd_in_set)
  then have run: "(sup_own sample_run sample_runner ''shell'' ''r'' ^^ length (replicate 5 SupStep)) ?s ?t"
    by (rule run_succs_own) auto
  have "both_wait ?t" by code_simp
  with shutdown_waits_for_client [OF sample_shutdown_run c(1,2)] c(3) run show ?thesis
    using both_wait_iff [of sample_run sample_runner "''shell''" "''r''" ?t] by blast
qed

theorem supervision_returns_witness:
  "\<exists>w. ss_pc (sample_end (ReqStep # replicate 6 SupStep) (sample_state (sample_shutdown @ [ReqsClosed]))) = RunReturned w"
proof -
  let ?s = "sample_state (sample_shutdown @ [ReqsClosed])"
  let ?t = "sample_end (ReqStep # replicate 6 SupStep) (sample_state (sample_shutdown @ [ReqsClosed]))"
  have "run_succs sample_run sample_runner ''shell'' ''r'' (sample_shutdown @ [ReqsClosed]) (sup_start sample_st) \<noteq> []" by code_simp
  then have r: "sup_run sample_run sample_runner ''shell'' ''r'' (sup_start sample_st) (sample_shutdown @ [ReqsClosed]) ?s"
    by (intro run_succs_run hd_in_set)
  have c: "ss_waited ?s" "ss_reqs_closed ?s" by code_simp+
  have "run_succs sample_run sample_runner ''shell'' ''r'' (ReqStep # replicate 6 SupStep) ?s \<noteq> []" by code_simp
  then have "?t \<in> set (run_succs sample_run sample_runner ''shell'' ''r'' (ReqStep # replicate 6 SupStep) ?s)" by (rule hd_in_set)
  then have run: "(sup_own sample_run sample_runner ''shell'' ''r'' ^^ length (ReqStep # replicate 6 SupStep)) ?s ?t"
    by (rule run_succs_own) auto
  have "both_wait ?t" by code_simp
  with supervision_returns [OF r c run] show ?thesis
    using both_wait_iff [of sample_run sample_runner "''shell''" "''r''" ?t] by blast
qed

end
