(* ===== verification/SftpSteps.thy ===== *)
theory SftpSteps
  imports SessionSteps
begin

text \<open>
  The supervision of an SFTP server (\<^verbatim>\<open>runSftp\<close> and \<^verbatim>\<open>rejectExtraRequests\<close> of \<^verbatim>\<open>internal/session/service.go\<close>) with its blocking points, in the way of
  \<open>SessionSteps\<close>: the runner waits in a select for the end of the SFTP server or of the context, then for the server if it closed the channel, then for the
  goroutine that rejects requests. Runs that return have the effects of \<open>runSftp\<close>.
\<close>

section \<open>State and steps\<close>

datatype sftp_pc = SftpSelect | SftpAwaitServer | SftpAwaitDone sftp_wake | SftpReturned sftp_wake

text \<open>\<open>sf_served\<close> is what the SFTP handler returned, once it has.\<close>

record sftp_state =
  sf_pc :: sftp_pc
  sf_queue :: "request list"
  sf_reqs_closed :: bool
  sf_done :: bool
  sf_ctx_done :: bool
  sf_served :: "go_err option"
  sf_handled :: "request list"
  sf_effects :: "seffect list"

definition sftp_start :: sftp_state where
  "sftp_start = \<lparr> sf_pc = SftpSelect, sf_queue = [], sf_reqs_closed = False, sf_done = False, sf_ctx_done = False,
     sf_served = None, sf_handled = [], sf_effects = [] \<rparr>"

datatype sftp_label = SftpArrive request | SftpReqsClosed | SftpCtxCancelled | SftpServed go_err | SftpReqStep | SftpSupStep

inductive sftp_step :: "string \<Rightarrow> sftp_label \<Rightarrow> sftp_state \<Rightarrow> sftp_state \<Rightarrow> bool" for remote :: string where
  sftp_arrive: "\<not> sf_reqs_closed s \<Longrightarrow> sftp_step remote (SftpArrive q) s (s\<lparr>sf_queue := sf_queue s @ [q]\<rparr>)"
| sftp_reqs_closed: "sftp_step remote SftpReqsClosed s (s\<lparr>sf_reqs_closed := True\<rparr>)"
| sftp_ctx: "sftp_step remote SftpCtxCancelled s (s\<lparr>sf_ctx_done := True\<rparr>)"
| sftp_served: "sf_served s = None \<Longrightarrow> sftp_step remote (SftpServed err) s (s\<lparr>sf_served := Some err\<rparr>)"
| sftp_reject: "sf_queue s = q # qs \<Longrightarrow>
    sftp_step remote SftpReqStep s (s\<lparr>sf_queue := qs, sf_handled := sf_handled s @ [q], sf_effects := sf_effects s @ reply q False\<rparr>)"
| sftp_reqs_end: "sf_queue s = [] \<Longrightarrow> sf_reqs_closed s \<Longrightarrow> \<not> sf_done s \<Longrightarrow> sftp_step remote SftpReqStep s (s\<lparr>sf_done := True\<rparr>)"
| sftp_select_served: "sf_pc s = SftpSelect \<Longrightarrow> sf_served s = Some err \<Longrightarrow>
    sftp_step remote SftpSupStep s
      (s\<lparr>sf_pc := SftpAwaitDone (SftpDone err), sf_effects := sf_effects s @ sftp_supervisor (SftpDone err) remote\<rparr>)"
| sftp_select_ctx: "sf_pc s = SftpSelect \<Longrightarrow> sf_ctx_done s \<Longrightarrow>
    sftp_step remote SftpSupStep s (s\<lparr>sf_pc := SftpAwaitServer, sf_effects := sf_effects s @ sftp_supervisor SftpCtxDone remote\<rparr>)"
| sftp_server_ended: "sf_pc s = SftpAwaitServer \<Longrightarrow> sf_served s \<noteq> None \<Longrightarrow>
    sftp_step remote SftpSupStep s (s\<lparr>sf_pc := SftpAwaitDone SftpCtxDone\<rparr>)"
| sftp_return: "sf_pc s = SftpAwaitDone w \<Longrightarrow> sf_done s \<Longrightarrow> sftp_step remote SftpSupStep s (s\<lparr>sf_pc := SftpReturned w\<rparr>)"

inductive_cases sftp_ownE: "sftp_step remote SftpReqStep s t" "sftp_step remote SftpSupStep s t"

definition sftp_next :: "string \<Rightarrow> sftp_state \<Rightarrow> sftp_state \<Rightarrow> bool" where
  "sftp_next remote s t \<longleftrightarrow> (\<exists>l. sftp_step remote l s t)"

section \<open>The invariant\<close>

fun sftp_did :: "string \<Rightarrow> sftp_pc \<Rightarrow> seffect list" where
  "sftp_did remote SftpSelect = []"
| "sftp_did remote SftpAwaitServer = sftp_supervisor SftpCtxDone remote"
| "sftp_did remote (SftpAwaitDone w) = sftp_supervisor w remote"
| "sftp_did remote (SftpReturned w) = sftp_supervisor w remote"

definition sftp_inv :: "string \<Rightarrow> sftp_state \<Rightarrow> bool" where
  "sftp_inv remote s \<longleftrightarrow> sf_effects s \<in> shuffles (rejectExtraRequests (sf_handled s)) (sftp_did remote (sf_pc s)) \<and>
     (sf_done s \<longrightarrow> sf_reqs_closed s \<and> sf_queue s = []) \<and> (\<forall>w. sf_pc s = SftpReturned w \<longrightarrow> sf_done s) \<and>
     (\<forall>w. sf_pc s \<in> {SftpAwaitDone w, SftpReturned w} \<longrightarrow> sf_served s \<noteq> None)"

lemma reject_snoc: "rejectExtraRequests (qs @ [q]) = rejectExtraRequests qs @ reply q False"
  by (simp add: rejectExtraRequests_def)

lemma sftp_inv_step:
  assumes "sftp_inv remote s" and "sftp_step remote l s t"
  shows "sftp_inv remote t"
proof -
  have left: "sf_effects s @ xs \<in> shuffles (rejectExtraRequests (sf_handled s) @ xs) (sftp_did remote (sf_pc s))" for xs
    using assms(1) by (intro shuffles_append_left) (simp add: sftp_inv_def)
  have right: "sf_effects s @ xs \<in> shuffles (rejectExtraRequests (sf_handled s)) (sftp_did remote (sf_pc s) @ xs)" for xs
    using assms(1) by (intro shuffles_append_right) (simp add: sftp_inv_def)
  from assms(2) show ?thesis
  proof (cases rule: sftp_step.cases)
    case (sftp_reject q qs)
    with assms(1) left [of "reply q False"] show ?thesis by (auto simp: sftp_inv_def reject_snoc)
  next
    case (sftp_select_served err)
    with assms(1) right [of "sftp_supervisor (SftpDone err) remote"] show ?thesis by (auto simp: sftp_inv_def)
  next
    case sftp_select_ctx
    with assms(1) right [of "sftp_supervisor SftpCtxDone remote"] show ?thesis by (auto simp: sftp_inv_def)
  qed (use assms(1) in \<open>auto simp: sftp_inv_def\<close>)
qed

interpretation sftp: inv_system "\<lambda>s. s = sftp_start" "sftp_next remote" "sftp_inv remote" for remote
proof
  fix s assume "s = sftp_start"
  then show "sftp_inv remote s" by (simp add: sftp_inv_def sftp_start_def rejectExtraRequests_def)
next
  fix s t assume "sftp_inv remote s" and "sftp_next remote s t"
  then show "sftp_inv remote t" unfolding sftp_next_def by (elim exE) (rule sftp_inv_step)
qed

section \<open>Runs\<close>

text \<open>
  A run of \<^verbatim>\<open>runSftp\<close> that returns has rejected every request that arrived, and its effects are those of the sequential description for the case that settled the select.
\<close>

lemma sftp_refines_runSftp:
  assumes "reach (\<lambda>s. s = sftp_start) (sftp_next remote) s" and "sf_pc s = SftpReturned w"
  shows "sf_queue s = [] \<and> (\<exists>sched. sf_effects s = runSftp sched w (sf_handled s) remote)"
proof -
  have inv: "sftp_inv remote s" by (rule sftp.reach_inv [OF assms(1)])
  then show ?thesis using assms(2) by (simp add: sftp_inv_def runSftp_def merge_shuffles)
qed

text \<open>
  Unlike \<^verbatim>\<open>runChild\<close>, the runner tells the client of a shutdown: once the cancelled context has settled the select the channel is closed, before
  anything is waited for.
\<close>

lemma sftp_shutdown_closes:
  assumes "reach (\<lambda>s. s = sftp_start) (sftp_next remote) s"
    and "sf_pc s \<in> {SftpAwaitServer, SftpAwaitDone SftpCtxDone, SftpReturned SftpCtxDone}"
  shows "CloseChannel \<in> set (sf_effects s)"
proof -
  have "sftp_inv remote s" by (rule sftp.reach_inv [OF assms(1)])
  then have "sf_effects s \<in> shuffles (rejectExtraRequests (sf_handled s)) (sftp_did remote (sf_pc s))" by (simp add: sftp_inv_def)
  from set_shuffles [OF this] have "set (sftp_did remote (sf_pc s)) \<subseteq> set (sf_effects s)" by simp
  moreover have "sftp_did remote (sf_pc s) = [CloseChannel]" using assms(2) by auto
  ultimately show ?thesis by simp
qed

section \<open>The end of the runner\<close>

definition sftp_own :: "string \<Rightarrow> sftp_state \<Rightarrow> sftp_state \<Rightarrow> bool" where
  "sftp_own remote s t \<longleftrightarrow> sftp_step remote SftpReqStep s t \<or> sftp_step remote SftpSupStep s t"

fun sftp_pc_left :: "sftp_pc \<Rightarrow> nat" where
  "sftp_pc_left SftpSelect = 3"
| "sftp_pc_left SftpAwaitServer = 2"
| "sftp_pc_left (SftpAwaitDone w) = 1"
| "sftp_pc_left (SftpReturned w) = 0"

definition sftp_steps_left :: "sftp_state \<Rightarrow> nat" where
  "sftp_steps_left s = sftp_pc_left (sf_pc s) + length (sf_queue s) + (if sf_done s then 0 else 1)"

lemma sftp_own_run_bound: "(sftp_own remote ^^ k) s t \<Longrightarrow> k + sftp_steps_left t \<le> sftp_steps_left s"
proof (induction k arbitrary: t)
  case (Suc k)
  then obtain u where u: "(sftp_own remote ^^ k) s u" "sftp_own remote u t" by auto
  from u(2) have "sftp_steps_left t < sftp_steps_left u"
    unfolding sftp_own_def by (auto elim!: sftp_ownE simp: sftp_steps_left_def)
  with Suc.IH [OF u(1)] show ?case by simp
qed simp

lemma sftp_own_run_kept:
  "(sftp_own remote ^^ k) s t \<Longrightarrow> sf_served t = sf_served s \<and> sf_reqs_closed t = sf_reqs_closed s"
proof (induction k arbitrary: t)
  case (Suc k)
  then obtain u where "(sftp_own remote ^^ k) s u" "sftp_own remote u t" by auto
  with Suc.IH [of u] show ?case unfolding sftp_own_def by (auto elim!: sftp_ownE)
qed simp

text \<open>The runner returns once the SFTP server has ended and the client's side of the channel is closed.\<close>

lemma sftp_returns:
  assumes "sf_served s \<noteq> None" and "sf_reqs_closed s" and "(sftp_own remote ^^ k) s t"
  shows "k \<le> length (sf_queue s) + 4 \<and> ((\<nexists>u. sftp_own remote t u) \<longrightarrow> (\<exists>w. sf_pc t = SftpReturned w))"
proof
  have "sftp_pc_left (sf_pc s) \<le> 3" by (cases "sf_pc s") simp_all
  then show "k \<le> length (sf_queue s) + 4"
    using sftp_own_run_bound [OF assms(3)] by (simp add: sftp_steps_left_def split: if_split_asm)
  obtain err where kept: "sf_served t = Some err" "sf_reqs_closed t"
    using sftp_own_run_kept [OF assms(3)] assms(1,2) by auto
  show "(\<nexists>u. sftp_own remote t u) \<longrightarrow> (\<exists>w. sf_pc t = SftpReturned w)"
  proof
    assume stuck: "\<nexists>u. sftp_own remote t u"
    then have q: "sf_queue t = []" using sftp_reject unfolding sftp_own_def by (metis neq_Nil_conv)
    then have d: "sf_done t" using stuck sftp_reqs_end kept(2) unfolding sftp_own_def by metis
    show "\<exists>w. sf_pc t = SftpReturned w"
    proof (cases "sf_pc t")
      case SftpSelect
      with stuck sftp_select_served kept(1) show ?thesis unfolding sftp_own_def by metis
    next
      case SftpAwaitServer
      with stuck sftp_server_ended kept(1) show ?thesis unfolding sftp_own_def by (metis option.distinct(1))
    next
      case (SftpAwaitDone w)
      with stuck sftp_return d show ?thesis unfolding sftp_own_def by metis
    qed simp
  qed
qed

end
