(* ===== verification/NetAddr.thy ===== *)
theory NetAddr
  imports NetIP
begin

text \<open>
  Network addresses as the server sees them: the dynamic types of \<^verbatim>\<open>net.Addr\<close>, their textual form,
  and the functions of package \<^verbatim>\<open>net\<close> that take such text apart (\<^verbatim>\<open>JoinHostPort\<close>, \<^verbatim>\<open>SplitHostPort\<close>,
  \<^verbatim>\<open>ParseIP\<close>).
\<close>

section \<open>Host and port\<close>

definition JoinHostPort :: "string \<Rightarrow> string \<Rightarrow> string" where
  "JoinHostPort host port =
     (if CHR '':'' \<in> set host then ''['' @ host @ '']:'' @ port else host @ '':'' @ port)"

definition index_of :: "char \<Rightarrow> string \<Rightarrow> nat" where
  "index_of c s = length (takeWhile (\<lambda>d. d \<noteq> c) s)"

definition last_index :: "char \<Rightarrow> string \<Rightarrow> nat" where
  "last_index c s = length s - 1 - index_of c (rev s)"

text \<open>The host of a \<^verbatim>\<open>host:port\<close> text, or \<open>None\<close> where \<^verbatim>\<open>SplitHostPort\<close> returns an error.\<close>

definition SplitHostPort :: "string \<Rightarrow> (string \<times> string) option" where
  "SplitHostPort s =
     (if CHR '':'' \<notin> set s then None
      else
        let i = last_index (CHR '':'') s; port = drop (Suc i) s in
        if hd s = CHR ''['' then
          (let e = index_of (CHR '']'') s in
           if e = length s \<or> e + 1 \<noteq> i then None
           else if CHR ''['' \<in> set (drop 1 s) \<or> CHR '']'' \<in> set (drop (e + 1) s) then None
           else Some (take (e - 1) (drop 1 s), port))
        else
          (let host = take i s in
           if CHR '':'' \<in> set host \<or> CHR ''['' \<in> set s \<or> CHR '']'' \<in> set s then None
           else Some (host, port)))"

section \<open>\<^verbatim>\<open>ParseIP\<close>\<close>

definition is_digit :: "char \<Rightarrow> bool" where
  "is_digit c \<longleftrightarrow> 48 \<le> (of_char c :: nat) \<and> (of_char c :: nat) \<le> 57"

definition parse_octet :: "string \<Rightarrow> byte option" where
  "parse_octet s =
     (if s = [] \<or> \<not> list_all is_digit s \<or> (length s > 1 \<and> hd s = CHR ''0'') \<or> length s > 3 \<or> read_nat s > 255
      then None else Some (word_of_nat (read_nat s)))"

definition parseIPv4 :: "string \<Rightarrow> bytes option" where
  "parseIPv4 s =
     (let parts = map parse_octet (strings_Split s (CHR ''.'')) in
      if length parts = 4 \<and> list_all (\<lambda>p. p \<noteq> None) parts then Some (map the parts) else None)"

definition hex_value :: "char \<Rightarrow> nat option" where
  "hex_value c =
     (let k = of_char c in
      if 48 \<le> k \<and> k \<le> 57 then Some (k - 48)
      else if 97 \<le> k \<and> k \<le> 102 then Some (k - 87)
      else if 65 \<le> k \<and> k \<le> 70 then Some (k - 55) else None)"

text \<open>
  The loop over the groups: \<open>out\<close> holds the bytes read so far, \<open>ell\<close> the position of the
  ellipsis; at most \<open>n\<close> groups are read. The result is the bytes, the ellipsis and the rest of the text.
\<close>

fun parse_groups :: "nat \<Rightarrow> bytes \<Rightarrow> nat option \<Rightarrow> string \<Rightarrow> (bytes \<times> nat option \<times> string) option" where
  "parse_groups 0 out ell s = Some (out, ell, s)"
| "parse_groups (Suc n) out ell s =
     (let ds = takeWhile (\<lambda>c. hex_value c \<noteq> None) s;
          rest = drop (length ds) s;
          acc = foldl (\<lambda>a c. 16 * a + int (the (hex_value c))) 0 ds
      in if ds = [] \<or> length ds > 4 then None
         else if rest \<noteq> [] \<and> hd rest = CHR ''.'' then
           (if (ell = None \<and> length out \<noteq> 12) \<or> length out + 4 > 16 then None
            else map_option (\<lambda>v4. (out @ v4, ell, [])) (parseIPv4 s))
         else
           let out = out @ [word_of_int (acc div 256), word_of_int (acc mod 256)] in
           if rest = [] then Some (out, ell, [])
           else if hd rest \<noteq> CHR '':'' \<or> length rest = 1 then None
           else
             let s = tl rest in
             if hd s = CHR '':'' then
               (if ell \<noteq> None then None
                else if tl s = [] then Some (out, Some (length out), [])
                else parse_groups n out (Some (length out)) (tl s))
             else parse_groups n out ell s)"

definition parseIPv6 :: "string \<Rightarrow> bytes option" where
  "parseIPv6 s0 =
     (let lead = prefix ''::'' s0; s = (if lead then drop 2 s0 else s0) in
      if lead \<and> s = [] then Some (replicate 16 0)
      else (case parse_groups 8 [] (if lead then Some 0 else None) s of
          None \<Rightarrow> None
        | Some (out, ell, rest) \<Rightarrow>
            if rest \<noteq> [] then None
            else if length out < 16 then
              (case ell of
                 None \<Rightarrow> None
               | Some e \<Rightarrow> Some (take e out @ replicate (16 - length out) 0 @ drop e out))
            else if ell \<noteq> None then None else Some out))"

definition v4_in_v6 :: "bytes \<Rightarrow> bytes" where
  "v4_in_v6 v = replicate 10 0 @ [255, 255] @ v"

text \<open>The first of the characters \<^verbatim>\<open>. : %\<close> selects the grammar; a zone makes \<^verbatim>\<open>net.ParseIP\<close> return nil.\<close>

definition ParseIP :: "string \<Rightarrow> IP" where
  "ParseIP s =
     (case find (\<lambda>c. c = CHR ''.'' \<or> c = CHR '':'' \<or> c = CHR ''%'') s of
        None \<Rightarrow> nil_ip
      | Some c \<Rightarrow>
          if c = CHR ''.'' then (case parseIPv4 s of Some v \<Rightarrow> v4_in_v6 v | None \<Rightarrow> nil_ip)
          else if c = CHR ''%'' \<or> CHR ''%'' \<in> set s then nil_ip
          else (case parseIPv6 s of Some v \<Rightarrow> v | None \<Rightarrow> nil_ip))"

section \<open>Addresses\<close>

datatype net_addr =
    TCPAddr IP int string
  | UDPAddr IP int string
  | IPAddr IP string
  | OtherAddr string

definition ip_zone :: "IP \<Rightarrow> string \<Rightarrow> string" where
  "ip_zone ip zone =
     (let s = (if ip = [] then '''' else IP_String ip)
      in if zone \<noteq> '''' then s @ ''%'' @ zone else s)"

fun Addr_String :: "net_addr \<Rightarrow> string" where
  "Addr_String (TCPAddr ip port zone) = JoinHostPort (ip_zone ip zone) (show_int port)"
| "Addr_String (UDPAddr ip port zone) = JoinHostPort (ip_zone ip zone) (show_int port)"
| "Addr_String (IPAddr ip zone) = ip_zone ip zone"
| "Addr_String (OtherAddr s) = s"

section \<open>Lemmas\<close>

lemma ParseIP_samples:
  "ParseIP ''127.0.0.1'' = v4_in_v6 [127, 0, 0, 1]"
  "ParseIP ''::1'' = replicate 15 0 @ [1]"
  "ParseIP ''fe80::1:2'' = [0xfe, 0x80] @ replicate 10 0 @ [0, 1, 0, 2]"
  "ParseIP ''::ffff:10.0.0.1'' = v4_in_v6 [10, 0, 0, 1]"
  "ParseIP ''01.2.3.4'' = nil_ip"
  "ParseIP ''1::2::3'' = nil_ip"
  "ParseIP ''localhost'' = nil_ip"
  by code_simp+

lemma SplitHostPort_samples:
  "SplitHostPort ''127.0.0.1:22'' = Some (''127.0.0.1'', ''22'')"
  "SplitHostPort ''[::1]:22'' = Some (''::1'', ''22'')"
  "SplitHostPort ''::1'' = None"
  "SplitHostPort ''[::1]'' = None"
  by code_simp+

lemma index_of_first: "c \<notin> set a \<Longrightarrow> index_of c (a @ c # b) = length a"
proof -
  assume "c \<notin> set a"
  then have "takeWhile (\<lambda>d. d \<noteq> c) (a @ c # b) = a"
    by (subst takeWhile_append2) auto
  then show ?thesis by (simp add: index_of_def)
qed

lemma last_index_last: "c \<notin> set b \<Longrightarrow> last_index c (a @ c # b) = length a"
  using index_of_first [of c "rev b" "rev a"] by (simp add: last_index_def)

text \<open>A host without brackets and a port of digits survive joining and splitting.\<close>

lemma Split_JoinHostPort:
  assumes "CHR ''['' \<notin> set host" and "CHR '']'' \<notin> set host"
    and "CHR ''['' \<notin> set port" and "CHR '']'' \<notin> set port" and "CHR '':'' \<notin> set port"
  shows "SplitHostPort (JoinHostPort host port) = Some (host, port)"
proof (cases "CHR '':'' \<in> set host")
  case True
  let ?s = "CHR ''['' # host @ CHR '']'' # CHR '':'' # port"
  have s: "JoinHostPort host port = ?s" using True by (simp add: JoinHostPort_def)
  have "last_index (CHR '':'') ?s = length host + 2"
    using last_index_last [of "CHR '':''" port "CHR ''['' # host @ [CHR '']'']"] assms(5) by simp
  moreover have "index_of (CHR '']'') ?s = length host + 1"
    using index_of_first [of "CHR '']''" "CHR ''['' # host" "CHR '':'' # port"] assms(2) by simp
  ultimately show ?thesis
    unfolding s SplitHostPort_def using assms by (simp add: Let_def)
next
  case False
  let ?s = "host @ CHR '':'' # port"
  have s: "JoinHostPort host port = ?s" using False by (simp add: JoinHostPort_def)
  have i: "last_index (CHR '':'') ?s = length host" using last_index_last assms(5) by simp
  have "hd ?s \<noteq> CHR ''[''" using assms(1) by (cases host) auto
  then show ?thesis
    unfolding s SplitHostPort_def i using assms False by (simp add: Let_def)
qed

lemma show_int_chars: "c \<in> set (show_int i) \<Longrightarrow> of_char c \<in> insert 45 digit_codes"
  using show_nat_digits by (fastforce simp: show_int_def split: if_splits)

lemma show_int_no_sep: "CHR ''['' \<notin> set (show_int i)" "CHR '']'' \<notin> set (show_int i)" "CHR '':'' \<notin> set (show_int i)"
  using show_int_chars [of "CHR ''[''" i] show_int_chars [of "CHR '']''" i] show_int_chars [of "CHR '':''" i] by auto

end
