(* ===== verification/Credentials.thy ===== *)
theory Credentials
  imports Sha256
begin

text \<open>
  \<^verbatim>\<open>internal/auth/credentials.go\<close> and \<^verbatim>\<open>generate.go\<close>: the cached digests of the configured
  username and password, the two checks against them, and the generation of the six-digit
  password. The comparison function is an argument of \<open>checkWith\<close> and \<open>checkUsernameWith\<close>, as in the
  code; it threads a state, so that a comparison that records its calls can be passed and the
  calls that are made can be stated. The random source is the finite sequence of bytes that can still be read
  from it; reading past its end is the error of \<^verbatim>\<open>io.ReadFull\<close>.
\<close>

section \<open>Credentials\<close>

definition ReasonBadUser :: string where "ReasonBadUser = ''bad-user''"
definition ReasonBadPassword :: string where "ReasonBadPassword = ''bad-password''"

record Credentials =
  userHash :: bytes
  passwordHash :: bytes

definition NewCredentials :: "string \<Rightarrow> string \<Rightarrow> Credentials" where
  "NewCredentials user password =
     \<lparr> userHash = Sum256 (bytes_of_string user), passwordHash = Sum256 (bytes_of_string password) \<rparr>"

type_synonym 's compare = "bytes \<Rightarrow> bytes \<Rightarrow> 's \<Rightarrow> int \<times> 's"

definition checkUsernameWith :: "Credentials \<Rightarrow> string \<Rightarrow> 's compare \<Rightarrow> 's \<Rightarrow> (bool \<times> string) \<times> 's" where
  "checkUsernameWith c presentedUser cmp s =
     (let presentedUserHash = Sum256 (bytes_of_string presentedUser);
          (userMatch, s) = cmp presentedUserHash (userHash c) s
      in (if userMatch = 1 then (True, '''') else (False, ReasonBadUser), s))"

definition checkWith :: "Credentials \<Rightarrow> string \<Rightarrow> string \<Rightarrow> 's compare \<Rightarrow> 's \<Rightarrow> (bool \<times> string) \<times> 's" where
  "checkWith c presentedUser presentedPassword cmp s =
     (let presentedUserHash = Sum256 (bytes_of_string presentedUser);
          presentedPasswordHash = Sum256 (bytes_of_string presentedPassword);
          (userMatch, s) = cmp presentedUserHash (userHash c) s;
          (passMatch, s) = cmp presentedPasswordHash (passwordHash c) s;
          okInt = userMatch AND passMatch
      in (if okInt = 1 then (True, '''')
          else if userMatch = 0 then (False, ReasonBadUser)
          else (False, ReasonBadPassword), s))"

definition constantTimeCompare :: "unit compare" where
  "constantTimeCompare a b s = (ConstantTimeCompare a b, s)"

definition CheckUsername :: "Credentials \<Rightarrow> string \<Rightarrow> bool \<times> string" where
  "CheckUsername c presentedUser = fst (checkUsernameWith c presentedUser constantTimeCompare ())"

definition Check :: "Credentials \<Rightarrow> string \<Rightarrow> string \<Rightarrow> bool \<times> string" where
  "Check c presentedUser presentedPassword =
     fst (checkWith c presentedUser presentedPassword constantTimeCompare ())"

section \<open>Password generation\<close>

definition passwordSpace :: nat where "passwordSpace = 1000000"

text \<open>
  \<^verbatim>\<open>rand.Int(rand.Reader, max)\<close> for \<^verbatim>\<open>max = 10^6\<close>: \<^verbatim>\<open>max-1\<close> has 20 bits, so three bytes are
  drawn, the four excess bits of the first are cleared, and the draw is repeated until the
  big-endian value is below \<^verbatim>\<open>max\<close>.
\<close>

definition draw :: "byte \<Rightarrow> byte \<Rightarrow> byte \<Rightarrow> nat" where
  "draw a b c = unat (a AND 15) * 65536 + unat b * 256 + unat c"

fun rand_Int :: "bytes \<Rightarrow> nat res \<times> bytes" where
  "rand_Int (a # b # c # r) =
     (if draw a b c < passwordSpace then (Inr (draw a b c), r) else rand_Int r)"
| "rand_Int [] = (Inl (Error ''EOF''), [])"
| "rand_Int _ = (Inl (Error ''unexpected EOF''), [])"

text \<open>The verb \<^verbatim>\<open>%06d\<close> on a non-negative number.\<close>

definition fmt_06d :: "nat \<Rightarrow> string" where
  "fmt_06d n = replicate (6 - length (show_nat n)) (CHR ''0'') @ show_nat n"

definition GeneratePassword :: "bytes \<Rightarrow> string res \<times> bytes" where
  "GeneratePassword reader =
     (case rand_Int reader of
        (Inl (Error err), r) \<Rightarrow> (Inl (Error (''generate password: '' @ err)), r)
      | (Inl (Panic p), r) \<Rightarrow> (Inl (Panic p), r)
      | (Inr n, r) \<Rightarrow> (Inr (fmt_06d n), r))"

section \<open>The checks\<close>

lemmas reason_defs = ReasonBadUser_def ReasonBadPassword_def

lemma CheckUsername_cases:
  "CheckUsername c u =
     (if Sum256 (bytes_of_string u) = userHash c then (True, '''') else (False, ReasonBadUser))"
  by (simp add: CheckUsername_def checkUsernameWith_def constantTimeCompare_def
      ConstantTimeCompare_eq Let_def)

lemma Check_cases:
  "Check c u p =
     (if Sum256 (bytes_of_string u) \<noteq> userHash c then (False, ReasonBadUser)
      else if Sum256 (bytes_of_string p) \<noteq> passwordHash c then (False, ReasonBadPassword)
      else (True, ''''))"
  by (simp add: Check_def checkWith_def constantTimeCompare_def ConstantTimeCompare_eq Let_def)

text \<open>
  What the authentication callbacks rely on: the reason is empty exactly on success, a name that
  fails the username check fails the full check for that reason, and
  a name that passes it can only fail for the password.
\<close>

locale credential_checker =
  fixes check :: "'c \<Rightarrow> string \<Rightarrow> string \<Rightarrow> bool \<times> string"
    and check_user :: "'c \<Rightarrow> string \<Rightarrow> bool \<times> string"
    and bad_user :: string and bad_password :: string
  assumes user_ok: "fst (check_user c u) \<Longrightarrow> snd (check_user c u) = ''''"
    and user_bad: "\<not> fst (check_user c u) \<Longrightarrow> snd (check_user c u) = bad_user \<and> check c u p = (False, bad_user)"
    and user_good: "fst (check_user c u) \<Longrightarrow> check c u p \<in> {(True, ''''), (False, bad_password)}"
    and reasons: "bad_user \<noteq> ''''" "bad_password \<noteq> ''''" "bad_user \<noteq> bad_password"
begin

lemma check_ok_iff: "fst (check c u p) \<longleftrightarrow> snd (check c u p) = ''''"
  using user_bad [of c u p] user_good [of c u p] reasons by (cases "fst (check_user c u)") auto

lemma check_imp_user: "fst (check c u p) \<Longrightarrow> fst (check_user c u)"
  using user_bad [of c u p] by fastforce

lemma user_reason_iff: "snd (check c u p) = bad_user \<longleftrightarrow> \<not> fst (check_user c u)"
  using user_bad [of c u p] user_good [of c u p] reasons by (cases "fst (check_user c u)") auto

end

interpretation cred: credential_checker Check CheckUsername ReasonBadUser ReasonBadPassword
  by unfold_locales (auto simp: CheckUsername_cases Check_cases reason_defs split: if_splits)

text \<open>A comparison that records its arguments, with the verdict of \<^verbatim>\<open>ConstantTimeCompare\<close>.\<close>

definition recordingCompare :: "(bytes \<times> bytes) list compare" where
  "recordingCompare a b s = (ConstantTimeCompare a b, s @ [(a, b)])"

section \<open>The generator\<close>

lemma unat_low4: "unat (a AND 15 :: byte) = unat a mod 16"
proof -
  have "a AND 15 = take_bit 4 a"
    by (simp add: take_bit_eq_mask mask_eq_exp_minus_1)
  then show ?thesis
    by (simp add: take_bit_eq_mod unat_mod)
qed

lemma draw_mod: "draw a b c = unat a mod 16 * 65536 + unat b * 256 + unat c"
  by (simp add: draw_def unat_low4)

lemma unat_word_inverse: "word_of_nat (unat w) = w"
  by simp

lemma unat_byte_less [simp]: "unat (b :: byte) < 256"
  using unsigned_less [of b] by simp

lemma show_nat_length: "n < 10 ^ k \<Longrightarrow> 0 < k \<Longrightarrow> length (show_nat n) \<le> k"
proof (induction n arbitrary: k rule: show_nat.induct)
  case (1 n)
  show ?case
  proof (cases "n < 10")
    case True
    with "1.prems" show ?thesis by (simp add: show_nat.simps [of n])
  next
    case False
    with "1.prems" obtain j where k: "k = Suc j" and j: "0 < j"
      by (cases k; cases "k - 1") auto
    from "1.prems" k have "n div 10 < 10 ^ j" by (simp add: less_mult_imp_div_less)
    with "1.IH" False j have "length (show_nat (n div 10)) \<le> j" by simp
    with False k show ?thesis by (simp add: show_nat.simps [of n])
  qed
qed

lemma read_nat_zeros: "read_nat (replicate k (CHR ''0'') @ s) = read_nat s"
  by (induction k) (simp_all add: read_nat_def digit_val_def)

lemma fmt_06d_read [simp]: "read_nat (fmt_06d n) = n"
  by (simp add: fmt_06d_def read_nat_zeros)

lemma fmt_06d_length: "n < passwordSpace \<Longrightarrow> length (fmt_06d n) = 6"
  using show_nat_length [of n 6] by (simp add: fmt_06d_def passwordSpace_def)

lemma fmt_06d_digits: "c \<in> set (fmt_06d n) \<Longrightarrow> of_char c \<in> digit_codes"
  by (auto simp: fmt_06d_def dest: show_nat_digits split: if_splits)

lemma rand_Int_bound: "rand_Int rd = (Inr n, r) \<Longrightarrow> n < passwordSpace"
  by (induction rd rule: rand_Int.induct) (auto split: if_splits)

lemma rand_Int_no_panic: "rand_Int rd \<noteq> (Inl (Panic p), r)"
  by (induction rd rule: rand_Int.induct) auto

lemma GeneratePassword_ok:
  "GeneratePassword rd = (Inr pw, r) \<longleftrightarrow> (\<exists>n. rand_Int rd = (Inr n, r) \<and> pw = fmt_06d n)"
  by (auto simp: GeneratePassword_def split: prod.splits sum.splits go_fail.splits)

text \<open>The triples of bytes the generator accepts as \<open>n\<close>.\<close>

definition preimage :: "nat \<Rightarrow> (byte \<times> byte \<times> byte) set" where
  "preimage n = {(a, b, c). draw a b c = n}"

lemma base256_div:
  fixes x y z :: nat
  assumes "y < 256" and "z < 256"
  shows "(x * 65536 + y * 256 + z) div 65536 = x \<and> (x * 65536 + y * 256 + z) div 256 = x * 256 + y"
  using assms by (intro conjI div_nat_eqI) auto

lemma base256_join: "n div 65536 * 65536 + n div 256 mod 256 * 256 + n mod 256 = n" for n :: nat
proof -
  define m where "m = n div 256"
  have "n div 65536 = m div 256" by (simp add: m_def div_mult2_eq flip: div_mult2_eq)
  moreover have "m div 256 * 256 + m mod 256 = m" by simp
  moreover have "m * 256 + n mod 256 = n" by (simp add: m_def)
  ultimately show ?thesis unfolding m_def [symmetric] by linarith
qed

lemma preimage_image:
  assumes "n < 1048576"
  shows "preimage n = (\<lambda>h. (word_of_nat (16 * h + n div 65536), word_of_nat (n div 256), word_of_nat n)) ` {..<16}"
    (is "_ = ?f ` _")
proof (intro subset_antisym subsetI)
  fix t assume "t \<in> preimage n"
  then obtain a b c where t: "t = (a, b, c)" and n: "n = unat a mod 16 * 65536 + unat b * 256 + unat c"
    by (auto simp: preimage_def draw_mod)
  have b: "unat b < 256" and c: "unat c < 256" by simp_all
  have d1: "n div 65536 = unat a mod 16" and d2: "n div 256 = unat a mod 16 * 256 + unat b"
    unfolding n using base256_div [OF b c] by blast+
  have "word_of_nat (16 * (unat a div 16) + n div 65536) = a"
    unfolding d1 mult_div_mod_eq by (rule unat_word_inverse)
  moreover have "word_of_nat (n div 256) = b"
  proof (rule unsigned_word_eqI)
    show "unat (word_of_nat (n div 256) :: byte) = unat b"
      unfolding d2 unat_of_nat using b by simp
  qed
  moreover have "word_of_nat n = c"
  proof (rule unsigned_word_eqI)
    have "n = (unat a mod 16 * 256 + unat b) * 256 + unat c" using n by simp
    then have "n mod 256 = unat c" using c by (simp only: mod_mult_self3 mod_less)
    then show "unat (word_of_nat n :: byte) = unat c" by (simp add: unat_of_nat)
  qed
  ultimately have "t = ?f (unat a div 16)"
    unfolding t by simp
  moreover have "unat a div 16 < 16"
    by (rule less_mult_imp_div_less) simp
  ultimately show "t \<in> ?f ` {..<16}" by blast
next
  fix t assume "t \<in> ?f ` {..<16}"
  then obtain h where h: "h < 16" and t: "t = ?f h" by blast
  have lt: "n div 65536 < 16" using assms by (simp add: less_mult_imp_div_less)
  have "unat (word_of_nat (16 * h + n div 65536) :: byte) mod 16 = n div 65536"
    unfolding unat_of_nat using h lt by simp
  with base256_join [of n] show "t \<in> preimage n"
    unfolding t preimage_def draw_mod by (simp add: unat_of_nat del: of_nat_add of_nat_mult)
qed

lemma card_preimage:
  assumes "n < 1048576"
  shows "card (preimage n) = 16"
proof -
  have "h = k" if "h < 16" "k < 16"
    and eq: "word_of_nat (16 * h + n div 65536) = (word_of_nat (16 * k + n div 65536) :: byte)" for h k
  proof -
    have "n div 65536 < 16" using assms by (simp add: less_mult_imp_div_less)
    then have "16 * h + n div 65536 < 256" "16 * k + n div 65536 < 256" using that by linarith+
    then have "16 * h + n div 65536 = 16 * k + n div 65536"
      using arg_cong [OF eq, of unat] by (simp only: unat_of_nat) simp
    then show ?thesis by simp
  qed
  then have "inj_on (\<lambda>h. (word_of_nat (16 * h + n div 65536) :: byte, word_of_nat (n div 256) :: byte, word_of_nat n :: byte)) {..<16}"
    by (intro inj_onI) auto
  then show ?thesis
    by (simp add: preimage_image [OF assms] card_image)
qed

lemma rand_Int_success:
  "(\<exists>n r. rand_Int rd = (Inr n, r)) \<longleftrightarrow>
   (\<exists>i. 3 * i + 2 < length rd \<and> draw (rd ! (3 * i)) (rd ! (3 * i + 1)) (rd ! (3 * i + 2)) < passwordSpace)"
proof (induction rd rule: rand_Int.induct)
  case (1 a b c r)
  have step: "(\<exists>i. 3 * i + 2 < length (a # b # c # r) \<and> P ((a # b # c # r) ! (3 * i)) ((a # b # c # r) ! (3 * i + 1)) ((a # b # c # r) ! (3 * i + 2)))
    \<longleftrightarrow> P a b c \<or> (\<exists>i. 3 * i + 2 < length r \<and> P (r ! (3 * i)) (r ! (3 * i + 1)) (r ! (3 * i + 2)))" (is "?L \<longleftrightarrow> ?R") for P
  proof
    assume ?L
    then obtain i where i: "3 * i + 2 < length (a # b # c # r)"
      "P ((a # b # c # r) ! (3 * i)) ((a # b # c # r) ! (3 * i + 1)) ((a # b # c # r) ! (3 * i + 2))" by blast
    then show ?R by (cases i) (auto simp: numeral_3_eq_3)
  next
    assume ?R
    then consider "P a b c" | i where "3 * i + 2 < length r" "P (r ! (3 * i)) (r ! (3 * i + 1)) (r ! (3 * i + 2))" by blast
    then show ?L
    proof cases
      case 1
      then show ?thesis by (intro exI [of _ 0]) (simp add: numeral_2_eq_2)
    next
      case (2 i)
      then show ?thesis by (intro exI [of _ "Suc i"]) (auto simp: numeral_3_eq_3)
    qed
  qed
  show ?case
    using 1 unfolding step [of "\<lambda>a b c. draw a b c < passwordSpace"] by auto
qed auto

section \<open>Properties\<close>

text \<open>
  For a configured user and password whose digests the presented values do not collide with,
  \<^verbatim>\<open>Check\<close> accepts exactly the configured pair; a wrong name is always reported as \<^verbatim>\<open>bad-user\<close>, also
  when the password is wrong as well, and a right name with a wrong password as \<^verbatim>\<open>bad-password\<close>.
\<close>

theorem Check_exact:
  assumes "Sum256 (bytes_of_string u) = Sum256 (bytes_of_string user) \<Longrightarrow> u = user"
    and "Sum256 (bytes_of_string p) = Sum256 (bytes_of_string pw) \<Longrightarrow> p = pw"
  shows "Check (NewCredentials user pw) u p =
    (if u \<noteq> user then (False, ReasonBadUser)
     else if p \<noteq> pw then (False, ReasonBadPassword)
     else (True, ''''))"
  using assms by (auto simp: Check_cases NewCredentials_def)

theorem Check_exact_witness:
  "Check (NewCredentials ''root'' ''123456'') ''root'' ''123456'' = (True, '''')"
  using Check_exact [of "''root''" "''root''" "''123456''" "''123456''"] by simp

text \<open>
  Whatever is presented, \<^verbatim>\<open>Check\<close> makes the same two comparisons, the user digest first and then the
  password digest, each of two 32-byte digests, and the username-only check makes exactly the first of them; the
  outcome of one comparison never suppresses the other. The verdict is the one of the
  production comparison.
\<close>

theorem check_comparisons:
  "snd (checkWith (NewCredentials user pw) u p recordingCompare []) =
     [(Sum256 (bytes_of_string u), Sum256 (bytes_of_string user)),
      (Sum256 (bytes_of_string p), Sum256 (bytes_of_string pw))]
   \<and> snd (checkUsernameWith (NewCredentials user pw) u recordingCompare []) =
     [(Sum256 (bytes_of_string u), Sum256 (bytes_of_string user))]
   \<and> list_all (\<lambda>(a, b). length a = 32 \<and> length b = 32)
       (snd (checkWith (NewCredentials user pw) u p recordingCompare []))
   \<and> fst (checkWith c u p recordingCompare s) = Check c u p
   \<and> fst (checkUsernameWith c u recordingCompare s) = CheckUsername c u"
  by (simp add: checkWith_def checkUsernameWith_def recordingCompare_def Check_def CheckUsername_def
      constantTimeCompare_def NewCredentials_def Let_def)

text \<open>
  A generated password is always six decimal digits, it denotes the number that was drawn, and the
  draw is uniform: every one of the million numbers is given by exactly 16 of the possible byte triples.
  The generator returns a password exactly when some aligned triple of the random source
  is in range; the only failure is an exhausted source.
\<close>

theorem GeneratePassword_uniform:
  assumes "3 * i + 2 < length rd" and "draw (rd ! (3 * i)) (rd ! (3 * i + 1)) (rd ! (3 * i + 2)) < passwordSpace"
  shows "\<exists>pw r. GeneratePassword rd = (Inr pw, r) \<and> length pw = 6
    \<and> list_all (\<lambda>c. of_char c \<in> digit_codes) pw
    \<and> (\<exists>n < passwordSpace. pw = fmt_06d n \<and> read_nat pw = n \<and> card (preimage n) = 16)"
proof -
  from assms obtain n r where n: "rand_Int rd = (Inr n, r)"
    using rand_Int_success [of rd] by blast
  then have g: "GeneratePassword rd = (Inr (fmt_06d n), r)"
    by (simp add: GeneratePassword_ok)
  have lt: "n < passwordSpace" using rand_Int_bound [OF n] .
  then have "card (preimage n) = 16"
    by (intro card_preimage) (simp add: passwordSpace_def)
  moreover have "list_all (\<lambda>c. of_char c \<in> digit_codes) (fmt_06d n)"
    unfolding list_all_iff using fmt_06d_digits by blast
  ultimately show ?thesis
    using g lt fmt_06d_length [OF lt] fmt_06d_read by blast
qed

theorem GeneratePassword_uniform_witness:
  "GeneratePassword [0xFF, 0xFF, 0xFF, 0x00, 0x01, 0x02] = (Inr ''000258'', [])
   \<and> (\<exists>pw r. GeneratePassword [0xFF, 0xFF, 0xFF, 0x00, 0x01, 0x02] = (Inr pw, r) \<and> length pw = 6)"
proof
  show "GeneratePassword [0xFF, 0xFF, 0xFF, 0x00, 0x01, 0x02] = (Inr ''000258'', [])"
    by (simp add: GeneratePassword_def draw_def passwordSpace_def fmt_06d_def show_nat.simps digit_char_def)
      code_simp
  show "\<exists>pw r. GeneratePassword [0xFF, 0xFF, 0xFF, 0x00, 0x01, 0x02] = (Inr pw, r) \<and> length pw = 6"
    using GeneratePassword_uniform [of 1 "[0xFF, 0xFF, 0xFF, 0x00, 0x01, 0x02]"]
    by (auto simp: draw_def passwordSpace_def)
qed

end
