(* ===== verification/Keyset.thy ===== *)
theory Keyset
  imports Credentials Resolve "HOL-Library.List_Lexorder" "HOL-Library.Multiset"
begin

text \<open>
  \<^verbatim>\<open>internal/auth/pubkey.go\<close>: the accepted public keys, the check of a presented key, and the source
  that loads and reloads the authorized-keys file.

  The functions of \<^verbatim>\<open>golang.org/x/crypto/ssh\<close> are parameters: \<open>parseAK\<close> is \<^verbatim>\<open>ParseAuthorizedKey\<close> (an error
  text, or key, comment, options and rest), \<open>marshal\<close> the method \<^verbatim>\<open>Marshal\<close> of a key and \<open>fingerprint\<close>
  \<^verbatim>\<open>FingerprintSHA256\<close>. What \<^verbatim>\<open>os.Open\<close> and the reads of the opened file give is a value of \<open>file_read\<close>.
  \<^verbatim>\<open>bufio.Scanner\<close> with its 64 KiB token limit is modelled. Log calls are returned as a list of events, in order.
\<close>

section \<open>Data\<close>

definition ReasonBadKey :: string where "ReasonBadKey = ''bad-key''"

datatype pk_event =
    PubkeyParseError string nat string
  | PubkeyOptionIgnored string nat string
  | PubkeyKeysMissing string
  | PubkeyReloadOK string nat
  | PubkeyReloadFailed string string

record AcceptedKey =
  Marshal :: bytes
  Digest :: bytes
  Fingerprint :: string
  Comment :: string

record Keyset =
  keys :: "AcceptedKey list"

record KeysetSource =
  path :: string
  cur :: "Keyset option"

text \<open>
  The result of opening and reading a file: it does not exist, it cannot be opened for another
  reason, or it can be read, and then either to its end or until a read error.
\<close>

datatype file_error = NotExist string | OtherError string

datatype file_read = OpenFails file_error | Contents bytes "string option"

fun error_text :: "file_error \<Rightarrow> string" where
  "error_text (NotExist m) = m"
| "error_text (OtherError m) = m"

section \<open>\<^verbatim>\<open>bufio.Scanner\<close>\<close>

text \<open>
  The lines of the input: they end at a newline or at the end of the input, an empty piece after the last newline is no line,
  and one trailing carriage return is dropped. The buffer holds at most
  65536 bytes, so the scanner stops with an error at the first line that does not end within them.
\<close>

definition MaxScanTokenSize :: nat where "MaxScanTokenSize = 65536"

fun split_lines :: "bytes \<Rightarrow> bytes list" where
  "split_lines [] = []"
| "split_lines (b # bs) =
     (if b = 10 then [] # split_lines bs
      else (case split_lines bs of
          [] \<Rightarrow> [[b]]
        | l # ls \<Rightarrow> (b # l) # ls))"

definition dropCR :: "bytes \<Rightarrow> bytes" where
  "dropCR l = (if l \<noteq> [] \<and> last l = 13 then butlast l else l)"

definition scan :: "bytes \<Rightarrow> string option \<Rightarrow> bytes list \<times> string option" where
  "scan content read_err =
     (let ls = split_lines content; short = takeWhile (\<lambda>l. length l < MaxScanTokenSize) ls
      in (map dropCR short,
          if length short < length ls then Some ''bufio.Scanner: token too long'' else read_err))"

section \<open>Keyset\<close>

definition Keyset_Count :: "Keyset option \<Rightarrow> nat" where
  "Keyset_Count ks = (case ks of None \<Rightarrow> 0 | Some k \<Rightarrow> length (keys k))"

definition Keyset_Check ::
  "('k \<Rightarrow> bytes) \<Rightarrow> ('k \<Rightarrow> string) \<Rightarrow> Keyset option \<Rightarrow> 'k \<Rightarrow> bool \<times> string \<times> string" where
  "Keyset_Check marshal fingerprint ks presentedKey =
     (let presented = Sum256 (marshal presentedKey);
          fp = fingerprint presentedKey;
          matched =
            (case ks of
               None \<Rightarrow> 0
             | Some k \<Rightarrow> if keys k = [] then 0
                 else foldl (\<lambda>m k. m OR ConstantTimeCompare presented (Digest k)) 0 (keys k))
      in if matched \<noteq> 0 then (True, '''', fp) else (False, ReasonBadKey, fp))"

section \<open>The source\<close>

definition NewKeysetSource :: "string \<Rightarrow> KeysetSource" where
  "NewKeysetSource p = \<lparr> path = p, cur = None \<rparr>"

definition Current :: "KeysetSource \<Rightarrow> Keyset option" where
  "Current s = cur s"

definition Source_Count :: "KeysetSource \<Rightarrow> nat" where
  "Source_Count s = (case cur s of None \<Rightarrow> 0 | Some ks \<Rightarrow> Keyset_Count (Some ks))"

type_synonym 'k ak_parser = "bytes \<Rightarrow> string + ('k \<times> string \<times> string list \<times> bytes)"

definition accept :: "('k \<Rightarrow> bytes) \<Rightarrow> ('k \<Rightarrow> string) \<Rightarrow> 'k \<Rightarrow> string \<Rightarrow> AcceptedKey" where
  "accept marshal fingerprint pubKey comment =
     (let raw = marshal pubKey in
      \<lparr> Marshal = raw, Digest = Sum256 raw, Fingerprint = fingerprint pubKey, Comment = comment \<rparr>)"

definition skipped :: "bytes \<Rightarrow> bool" where
  "skipped line =
     (let trimmed = TrimSpace (string_of_bytes line) in trimmed = [] \<or> hd trimmed = CHR ''#'')"

text \<open>The loop over the scanned lines; \<open>n\<close> is \<^verbatim>\<open>lineNum\<close> before the line is read.\<close>

fun parse_lines ::
  "('k ak_parser) \<Rightarrow> ('k \<Rightarrow> bytes) \<Rightarrow> ('k \<Rightarrow> string) \<Rightarrow> string \<Rightarrow> nat \<Rightarrow> bytes list
   \<Rightarrow> AcceptedKey list \<times> pk_event list" where
  "parse_lines parseAK marshal fingerprint p n [] = ([], [])"
| "parse_lines parseAK marshal fingerprint p n (line # ls) =
     (let lineNum = n + 1;
          (ks, evs) = parse_lines parseAK marshal fingerprint p lineNum ls
      in if skipped line then (ks, evs)
         else (case parseAK line of
             Inl err \<Rightarrow> (ks, PubkeyParseError p lineNum err # evs)
           | Inr (pubKey, comment, opts, rest) \<Rightarrow>
               (accept marshal fingerprint pubKey comment # ks,
                (case opts of [] \<Rightarrow> [] | opt # _ \<Rightarrow> [PubkeyOptionIgnored p lineNum opt]) @ evs)))"

definition source_parse ::
  "('k ak_parser) \<Rightarrow> ('k \<Rightarrow> bytes) \<Rightarrow> ('k \<Rightarrow> string) \<Rightarrow> (string \<Rightarrow> file_read) \<Rightarrow> KeysetSource
   \<Rightarrow> (file_error + Keyset) \<times> pk_event list" where
  "source_parse parseAK marshal fingerprint open_file s =
     (case open_file (path s) of
        OpenFails err \<Rightarrow> (Inl err, [])
      | Contents content read_err \<Rightarrow>
          (let (ls, scan_err) = scan content read_err;
               (accepted, evs) = parse_lines parseAK marshal fingerprint (path s) 0 ls
           in (case scan_err of
                 Some err \<Rightarrow> (Inl (OtherError err), evs)
               | None \<Rightarrow> (Inr \<lparr> keys = sort_key Digest accepted \<rparr>, evs))))"

definition Load ::
  "('k ak_parser) \<Rightarrow> ('k \<Rightarrow> bytes) \<Rightarrow> ('k \<Rightarrow> string) \<Rightarrow> (string \<Rightarrow> file_read) \<Rightarrow> KeysetSource
   \<Rightarrow> file_error option \<times> KeysetSource \<times> pk_event list" where
  "Load parseAK marshal fingerprint open_file s =
     (case source_parse parseAK marshal fingerprint open_file s of
        (Inl (NotExist m), evs) \<Rightarrow>
          (None, s\<lparr>cur := Some \<lparr> keys = [] \<rparr>\<rparr>, evs @ [PubkeyKeysMissing (path s)])
      | (Inl err, evs) \<Rightarrow> (Some err, s, evs)
      | (Inr ks, evs) \<Rightarrow> (None, s\<lparr>cur := Some ks\<rparr>, evs))"

text \<open>\<^verbatim>\<open>Reload\<close> parses the file and then decides what to store; the part after the parse gives the source and the event that reports the outcome.\<close>

definition reload_store :: "KeysetSource \<Rightarrow> file_error + Keyset \<Rightarrow> file_error option \<times> KeysetSource \<times> pk_event" where
  "reload_store s res =
     (case res of
        Inl err \<Rightarrow> (Some err, s, PubkeyReloadFailed (path s) (error_text err))
      | Inr ks \<Rightarrow>
          (let prev = cur s in
           if Keyset_Count (Some ks) = 0 \<and> prev \<noteq> None \<and> Keyset_Count prev \<ge> 1
           then (Some (OtherError ''reload yielded zero usable keys''), s,
                 PubkeyReloadFailed (path s) ''reload yielded zero usable keys; preserving previous keyset'')
           else (None, s\<lparr>cur := Some ks\<rparr>, PubkeyReloadOK (path s) (Keyset_Count (Some ks)))))"

definition Reload ::
  "('k ak_parser) \<Rightarrow> ('k \<Rightarrow> bytes) \<Rightarrow> ('k \<Rightarrow> string) \<Rightarrow> (string \<Rightarrow> file_read) \<Rightarrow> KeysetSource
   \<Rightarrow> file_error option \<times> KeysetSource \<times> pk_event list" where
  "Reload parseAK marshal fingerprint open_file s =
     (let (res, evs) = source_parse parseAK marshal fingerprint open_file s;
          (err, s, e) = reload_store s res
      in (err, s, evs @ [e]))"

section \<open>Lemmas on scanning\<close>

lemma split_lines_line: "10 \<notin> set l \<Longrightarrow> split_lines (l @ 10 # bs) = l # split_lines bs"
  by (induction l) auto

lemma split_lines_last: "10 \<notin> set l \<Longrightarrow> l \<noteq> [] \<Longrightarrow> split_lines l = [l]"
proof (induction l)
  case (Cons b l)
  then show ?case by (cases "l = []") auto
qed simp

text \<open>A file that was written line by line is scanned back, with or without a final newline.\<close>

lemma split_lines_written:
  assumes "\<forall>l \<in> set ls. 10 \<notin> set l"
  shows "split_lines (concat (map (\<lambda>l. l @ [10]) ls)) = ls"
    and "10 \<notin> set l \<Longrightarrow> l \<noteq> [] \<Longrightarrow> split_lines (concat (map (\<lambda>l. l @ [10]) ls) @ l) = ls @ [l]"
  using assms
proof (induction ls)
  case (Cons x ls)
  {
    case 1
    with Cons show ?case by (simp add: split_lines_line)
  next
    case 2
    with Cons show ?case by (simp add: split_lines_line)
  }
qed (simp_all add: split_lines_last)

definition short_lines :: "bytes \<Rightarrow> bool" where
  "short_lines content \<longleftrightarrow> list_all (\<lambda>l. length l < MaxScanTokenSize) (split_lines content)"

lemma scan_short: "short_lines content \<Longrightarrow> scan content e = (map dropCR (split_lines content), e)"
  by (simp add: scan_def short_lines_def list_all_iff takeWhile_eq_all_conv [THEN iffD2] Let_def)

lemma scan_long: "\<not> short_lines content \<Longrightarrow> snd (scan content e) = Some ''bufio.Scanner: token too long''"
proof -
  assume "\<not> short_lines content"
  then have "takeWhile (\<lambda>l. length l < MaxScanTokenSize) (split_lines content) \<noteq> split_lines content"
    by (auto simp: short_lines_def list_all_iff takeWhile_eq_all_conv)
  then have "length (takeWhile (\<lambda>l. length l < MaxScanTokenSize) (split_lines content)) < length (split_lines content)"
    by (metis length_takeWhile_le order_le_imp_less_or_eq takeWhile_eq_take take_all order_refl)
  then show ?thesis by (simp add: scan_def Let_def)
qed

section \<open>Lemmas on keysets\<close>

text \<open>The key that a scanned line contributes, if any.\<close>

definition line_key ::
  "('k ak_parser) \<Rightarrow> ('k \<Rightarrow> bytes) \<Rightarrow> ('k \<Rightarrow> string) \<Rightarrow> bytes \<Rightarrow> AcceptedKey option" where
  "line_key parseAK marshal fingerprint line =
     (if skipped line then None
      else (case parseAK line of
          Inl _ \<Rightarrow> None
        | Inr (pubKey, comment, _, _) \<Rightarrow> Some (accept marshal fingerprint pubKey comment)))"

lemma parse_lines_keys:
  "fst (parse_lines parseAK marshal fingerprint p n ls) = List.map_filter (line_key parseAK marshal fingerprint) ls"
  by (induction ls arbitrary: n)
    (auto simp: line_key_def map_filter_simps case_prod_beta Let_def split: sum.splits)

lemma line_key_digest: "line_key parseAK marshal fingerprint l = Some k \<Longrightarrow> Digest k = Sum256 (Marshal k)"
  by (auto simp: line_key_def accept_def Let_def split: if_splits sum.splits)

lemma fold_matched:
  "foldl (\<lambda>m k. m OR ConstantTimeCompare d (Digest k)) m ks \<noteq> (0 :: int) \<longleftrightarrow> m \<noteq> 0 \<or> d \<in> Digest ` set ks"
proof (induction ks arbitrary: m)
  case (Cons k ks)
  have "m OR ConstantTimeCompare d (Digest k) \<noteq> 0 \<longleftrightarrow> m \<noteq> 0 \<or> d = Digest k"
    by (auto simp: ConstantTimeCompare_eq or_eq_0_iff)
  with Cons show ?case by auto
qed simp

lemma Keyset_Check_cases:
  "Keyset_Check marshal fingerprint ks k =
     (if (\<exists>s. ks = Some s \<and> Sum256 (marshal k) \<in> Digest ` set (keys s))
      then (True, '''', fingerprint k) else (False, ReasonBadKey, fingerprint k))"
proof (cases ks)
  case (Some s)
  then show ?thesis
    using fold_matched [of "Sum256 (marshal k)" 0 "keys s"]
    by (cases "keys s = []") (simp_all add: Keyset_Check_def Let_def)
qed (simp add: Keyset_Check_def)

text \<open>The interface the public-key callback uses.\<close>

locale key_checker =
  fixes check_key :: "'s \<Rightarrow> 'k \<Rightarrow> bool \<times> string \<times> string"
    and bad_key :: string
  assumes key_ok: "fst (check_key s k) \<Longrightarrow> fst (snd (check_key s k)) = ''''"
    and key_bad: "\<not> fst (check_key s k) \<Longrightarrow> fst (snd (check_key s k)) = bad_key"
    and bad_key: "bad_key \<noteq> ''''"
begin

lemma key_reason_iff: "fst (check_key s k) \<longleftrightarrow> fst (snd (check_key s k)) = ''''"
  using key_ok key_bad bad_key by (cases "fst (check_key s k)") auto

end

interpretation ksc: key_checker "Keyset_Check marshal fingerprint" ReasonBadKey for marshal fingerprint
  by unfold_locales (simp_all add: Keyset_Check_cases ReasonBadKey_def split: if_splits)

section \<open>Lemmas on the source\<close>

lemma source_parse_ok:
  assumes "source_parse parseAK marshal fingerprint open_file s = (Inr ks, evs)"
  obtains content where "open_file (path s) = Contents content None" and "short_lines content"
    and "keys ks = sort_key Digest (List.map_filter (line_key parseAK marshal fingerprint) (map dropCR (split_lines content)))"
proof -
  from assms obtain content e where o: "open_file (path s) = Contents content e"
    by (auto simp: source_parse_def split: file_read.splits)
  have short: "short_lines content"
    using assms scan_long [of content e] by (force simp: source_parse_def o case_prod_beta Let_def)
  with assms have "e = None"
    by (auto simp: source_parse_def o scan_short case_prod_beta Let_def split: option.splits)
  with assms short have "ks = \<lparr>keys = sort_key Digest
      (List.map_filter (line_key parseAK marshal fingerprint) (map dropCR (split_lines content)))\<rparr>"
    by (simp add: source_parse_def o scan_short case_prod_beta Let_def parse_lines_keys)
  with that [OF o [unfolded \<open>e = None\<close>] short] show thesis by simp
qed

lemma Reload_cases:
  assumes "Reload parseAK marshal fingerprint open_file s = (err, s', evs)"
  obtains (failed) m where "err \<noteq> None" "s' = s" "evs \<noteq> []" "last evs = PubkeyReloadFailed (path s) m"
  | (ok) ks evs' where "err = None" "source_parse parseAK marshal fingerprint open_file s = (Inr ks, evs')"
      "s' = s\<lparr>cur := Some ks\<rparr>" "evs = evs' @ [PubkeyReloadOK (path s) (length (keys ks))]"
      "keys ks \<noteq> [] \<or> Source_Count s = 0"
  using assms
  by (cases "fst (source_parse parseAK marshal fingerprint open_file s)"; cases "cur s")
    (auto simp: Reload_def reload_store_def Keyset_Count_def Source_Count_def case_prod_beta Let_def prod_eq_iff
      Suc_le_eq split: if_splits)

text \<open>A sequence of reloads, each with the state of the file system it meets.\<close>

fun reloads ::
  "('k ak_parser) \<Rightarrow> ('k \<Rightarrow> bytes) \<Rightarrow> ('k \<Rightarrow> string) \<Rightarrow> (string \<Rightarrow> file_read) list \<Rightarrow> KeysetSource \<Rightarrow> KeysetSource" where
  "reloads parseAK marshal fingerprint [] s = s"
| "reloads parseAK marshal fingerprint (fs # fss) s =
     (let (err, s', evs) = Reload parseAK marshal fingerprint fs s
      in reloads parseAK marshal fingerprint fss s')"

lemma Reload_count:
  assumes "Reload parseAK marshal fingerprint fs s = (err, s', evs)" and "0 < Source_Count s"
  shows "0 < Source_Count s'"
  by (rule Reload_cases [OF assms(1)]) (use assms(2) in \<open>auto simp: Source_Count_def Keyset_Count_def\<close>)

lemma reloads_count: "0 < Source_Count s \<Longrightarrow> 0 < Source_Count (reloads parseAK marshal fingerprint fss s)"
proof (induction fss arbitrary: s)
  case (Cons fs fss)
  then show ?case
    by (cases "Reload parseAK marshal fingerprint fs s") (auto dest: Reload_count)
qed simp

lemma mset_map_filter: "mset (List.map_filter f xs) = image_mset (the \<circ> f) (filter_mset (\<lambda>x. f x \<noteq> None) (mset xs))"
  by (simp add: map_filter_def)

lemma map_filter_perm: "mset xs = mset ys \<Longrightarrow> mset (List.map_filter f xs) = mset (List.map_filter f ys)"
  by (simp add: mset_map_filter)

lemma sorted_digests: "map Digest (sort_key Digest ks) = sort (map Digest ks)"
  by (rule properties_for_sort [symmetric]) simp_all

text \<open>Every accepted key carries the digest of its own encoding.\<close>

definition keyset_inv :: "Keyset option \<Rightarrow> bool" where
  "keyset_inv ks = (case ks of None \<Rightarrow> True | Some s \<Rightarrow>
     list_all (\<lambda>k. Digest k = Sum256 (Marshal k)) (keys s) \<and> sorted (map Digest (keys s)))"

lemma set_map_filter: "set (List.map_filter f xs) = {y. \<exists>x \<in> set xs. f x = Some y}"
  by (force simp: map_filter_def image_iff)

text \<open>Whether a file lists a key with the digest \<open>d\<close>, on a line that is neither blank nor a comment.\<close>

definition listed :: "('k ak_parser) \<Rightarrow> ('k \<Rightarrow> bytes) \<Rightarrow> bytes \<Rightarrow> bytes \<Rightarrow> bool" where
  "listed parseAK marshal content d =
     list_ex (\<lambda>line. \<not> skipped line \<and> (case parseAK line of Inr (pubKey, _) \<Rightarrow> Sum256 (marshal pubKey) = d | Inl _ \<Rightarrow> False))
       (map dropCR (split_lines content))"

lemma listed_iff:
  "listed parseAK marshal content d \<longleftrightarrow> (\<exists>line \<in> set (map dropCR (split_lines content)). \<not> skipped line
     \<and> (\<exists>key comment opts rest. parseAK line = Inr (key, comment, opts, rest) \<and> Sum256 (marshal key) = d))"
  unfolding listed_def list_ex_iff by (intro bex_cong refl) (auto split: sum.split)

lemma parsed_digests:
  assumes "open_file (path s) = Contents content None" and "short_lines content"
  obtains ks evs where "source_parse parseAK marshal fingerprint open_file s = (Inr ks, evs)"
    and "\<And>d. d \<in> Digest ` set (keys ks) \<longleftrightarrow> listed parseAK marshal content d"
proof -
  let ?ls = "map dropCR (split_lines content)"
  let ?ks = "List.map_filter (line_key parseAK marshal fingerprint) ?ls"
  obtain evs where p: "source_parse parseAK marshal fingerprint open_file s = (Inr \<lparr>keys = sort_key Digest ?ks\<rparr>, evs)"
    using assms by (simp add: source_parse_def scan_short case_prod_beta Let_def parse_lines_keys)
  have "(\<exists>y. line_key parseAK marshal fingerprint line = Some y \<and> d = Digest y) \<longleftrightarrow>
    \<not> skipped line \<and> (\<exists>key comment opts rest. parseAK line = Inr (key, comment, opts, rest) \<and> Sum256 (marshal key) = d)" for line d
    by (auto simp: line_key_def accept_def Let_def split: sum.splits)
  moreover have "d \<in> Digest ` set ?ks \<longleftrightarrow> (\<exists>line \<in> set ?ls. \<exists>y. line_key parseAK marshal fingerprint line = Some y \<and> d = Digest y)" for d
    unfolding set_map_filter by blast
  ultimately have "d \<in> Digest ` set ?ks \<longleftrightarrow> listed parseAK marshal content d" for d
    unfolding listed_iff by simp
  then have "d \<in> Digest ` set (keys \<lparr>keys = sort_key Digest ?ks\<rparr>) \<longleftrightarrow> listed parseAK marshal content d" for d
    unfolding Keyset.Keyset.select_convs set_sort .
  with p show thesis by (rule that)
qed

lemma source_parse_inv:
  assumes "source_parse parseAK marshal fingerprint open_file s = (Inr ks, evs)"
  shows "keyset_inv (Some ks)"
proof -
  from assms obtain content where
    "keys ks = sort_key Digest (List.map_filter (line_key parseAK marshal fingerprint) (map dropCR (split_lines content)))"
    by (rule source_parse_ok)
  then show ?thesis
    by (auto simp: keyset_inv_def list_all_iff set_map_filter dest: line_key_digest)
qed

lemma Load_cases:
  assumes "Load parseAK marshal fingerprint open_file s = (err, s', evs)"
  obtains (missing) m where "open_file (path s) = OpenFails (NotExist m)" "err = None"
      "s' = s\<lparr>cur := Some \<lparr>keys = []\<rparr>\<rparr>" "evs = [PubkeyKeysMissing (path s)]"
  | (failed) "err \<noteq> None" "s' = s"
  | (ok) ks where "err = None" "source_parse parseAK marshal fingerprint open_file s = (Inr ks, evs)" "s' = s\<lparr>cur := Some ks\<rparr>"
  using assms
  by (auto simp: Load_def source_parse_def case_prod_beta Let_def
      split: file_read.splits file_error.splits option.splits sum.splits)

text \<open>The states a source goes through: one load and any number of reloads, with any file contents.\<close>

inductive source_step ::
  "('k ak_parser) \<Rightarrow> ('k \<Rightarrow> bytes) \<Rightarrow> ('k \<Rightarrow> string) \<Rightarrow> KeysetSource \<Rightarrow> KeysetSource \<Rightarrow> bool"
  for parseAK marshal fingerprint where
  load: "Load parseAK marshal fingerprint fs s = (err, s', evs) \<Longrightarrow> source_step parseAK marshal fingerprint s s'"
| reload: "Reload parseAK marshal fingerprint fs s = (err, s', evs) \<Longrightarrow> source_step parseAK marshal fingerprint s s'"

interpretation src: inv_system "\<lambda>s. cur s = None" "source_step parseAK marshal fingerprint" "\<lambda>s. keyset_inv (cur s)"
  for parseAK :: "'k ak_parser" and marshal fingerprint
proof
  fix s :: KeysetSource assume "cur s = None"
  then show "keyset_inv (cur s)" by (simp add: keyset_inv_def)
next
  fix s s' assume inv: "keyset_inv (cur s)" and step: "source_step parseAK marshal fingerprint s s'"
  from step show "keyset_inv (cur s')"
  proof cases
    case (load fs err evs)
    then show ?thesis
      by (rule Load_cases) (use inv source_parse_inv in \<open>auto simp: keyset_inv_def [of "Some \<lparr>keys = []\<rparr>"]\<close>)
  next
    case (reload fs err evs)
    then show ?thesis
      by (rule Reload_cases) (use inv source_parse_inv in auto)
  qed
qed

section \<open>Properties\<close>

text \<open>
  After loading a readable file with no overlong line, a presented key is accepted exactly when
  some line of the file that is neither blank nor a comment parses to a key with the same SHA-256 digest; it is refused as \<^verbatim>\<open>bad-key\<close>
  otherwise, and the fingerprint reported is the presented key's in both cases.
\<close>

theorem Load_Check_exact:
  assumes "open_file (path s) = Contents content None" and "short_lines content"
  shows "\<exists>s' evs. Load parseAK marshal fingerprint open_file s = (None, s', evs)
    \<and> Keyset_Check marshal fingerprint (Current s') k =
      (if \<exists>line \<in> set (map dropCR (split_lines content)). \<not> skipped line
            \<and> (\<exists>key comment opts rest. parseAK line = Inr (key, comment, opts, rest) \<and> Sum256 (marshal key) = Sum256 (marshal k))
       then (True, '''', fingerprint k) else (False, ReasonBadKey, fingerprint k))"
proof -
  obtain ks evs where p: "source_parse parseAK marshal fingerprint open_file s = (Inr ks, evs)"
    and d: "\<And>d. d \<in> Digest ` set (keys ks) \<longleftrightarrow> listed parseAK marshal content d"
    using parsed_digests [of open_file s content parseAK marshal fingerprint] assms by blast
  have "Load parseAK marshal fingerprint open_file s = (None, s\<lparr>cur := Some ks\<rparr>, evs)"
    by (simp add: Load_def p)
  then show ?thesis
    by (simp add: Keyset_Check_cases Current_def d listed_iff)
qed

text \<open>A parser for keys written as their own encoding, for the concrete inputs below.\<close>

definition raw_ak :: "bytes ak_parser" where
  "raw_ak line = (if hd line = 0x6B then Inr (line, '''', [], []) else Inl ''ssh: no key found'')"

lemma sample_line: "\<not> skipped [0x6B, 0x31]"
  by (simp add: skipped_def string_of_bytes_def char_of_byte_def)
    (simp add: TrimSpace_id edge_chars_def of_char_of char_of_eq_iff Let_def)

lemma sample_source_parse:
  "source_parse raw_ak (\<lambda>k. k) string_of_bytes (\<lambda>_. Contents [0x6B, 0x31] None) s =
     (Inr \<lparr>keys = [accept (\<lambda>k. k) string_of_bytes [0x6B, 0x31] '''']\<rparr>, [])"
  using sample_line by (simp add: source_parse_def scan_def Let_def MaxScanTokenSize_def dropCR_def raw_ak_def)

theorem Load_Check_exact_witness:
  "\<exists>s' evs. Load raw_ak (\<lambda>k. k) string_of_bytes (\<lambda>_. Contents [0x6B, 0x31, 0x0A, 0x23, 0x0A, 0x78] None) (NewKeysetSource ''f'') = (None, s', evs)
    \<and> Keyset_Check (\<lambda>k. k) string_of_bytes (Current s') [0x6B, 0x31] = (True, '''', ''k1'')"
proof -
  have "string_of_bytes [0x6B, 0x31] = ''k1''"
    by code_simp
  then show ?thesis
    using sample_line Load_Check_exact [of "\<lambda>_. Contents [0x6B, 0x31, 0x0A, 0x23, 0x0A, 0x78] None" "NewKeysetSource ''f''"
        "[0x6B, 0x31, 0x0A, 0x23, 0x0A, 0x78]" raw_ak "\<lambda>k. k" string_of_bytes "[0x6B, 0x31]"]
    by (simp add: short_lines_def MaxScanTokenSize_def dropCR_def raw_ak_def)
qed

text \<open>
  C21: A reload that fails, because the file cannot be opened or read, has an overlong line, or yields no key while keys are in
  force, leaves the source exactly as it was and logs the failure last; a reload that succeeds installs
  the parsed keyset and logs its size. Over any number of reloads with any file contents a source that has keys never loses all of them.
\<close>

theorem Reload_safe:
  assumes "Reload parseAK marshal fingerprint open_file s = (err, s', evs)"
  shows "(case err of
      Some _ \<Rightarrow> s' = s \<and> (\<exists>m. last evs = PubkeyReloadFailed (path s) m)
    | None \<Rightarrow> \<exists>ks. fst (source_parse parseAK marshal fingerprint open_file s) = Inr ks \<and> s' = s\<lparr>cur := Some ks\<rparr>
        \<and> last evs = PubkeyReloadOK (path s) (Source_Count s'))
    \<and> (Source_Count s = 0 \<or> 0 < Source_Count (reloads parseAK marshal fingerprint fss s'))"
proof -
  have "Source_Count s = 0 \<or> 0 < Source_Count (reloads parseAK marshal fingerprint fss s')"
    using Reload_count [OF assms] reloads_count [of s' parseAK marshal fingerprint fss]
    by (metis neq0_conv)
  moreover have "case err of
      Some _ \<Rightarrow> s' = s \<and> (\<exists>m. last evs = PubkeyReloadFailed (path s) m)
    | None \<Rightarrow> \<exists>ks. fst (source_parse parseAK marshal fingerprint open_file s) = Inr ks \<and> s' = s\<lparr>cur := Some ks\<rparr>
        \<and> last evs = PubkeyReloadOK (path s) (Source_Count s')"
    by (rule Reload_cases [OF assms(1)]) (auto simp: Source_Count_def Keyset_Count_def)
  ultimately show ?thesis by blast
qed

theorem Reload_safe_witness:
  "Reload raw_ak (\<lambda>k. k) string_of_bytes (\<lambda>_. Contents [] None) \<lparr>path = ''f'', cur = Some \<lparr>keys = [accept (\<lambda>k. k) string_of_bytes [0x6B] '''']\<rparr>\<rparr>
     = (Some (OtherError ''reload yielded zero usable keys''), \<lparr>path = ''f'', cur = Some \<lparr>keys = [accept (\<lambda>k. k) string_of_bytes [0x6B] '''']\<rparr>\<rparr>,
        [PubkeyReloadFailed ''f'' ''reload yielded zero usable keys; preserving previous keyset''])
   \<and> 0 < Source_Count (reloads raw_ak (\<lambda>k. k) string_of_bytes [\<lambda>_. OpenFails (NotExist ''gone'')]
        \<lparr>path = ''f'', cur = Some \<lparr>keys = [accept (\<lambda>k. k) string_of_bytes [0x6B] '''']\<rparr>\<rparr>)"
proof -
  let ?s = "\<lparr>path = ''f'', cur = Some \<lparr>keys = [accept (\<lambda>k. k) string_of_bytes [0x6B] '''']\<rparr>\<rparr>"
  have r: "Reload raw_ak (\<lambda>k. k) string_of_bytes (\<lambda>_. Contents [] None) ?s
     = (Some (OtherError ''reload yielded zero usable keys''), ?s,
        [PubkeyReloadFailed ''f'' ''reload yielded zero usable keys; preserving previous keyset''])"
    by (simp add: Reload_def reload_store_def source_parse_def scan_def Let_def Keyset_Count_def)
  show ?thesis
    using r Reload_safe [OF r, of "[\<lambda>_. OpenFails (NotExist ''gone'')]"]
    by (simp add: Source_Count_def Keyset_Count_def)
qed

text \<open>
  The order in which keys appear in the file has no effect on the sequence of digests a check walks through: two files
  whose lines are permutations of each other give the same sorted digests, and the number of accepted keys is the number of lines that
  hold one.
\<close>

theorem keyset_order_independent:
  assumes "open_file (path s) = Contents c1 None" and "open_file' (path s) = Contents c2 None"
    and "short_lines c1" and "short_lines c2" and "mset (split_lines c1) = mset (split_lines c2)"
  shows "\<exists>ks1 ks2. fst (source_parse parseAK marshal fingerprint open_file s) = Inr ks1
    \<and> fst (source_parse parseAK marshal fingerprint open_file' s) = Inr ks2
    \<and> map Digest (keys ks1) = map Digest (keys ks2) \<and> sorted (map Digest (keys ks1))
    \<and> Keyset_Count (Some ks1) = length (filter (\<lambda>l. line_key parseAK marshal fingerprint (dropCR l) \<noteq> None) (split_lines c2))"
proof -
  let ?f = "List.map_filter (line_key parseAK marshal fingerprint)"
  let ?k = "\<lambda>c. ?f (map dropCR (split_lines c))"
  have "mset (map dropCR (split_lines c1)) = mset (map dropCR (split_lines c2))"
    using assms by simp
  then have p: "mset (?k c1) = mset (?k c2)" by (rule map_filter_perm)
  then have "mset (map Digest (?k c1)) = mset (map Digest (?k c2))" by simp
  then have "sort (map Digest (?k c1)) = sort (map Digest (?k c2))"
    by (intro properties_for_sort) (simp_all only: mset_sort sorted_sort)
  moreover have "length (?k c1) = length (?k c2)"
    using p by (rule mset_eq_length)
  moreover have "length (?f (map dropCR ls)) = length (filter (\<lambda>l. line_key parseAK marshal fingerprint (dropCR l) \<noteq> None) ls)" for ls
    by (induction ls) (auto simp: map_filter_simps)
  ultimately show ?thesis
    using assms(1-4)
    by (simp add: source_parse_def scan_short case_prod_beta Let_def parse_lines_keys sorted_digests Keyset_Count_def)
qed

theorem keyset_order_independent_witness:
  "\<exists>ks1 ks2. fst (source_parse raw_ak (\<lambda>k. k) string_of_bytes (\<lambda>_. Contents [0x6B, 0x0A, 0x6B, 0x31] None) (NewKeysetSource ''f'')) = Inr ks1
    \<and> fst (source_parse raw_ak (\<lambda>k. k) string_of_bytes (\<lambda>_. Contents [0x6B, 0x31, 0x0A, 0x6B] None) (NewKeysetSource ''f'')) = Inr ks2
    \<and> map Digest (keys ks1) = map Digest (keys ks2)"
proof -
  have "short_lines [0x6B, 0x0A, 0x6B, 0x31]" "short_lines [0x6B, 0x31, 0x0A, 0x6B]"
    "mset (split_lines [0x6B, 0x0A, 0x6B, 0x31]) = mset (split_lines [0x6B, 0x31, 0x0A, 0x6B])"
    by (simp_all add: short_lines_def MaxScanTokenSize_def)
  then show ?thesis
    using keyset_order_independent [of "\<lambda>_. Contents [0x6B, 0x0A, 0x6B, 0x31] None" "NewKeysetSource ''f''" "[0x6B, 0x0A, 0x6B, 0x31]"
        "\<lambda>_. Contents [0x6B, 0x31, 0x0A, 0x6B] None" "[0x6B, 0x31, 0x0A, 0x6B]" raw_ak "\<lambda>k. k" string_of_bytes]
    by blast
qed

end
