(* ===== verification/ServerAuth.thy ===== *)
theory ServerAuth
  imports NetAddr Ratelimit Keyset Logging
begin

text \<open>
  \<^verbatim>\<open>internal/server/auth.go\<close>: the password and public-key callbacks and their helpers. As in the
  code, the callbacks are written against interfaces (a rate limiter, a credential checker, a
  key checker); the locale \<open>auth_server\<close> collects the laws of the three and proves the behaviour of the callbacks
  once, and its interpretation is on the limiter, the credentials and the keysets of this program.

  A callback reads the clock twice, in \<^verbatim>\<open>Acquire\<close> and, after the sleep, in \<^verbatim>\<open>release\<close>; the two instants are
  arguments. It returns the result for the SSH library, the duration it slept, the events it logged
  and the new limiter state.
\<close>

section \<open>Helpers\<close>

definition extractIP :: "net_addr \<Rightarrow> IP" where
  "extractIP addr =
     (case addr of
        TCPAddr ip _ _ \<Rightarrow> ip
      | UDPAddr ip _ _ \<Rightarrow> ip
      | IPAddr ip _ \<Rightarrow> ip
      | OtherAddr _ \<Rightarrow>
          (let host = (case SplitHostPort (Addr_String addr) of Some (h, _) \<Rightarrow> h | None \<Rightarrow> Addr_String addr)
           in ParseIP host))"

definition normalizeKey :: "IP \<Rightarrow> string" where
  "normalizeKey ip =
     (if ip = nil_ip then ''''
      else (case To4 ip of Some v4 \<Rightarrow> IP_String v4 | None \<Rightarrow> IP_String ip))"

definition nextDelay :: "int \<Rightarrow> nanos" where
  "nextDelay fails =
     (if fails \<le> 0 then 0
      else let exp = fails - 1 in
        if exp > 62 then MaxDelay
        else let d = sint (push_bit (nat exp) 1 * 1000000000 :: 64 word) in
          if d > MaxDelay \<or> d < 0 then MaxDelay else d)"

section \<open>The callbacks\<close>

record ConnMetadata =
  meta_User :: string
  meta_RemoteAddr :: net_addr

definition errAuthFailed :: go_fail where
  "errAuthFailed = Error ''password authentication failed''"

type_synonym ('l, 'h) acquire_op = "nanos \<Rightarrow> IP \<Rightarrow> 'l \<Rightarrow> nanos \<times> 'h \<times> 'l"
type_synonym ('l, 'h) release_op = "nanos \<Rightarrow> bool \<Rightarrow> 'h \<Rightarrow> 'l \<Rightarrow> 'l"
type_synonym 'l snapshot_op = "'l \<Rightarrow> string \<Rightarrow> int option"
type_synonym 'l callback_result = "unit res \<times> nanos \<times> log_event list \<times> 'l"

definition map_lookup :: "(string \<Rightarrow> int option) \<Rightarrow> string \<Rightarrow> int" where
  "map_lookup m k = (case m k of Some n \<Rightarrow> n | None \<Rightarrow> 0)"

definition passwordCallback ::
  "('l, 'h) acquire_op \<Rightarrow> ('l, 'h) release_op \<Rightarrow> 'l snapshot_op \<Rightarrow> (string \<Rightarrow> string \<Rightarrow> bool \<times> string)
   \<Rightarrow> nanos \<Rightarrow> nanos \<Rightarrow> ConnMetadata \<Rightarrow> bytes \<Rightarrow> 'l \<Rightarrow> 'l callback_result" where
  "passwordCallback acq rel snap check t t' meta password l =
     (let remote = Addr_String (meta_RemoteAddr meta);
          ip = extractIP (meta_RemoteAddr meta);
          (delay, h, l) = acq t ip l;
          (ok, reason) = check (meta_User meta) (string_of_bytes password);
          l = rel t' ok h l
      in if ok then (Inr (), delay, [Log_AuthOK remote (meta_User meta) ''password'' ''''], l)
         else
           (let k = normalizeKey ip;
                attempt = map_lookup (snap l) k;
                nxt = nextDelay attempt
            in (Inl errAuthFailed, delay,
                [Log_AuthFail remote (meta_User meta) ''password'' reason attempt nxt ''''], l)))"

definition publickeyCallback ::
  "('l, 'h) acquire_op \<Rightarrow> ('l, 'h) release_op \<Rightarrow> 'l snapshot_op \<Rightarrow> (string \<Rightarrow> bool \<times> string)
   \<Rightarrow> ('k \<Rightarrow> bool \<times> string \<times> string) \<Rightarrow> nanos \<Rightarrow> nanos \<Rightarrow> ConnMetadata \<Rightarrow> 'k \<Rightarrow> 'l \<Rightarrow> 'l callback_result" where
  "publickeyCallback acq rel snap check_user check_key t t' meta k l =
     (let remote = Addr_String (meta_RemoteAddr meta);
          ip = extractIP (meta_RemoteAddr meta);
          (delay, h, l) = acq t ip l;
          (userOK, userReason) = check_user (meta_User meta);
          (keyOK, keyReason, fp) = check_key k;
          ok = (userOK \<and> keyOK);
          l = rel t' ok h l
      in if ok then (Inr (), delay, [Log_AuthOK remote (meta_User meta) ''publickey'' fp], l)
         else
           (let reason = (if \<not> userOK then userReason else keyReason);
                key2 = normalizeKey ip;
                attempt = map_lookup (snap l) key2;
                nxt = nextDelay attempt
            in (Inl errAuthFailed, delay,
                [Log_AuthFail remote (meta_User meta) ''publickey'' reason attempt nxt fp], l)))"

section \<open>Helper lemmas\<close>

lemma nextDelay_computeDelay: "nextDelay n = computeDelay n"
  by (simp add: nextDelay_def computeDelay_def backoff_word_def Let_def)

lemma normalizeKey_limiter_key: "ip \<noteq> [] \<Longrightarrow> normalizeKey ip = limiter_key ip"
  by (simp add: normalizeKey_def limiter_key_def normalize_def nil_ip_def split: option.splits)

text \<open>The two helper functions disagree on an address that could not be determined.\<close>

lemma normalizeKey_nil: "normalizeKey nil_ip = '''' \<and> limiter_key nil_ip = ''<nil>''"
  by (simp add: normalizeKey_def limiter_key_def normalize_def nil_ip_def To4_def IP_String_def)

section \<open>The callbacks over their interfaces\<close>

locale auth_server =
  rate_limiter acquire rel snap key fails invar +
  credential_checker check check_user bad_user bad_password +
  key_checker check_key bad_key
  for acquire :: "('l, 'h) acquire_op" and rel :: "('l, 'h) release_op" and snap :: "'l snapshot_op"
    and key :: "IP \<Rightarrow> string" and fails :: "nanos \<Rightarrow> 'l \<Rightarrow> string \<Rightarrow> int" and invar :: "'l \<Rightarrow> bool"
    and check :: "'c \<Rightarrow> string \<Rightarrow> string \<Rightarrow> bool \<times> string" and check_user :: "'c \<Rightarrow> string \<Rightarrow> bool \<times> string"
    and bad_user :: string and bad_password :: string
    and check_key :: "'s \<Rightarrow> 'k \<Rightarrow> bool \<times> string \<times> string" and bad_key :: string +
  assumes key_normal: "ip \<noteq> [] \<Longrightarrow> normalizeKey ip = key ip"
begin

text \<open>The limiter goes through one attempt, charged to the address of the client.\<close>

lemma password_attempt:
  assumes "passwordCallback acquire rel snap (check c) t t' meta pw l = (r, d, evs, l')"
  shows "run_attempts acquire rel
     [(extractIP (meta_RemoteAddr meta), t, t', fst (check c (meta_User meta) (string_of_bytes pw)))] l = ([d], l')"
  using assms by (auto simp: passwordCallback_def Let_def split: prod.splits if_splits)

lemma publickey_attempt:
  assumes "publickeyCallback acquire rel snap (check_user c) (check_key s) t t' meta k l = (r, d, evs, l')"
  shows "run_attempts acquire rel
     [(extractIP (meta_RemoteAddr meta), t, t', fst (check_user c (meta_User meta)) \<and> fst (check_key s k))] l = ([d], l')"
  using assms by (auto simp: publickeyCallback_def Let_def split: prod.splits if_splits)

text \<open>A failure is logged with the count the limiter now holds and with the delay it implies.\<close>

lemma logged_attempt:
  assumes "invar l" and "acquire t ip l = (d, h, l1)" and "ip \<noteq> []"
  shows "map_lookup (snap (rel t' False h l1)) (normalizeKey ip) = fails t l (key ip) + 1"
  using failure_counted [OF assms(1,2)] key_normal [OF assms(3)] by (simp add: map_lookup_def)

lemma password_outcome:
  fixes t :: nanos and pw :: bytes
  assumes "invar l" and "extractIP (meta_RemoteAddr meta) = ip" and "ip \<noteq> []"
  defines "n \<equiv> fails t l (key ip)" and "u \<equiv> meta_User meta" and "p \<equiv> string_of_bytes pw"
    and "remote \<equiv> Addr_String (meta_RemoteAddr meta)"
  shows "\<exists>l'. invar l' \<and> passwordCallback acquire rel snap (check c) t t' meta pw l =
    (if fst (check c u p)
     then (Inr (), computeDelay n, [Log_AuthOK remote u ''password'' ''''], l')
     else (Inl errAuthFailed, computeDelay n,
       [Log_AuthFail remote u ''password'' (snd (check c u p)) (n + 1) (computeDelay (n + 1)) ''''], l'))"
proof -
  obtain d h l1 where acq: "acquire t ip l = (d, h, l1)" by (metis prod_cases3)
  obtain ok reason where chk: "check c u p = (ok, reason)" by fastforce
  have d: "d = computeDelay n"
    using acquire_delay [OF assms(1) acq] by (simp add: n_def)
  have "invar (rel t' ok h l1)"
    using cycle_invar [OF assms(1) acq] .
  moreover have "passwordCallback acquire rel snap (check c) t t' meta pw l =
    (if ok then (Inr (), d, [Log_AuthOK remote u ''password'' ''''], rel t' ok h l1)
     else (Inl errAuthFailed, d, [Log_AuthFail remote u ''password'' reason (n + 1) (computeDelay (n + 1)) ''''], rel t' ok h l1))"
    using logged_attempt [OF assms(1) acq assms(3), of t']
    by (simp add: passwordCallback_def Let_def assms(2) acq chk [unfolded u_def p_def]
        nextDelay_computeDelay n_def u_def remote_def)
  ultimately show ?thesis
    using chk d by (intro exI [of _ "rel t' ok h l1"]) auto
qed

lemma publickey_outcome:
  fixes t :: nanos and k :: 'k and s :: 's
  assumes "invar l" and "extractIP (meta_RemoteAddr meta) = ip" and "ip \<noteq> []"
  defines "n \<equiv> fails t l (key ip)" and "u \<equiv> meta_User meta"
    and "remote \<equiv> Addr_String (meta_RemoteAddr meta)" and "fp \<equiv> snd (snd (check_key s k))"
  shows "\<exists>l'. invar l' \<and> publickeyCallback acquire rel snap (check_user c) (check_key s) t t' meta k l =
    (if fst (check_user c u) \<and> fst (check_key s k)
     then (Inr (), computeDelay n, [Log_AuthOK remote u ''publickey'' fp], l')
     else (Inl errAuthFailed, computeDelay n,
       [Log_AuthFail remote u ''publickey'' (if fst (check_user c u) then bad_key else bad_user)
          (n + 1) (computeDelay (n + 1)) fp], l'))"
proof -
  obtain d h l1 where acq: "acquire t ip l = (d, h, l1)" by (metis prod_cases3)
  obtain uok ureason where usr: "check_user c u = (uok, ureason)" by fastforce
  obtain kok kreason f where kchk: "check_key s k = (kok, kreason, f)" by (metis prod_cases3)
  have d: "d = computeDelay n"
    using acquire_delay [OF assms(1) acq] by (simp add: n_def)
  have reason: "\<not> uok \<Longrightarrow> ureason = bad_user" "\<not> kok \<Longrightarrow> kreason = bad_key"
    using user_bad [of c u] key_bad [of s k] by (simp_all add: usr kchk)
  have "invar (rel t' (uok \<and> kok) h l1)"
    using cycle_invar [OF assms(1) acq] .
  moreover have "publickeyCallback acquire rel snap (check_user c) (check_key s) t t' meta k l =
    (if uok \<and> kok then (Inr (), d, [Log_AuthOK remote u ''publickey'' f], rel t' (uok \<and> kok) h l1)
     else (Inl errAuthFailed, d, [Log_AuthFail remote u ''publickey'' (if uok then bad_key else bad_user)
       (n + 1) (computeDelay (n + 1)) f], rel t' (uok \<and> kok) h l1))"
    using logged_attempt [OF assms(1) acq assms(3), of t'] reason
    by (simp add: publickeyCallback_def Let_def assms(2) acq usr [unfolded u_def] kchk
        nextDelay_computeDelay n_def u_def remote_def)
  ultimately show ?thesis
    using usr kchk d by (intro exI [of _ "rel t' (uok \<and> kok) h l1"]) (auto simp: fp_def)
qed

end

interpretation auth: auth_server Acquire release Snapshot limiter_key fails_of lim_inv Check CheckUsername
    ReasonBadUser ReasonBadPassword "Keyset_Check marshal fingerprint" ReasonBadKey
  for marshal :: "'k \<Rightarrow> bytes" and fingerprint
  by unfold_locales (rule normalizeKey_limiter_key)

section \<open>Sequences of callbacks\<close>

text \<open>
  The calls the SSH library makes, in the order in which the limiter serialises them: the two instants, the client, and the
  password or the key with the keyset that is current at that moment.
\<close>

datatype 'k auth_call =
    PasswordCall nanos nanos ConnMetadata bytes
  | PublickeyCall nanos nanos ConnMetadata 'k "Keyset option"

fun run_call :: "('k \<Rightarrow> bytes) \<Rightarrow> ('k \<Rightarrow> string) \<Rightarrow> Credentials \<Rightarrow> 'k auth_call \<Rightarrow> Limiter \<Rightarrow> Limiter callback_result" where
  "run_call marshal fingerprint c (PasswordCall t t' meta pw) l =
     passwordCallback Acquire release Snapshot (Check c) t t' meta pw l"
| "run_call marshal fingerprint c (PublickeyCall t t' meta k ks) l =
     publickeyCallback Acquire release Snapshot (CheckUsername c) (Keyset_Check marshal fingerprint ks) t t' meta k l"

fun run_calls ::
  "('k \<Rightarrow> bytes) \<Rightarrow> ('k \<Rightarrow> string) \<Rightarrow> Credentials \<Rightarrow> 'k auth_call list \<Rightarrow> Limiter
   \<Rightarrow> unit res list \<times> nanos list \<times> log_event list \<times> Limiter" where
  "run_calls marshal fingerprint c [] l = ([], [], [], l)"
| "run_calls marshal fingerprint c (a # as) l =
     (let (r, d, evs, l) = run_call marshal fingerprint c a l;
          (rs, ds, evss, l) = run_calls marshal fingerprint c as l
      in (r # rs, d # ds, evs @ evss, l))"

text \<open>Whether a call presents valid credentials, and the attempt it is for the limiter.\<close>

fun accepts :: "('k \<Rightarrow> bytes) \<Rightarrow> Credentials \<Rightarrow> 'k auth_call \<Rightarrow> bool" where
  "accepts marshal c (PasswordCall t t' meta pw) \<longleftrightarrow>
     Sum256 (bytes_of_string (meta_User meta)) = userHash c \<and> Sum256 pw = passwordHash c"
| "accepts marshal c (PublickeyCall t t' meta k ks) \<longleftrightarrow>
     Sum256 (bytes_of_string (meta_User meta)) = userHash c
     \<and> (case ks of None \<Rightarrow> False | Some s \<Rightarrow> Sum256 (marshal k) \<in> Digest ` set (keys s))"

fun attempt_of :: "('k \<Rightarrow> bytes) \<Rightarrow> Credentials \<Rightarrow> 'k auth_call \<Rightarrow> IP \<times> nanos \<times> nanos \<times> bool" where
  "attempt_of marshal c (PasswordCall t t' meta pw) =
     (extractIP (meta_RemoteAddr meta), t, t', accepts marshal c (PasswordCall t t' meta pw))"
| "attempt_of marshal c (PublickeyCall t t' meta k ks) =
     (extractIP (meta_RemoteAddr meta), t, t', accepts marshal c (PublickeyCall t t' meta k ks))"

lemma run_call_attempt:
  assumes "run_call marshal fingerprint c a l = (r, d, evs, l')"
  shows "run_attempts Acquire release [attempt_of marshal c a] l = ([d], l')"
    and "r = (if accepts marshal c a then Inr () else Inl errAuthFailed)"
proof -
  have pw: "fst (Check c u (string_of_bytes p)) \<longleftrightarrow> Sum256 (bytes_of_string u) = userHash c \<and> Sum256 p = passwordHash c" for u p
    by (simp add: Check_cases)
  have pk: "fst (CheckUsername c u) \<and> fst (Keyset_Check marshal fingerprint ks k) \<longleftrightarrow> Sum256 (bytes_of_string u) = userHash c
     \<and> (case ks of None \<Rightarrow> False | Some s \<Rightarrow> Sum256 (marshal k) \<in> Digest ` set (keys s))" for u ks k
    by (cases ks) (simp_all add: CheckUsername_cases Keyset_Check_cases)
  show "run_attempts Acquire release [attempt_of marshal c a] l = ([d], l')"
  proof (cases a)
    case (PasswordCall t t' meta p)
    with assms have "passwordCallback Acquire release Snapshot (Check c) t t' meta p l = (r, d, evs, l')" by simp
    from auth.password_attempt [OF this] show ?thesis
      unfolding PasswordCall attempt_of.simps accepts.simps pw .
  next
    case (PublickeyCall t t' meta k ks)
    with assms have "publickeyCallback Acquire release Snapshot (CheckUsername c) (Keyset_Check marshal fingerprint ks) t t' meta k l
      = (r, d, evs, l')" by simp
    from auth.publickey_attempt [OF this] show ?thesis
      unfolding PublickeyCall attempt_of.simps accepts.simps pk .
  qed
  show "r = (if accepts marshal c a then Inr () else Inl errAuthFailed)"
  proof (cases a)
    case (PasswordCall t t' meta p)
    have "fst (run_call marshal fingerprint c a l) = (if fst (Check c (meta_User meta) (string_of_bytes p)) then Inr () else Inl errAuthFailed)"
      by (simp add: PasswordCall passwordCallback_def Let_def case_prod_beta)
    then show ?thesis unfolding pw PasswordCall accepts.simps assms [unfolded PasswordCall] by simp
  next
    case (PublickeyCall t t' meta k ks)
    have "fst (run_call marshal fingerprint c a l) =
      (if fst (CheckUsername c (meta_User meta)) \<and> fst (Keyset_Check marshal fingerprint ks k) then Inr () else Inl errAuthFailed)"
      by (simp add: PublickeyCall publickeyCallback_def Let_def case_prod_beta)
    then show ?thesis unfolding pk PublickeyCall accepts.simps assms [unfolded PublickeyCall] by simp
  qed
qed

lemma run_attempts_Cons:
  assumes "run_attempts acq rel [a] l = ([d], l1)"
  shows "run_attempts acq rel (a # as) l = (d # fst (run_attempts acq rel as l1), snd (run_attempts acq rel as l1))"
  using assms by (cases a) (auto simp: Let_def case_prod_beta)

lemma run_calls_attempts:
  assumes "run_calls marshal fingerprint c as l = (rs, ds, evs, l')"
  shows "run_attempts Acquire release (map (attempt_of marshal c) as) l = (ds, l')"
    and "rs = map (\<lambda>a. if accepts marshal c a then Inr () else Inl errAuthFailed) as"
proof -
  have "run_attempts Acquire release (map (attempt_of marshal c) as) l = (ds, l')
    \<and> rs = map (\<lambda>a. if accepts marshal c a then Inr () else Inl errAuthFailed) as"
    using assms
  proof (induction as arbitrary: l rs ds evs)
    case (Cons a as)
    obtain r d e l1 where one: "run_call marshal fingerprint c a l = (r, d, e, l1)" by (metis prod_cases4)
    obtain rs1 ds1 e1 l2 where rest: "run_calls marshal fingerprint c as l1 = (rs1, ds1, e1, l2)" by (metis prod_cases4)
    have "rs = r # rs1" "ds = d # ds1" "l' = l2"
      using Cons.prems by (simp_all add: one rest)
    with Cons.IH [OF rest [folded \<open>l' = l2\<close>]] run_call_attempt [OF one]
      run_attempts_Cons [OF run_call_attempt(1) [OF one]]
    show ?case by simp
  qed simp
  then show "run_attempts Acquire release (map (attempt_of marshal c) as) l = (ds, l')"
    and "rs = map (\<lambda>a. if accepts marshal c a then Inr () else Inl errAuthFailed) as" by blast+
qed

lemma lim_inv_run: "lim_inv l \<Longrightarrow> lim_inv (snd (run_attempts Acquire release as l))"
proof (induction as arbitrary: l)
  case (Cons a as)
  obtain ip t t' ok where a: "a = (ip, t, t', ok)" by (metis prod_cases4)
  obtain d h l1 where acq: "Acquire t ip l = (d, h, l1)" by (metis prod_cases3)
  show ?case
    using Cons.IH [OF lim.cycle_invar [OF Cons.prems acq]] by (simp add: a acq case_prod_beta Let_def)
qed simp

section \<open>Properties\<close>

text \<open>
  C1: Whatever sequence of password and public-key attempts the clients make, from any addresses and at any times, every
  callback succeeds exactly when the digests of the presented username and password (or key) match, and it
  sleeps exactly what the abstract per-address backoff prescribes for that sequence of failures and successes; password and
  public-key attempts share one counter.
\<close>

theorem auth_callbacks_refine_backoff:
  "(case run_calls marshal fingerprint c as New_Limiter of (rs, ds, evs, l) \<Rightarrow>
     rs = map (\<lambda>a. if accepts marshal c a then Inr () else Inl errAuthFailed) as
     \<and> spec_run (map (attempt_of marshal c) as) Map.empty = (ds, abs_lim l))"
proof -
  obtain rs ds evs l where r: "run_calls marshal fingerprint c as New_Limiter = (rs, ds, evs, l)"
    by (metis prod_cases4)
  have "abs_lim New_Limiter = Map.empty"
    by (simp add: abs_lim_def New_Limiter_def)
  with run_refines [OF lim_inv_New, of "map (attempt_of marshal c) as"] run_calls_attempts [OF r] show ?thesis
    by (simp add: r)
qed

text \<open>
  The \<^verbatim>\<open>auth-fail\<close> event of a failed password attempt tells the truth about the future: after any history of attempts, it
  names the number of failures now counted against the client and a delay, and the next attempt from the same address within the idle period
  sleeps exactly that delay, whatever happens from other addresses in between.
\<close>

theorem auth_fail_predicts_delay:
  assumes "run_calls marshal fingerprint c as New_Limiter = (rs, ds, evs, l)"
    and "passwordCallback Acquire release Snapshot check t t' meta pw l = (Inl e, d, logged, l')"
    and "extractIP (meta_RemoteAddr meta) \<noteq> nil_ip" and "t2 - t' \<le> IdleExpiry"
    and "limiter_key (extractIP (meta_RemoteAddr meta2)) = limiter_key (extractIP (meta_RemoteAddr meta))"
    and "list_all (\<lambda>(ip, t, t', ok). limiter_key ip \<noteq> limiter_key (extractIP (meta_RemoteAddr meta))) others"
  shows "\<exists>reason n delay.
    logged = [Log_AuthFail (Addr_String (meta_RemoteAddr meta)) (meta_User meta) ''password'' reason n delay '''']
    \<and> 1 \<le> n \<and> delay = computeDelay n
    \<and> fst (snd (passwordCallback Acquire release Snapshot check2 t2 t2' meta2 pw2
        (snd (run_attempts Acquire release others l')))) = delay"
proof -
  let ?ip = "extractIP (meta_RemoteAddr meta)" and ?k = "limiter_key (extractIP (meta_RemoteAddr meta))"
  have inv: "lim_inv l"
    using lim_inv_run [OF lim_inv_New] run_calls_attempts(1) [OF assms(1)] by (metis snd_conv)
  obtain d' h l1 where acq: "Acquire t ?ip l = (d', h, l1)" by (metis prod_cases3)
  obtain ok reason where chk: "check (meta_User meta) (string_of_bytes pw) = (ok, reason)" by fastforce
  let ?n = "fails_of t l ?k + 1"
  have count: "map_lookup (Snapshot (release t' False h l1)) (normalizeKey ?ip) = ?n"
    using lim.failure_counted [OF inv acq] normalizeKey_limiter_key assms(3) by (simp add: map_lookup_def nil_ip_def)
  have ok: "\<not> ok" and l': "l' = release t' False h l1"
    and logged: "logged = [Log_AuthFail (Addr_String (meta_RemoteAddr meta)) (meta_User meta) ''password'' reason ?n (computeDelay ?n) '''']"
    using assms(2) count by (auto simp: passwordCallback_def Let_def acq chk nextDelay_computeDelay split: if_splits)
  let ?l2 = "snd (run_attempts Acquire release others l')"
  have inv': "lim_inv l'"
    using lim.cycle_invar [OF inv acq] by (simp add: l')
  have "\<forall>(ip, t, t', ok) \<in> set others. limiter_key ip \<noteq> ?k"
    using assms(6) by (simp add: list_all_iff)
  from lim.run_other_keys [OF inv' this] have inv2: "lim_inv ?l2" and same: "fails_of t2 ?l2 ?k = fails_of t2 l' ?k" by blast+
  have "fails_of t2 l' ?k = ?n"
    using lim.fails_failure [OF inv acq, of t2 t'] assms(4) by (simp add: l')
  moreover have "fst (snd (passwordCallback Acquire release Snapshot check2 t2 t2' meta2 pw2 ?l2)) =
      fst (Acquire t2 (extractIP (meta_RemoteAddr meta2)) ?l2)"
    by (simp add: passwordCallback_def Let_def case_prod_beta)
  moreover have "fst (Acquire t2 (extractIP (meta_RemoteAddr meta2)) ?l2) = computeDelay (fails_of t2 ?l2 ?k)"
    using lim.acquire_delay [OF inv2] assms(5) by (metis fst_conv prod_cases3)
  moreover have "1 \<le> ?n" using lim.fails_nonneg [OF inv] by simp
  ultimately show ?thesis using logged same by metis
qed

definition sample_meta :: "IP \<Rightarrow> ConnMetadata" where
  "sample_meta ip = \<lparr> meta_User = ''root'', meta_RemoteAddr = TCPAddr ip 40000 '''' \<rparr>"

theorem auth_fail_predicts_delay_witness:
  "\<exists>logged l' reason n delay.
     passwordCallback Acquire release Snapshot (\<lambda>_ _. (False, ReasonBadUser)) 5 6 (sample_meta [10, 0, 0, 5]) [] New_Limiter
       = (Inl errAuthFailed, 0, logged, l')
     \<and> logged = [Log_AuthFail (Addr_String (TCPAddr [10, 0, 0, 5] 40000 '''')) ''root'' ''password'' reason n delay '''']
     \<and> fst (snd (passwordCallback Acquire release Snapshot (\<lambda>_ _. (False, ReasonBadUser)) 7 8
         (sample_meta (v4_in_v6 [10, 0, 0, 5])) [] l')) = delay"
proof -
  have c: "run_calls (\<lambda>_ :: unit. []) (\<lambda>_. '''') (NewCredentials '''' '''') [] New_Limiter = ([], [], [], New_Limiter)" by simp
  obtain r d logged l' where one: "passwordCallback Acquire release Snapshot (\<lambda>_ _. (False, ReasonBadUser)) 5 6 (sample_meta [10, 0, 0, 5]) [] New_Limiter
       = (r, d, logged, l')" by (metis prod_cases4)
  have "r = Inl errAuthFailed"
    using one by (auto simp: passwordCallback_def Let_def split: prod.splits)
  moreover have "d = 0"
  proof -
    have "d = fst (Acquire 5 [10, 0, 0, 5] New_Limiter)"
      using one by (auto simp: passwordCallback_def Let_def sample_meta_def extractIP_def split: prod.splits)
    also have "\<dots> = computeDelay (fails_of 5 New_Limiter (limiter_key [10, 0, 0, 5]))"
      using lim.acquire_delay [OF lim_inv_New] by (metis fst_conv prod_cases3)
    also have "\<dots> = 0" by (simp add: fails_of_def New_Limiter_def computeDelay_def)
    finally show ?thesis .
  qed
  moreover have "limiter_key (v4_in_v6 [10, 0, 0, 5]) = limiter_key [10, 0, 0, 5]"
    by (simp add: limiter_key_def normalize_def To4_def v4_in_v6_def numeral_eq_Suc)
  ultimately have one': "passwordCallback Acquire release Snapshot (\<lambda>_ _. (False, ReasonBadUser)) 5 6 (sample_meta [10, 0, 0, 5]) [] New_Limiter
       = (Inl errAuthFailed, 0, logged, l')"
    and same: "limiter_key (extractIP (meta_RemoteAddr (sample_meta (v4_in_v6 [10, 0, 0, 5])))) =
      limiter_key (extractIP (meta_RemoteAddr (sample_meta [10, 0, 0, 5])))"
    using one by (simp_all add: sample_meta_def extractIP_def)
  have ip: "extractIP (meta_RemoteAddr (sample_meta [10, 0, 0, 5])) \<noteq> nil_ip" and t: "(7 :: int) - 6 \<le> IdleExpiry"
    by (simp_all add: sample_meta_def extractIP_def nil_ip_def IdleExpiry_def Second_def)
  from auth_fail_predicts_delay [OF c one' ip t same, of "[]" "\<lambda>_ _. (False, ReasonBadUser)" 8 "[]"]
  obtain reason n delay where "logged = [Log_AuthFail (Addr_String (TCPAddr [10, 0, 0, 5] 40000 '''')) ''root'' ''password'' reason n delay '''']"
    and "fst (snd (passwordCallback Acquire release Snapshot (\<lambda>_ _. (False, ReasonBadUser)) 7 8
         (sample_meta (v4_in_v6 [10, 0, 0, 5])) [] l')) = delay"
    by (auto simp: sample_meta_def)
  with one' show ?thesis by blast
qed

end
