(* ===== verification/ServerConfig.thy ===== *)
theory ServerConfig
  imports ServerAuth Session
begin

text \<open>
  \<^verbatim>\<open>internal/server/config.go\<close> and the constructors of \<^verbatim>\<open>server.go\<close>: the server's configuration, \<^verbatim>\<open>New\<close>, the
  configuration handed to the SSH library, and the classification of handshake errors. The signer of
  the host key has a type of its own, since the SSH library makes it.
\<close>

section \<open>Configuration\<close>

definition ServerVersion :: string where "ServerVersion = ''SSH-2.0-minisshd''"

definition MaxAuthTries :: int where "MaxAuthTries = 6"

text \<open>A sleeper maps the requested duration to the time that passes.\<close>

type_synonym sleeper = "nanos \<Rightarrow> nanos"

definition time_Sleep :: sleeper where "time_Sleep d = max d 0"

record 's Config =
  cfg_Listener :: string
  cfg_HostKey :: 's
  cfg_Credentials :: Credentials
  cfg_Limiter :: Limiter
  cfg_SessionService :: Service
  cfg_Log :: Logger
  cfg_Methods :: Methods
  cfg_KeysetSource :: "KeysetSource option"
  cfg_ForwardMax :: int
  cfg_Sleep :: "sleeper option"
  cfg_DrainTimeout :: nanos

record 's Server =
  sv_cfg :: "'s Config"
  sv_limiter :: Limiter
  sv_creds :: Credentials
  sv_session :: Service
  sv_sleep :: sleeper

definition New_Server :: "'s Config \<Rightarrow> 's Server" where
  "New_Server cfg =
     \<lparr> sv_cfg = cfg, sv_limiter = cfg_Limiter cfg, sv_creds = cfg_Credentials cfg,
       sv_session = cfg_SessionService cfg,
       sv_sleep = (case cfg_Sleep cfg of None \<Rightarrow> time_Sleep | Some f \<Rightarrow> f) \<rparr>"

definition newWithDeps :: "'s Config \<Rightarrow> Service \<Rightarrow> 's Server" where
  "newWithDeps cfg session = (New_Server cfg)\<lparr>sv_session := session\<rparr>"

section \<open>The configuration of the SSH library\<close>

text \<open>
  A callback of the library, with the two clock readings it makes, from one limiter state to the next. The public-key callback reads the
  keyset that is current when it is called, so it also takes the state of the source. The duration it reports is put through the sleeper.
\<close>

type_synonym password_cb = "nanos \<Rightarrow> nanos \<Rightarrow> ConnMetadata \<Rightarrow> bytes \<Rightarrow> Limiter \<Rightarrow> Limiter callback_result"
type_synonym 'k publickey_cb =
  "KeysetSource \<Rightarrow> nanos \<Rightarrow> nanos \<Rightarrow> ConnMetadata \<Rightarrow> 'k \<Rightarrow> Limiter \<Rightarrow> Limiter callback_result"

definition slept :: "sleeper \<Rightarrow> 'l callback_result \<Rightarrow> 'l callback_result" where
  "slept sleep r = (case r of (res, d, evs, l) \<Rightarrow> (res, sleep d, evs, l))"

record ('s, 'k) ssh_ServerConfig =
  sc_NoClientAuth :: bool
  sc_MaxAuthTries :: int
  sc_ServerVersion :: string
  sc_PasswordCallback :: "password_cb option"
  sc_PublicKeyCallback :: "'k publickey_cb option"
  sc_hostKeys :: "'s list"

definition newServerConfig ::
  "('k \<Rightarrow> bytes) \<Rightarrow> ('k \<Rightarrow> string) \<Rightarrow> 's Server \<Rightarrow> ('s, 'k) ssh_ServerConfig" where
  "newServerConfig marshal fingerprint s =
     (let methods = (if length (cfg_Methods (sv_cfg s)) = 0 then [MethodPassword] else cfg_Methods (sv_cfg s));
          cfg = \<lparr> sc_NoClientAuth = False, sc_MaxAuthTries = MaxAuthTries, sc_ServerVersion = ServerVersion,
                  sc_PasswordCallback = None, sc_PublicKeyCallback = None, sc_hostKeys = [] \<rparr>;
          cfg = (if Contains methods MethodPassword
                 then cfg\<lparr>sc_PasswordCallback := Some (\<lambda>t t' meta pw l.
                   slept (sv_sleep s) (passwordCallback Acquire release Snapshot (Check (sv_creds s)) t t' meta pw l))\<rparr>
                 else cfg);
          cfg = (if Contains methods MethodPublickey \<and> cfg_KeysetSource (sv_cfg s) \<noteq> None
                 then cfg\<lparr>sc_PublicKeyCallback := Some (\<lambda>src t t' meta k l.
                   slept (sv_sleep s) (publickeyCallback Acquire release Snapshot (CheckUsername (sv_creds s))
                     (Keyset_Check marshal fingerprint (Current src)) t t' meta k l))\<rparr>
                 else cfg)
      in cfg\<lparr>sc_hostKeys := sc_hostKeys cfg @ [cfg_HostKey (sv_cfg s)]\<rparr>)"

section \<open>Handshake errors\<close>

text \<open>A handshake error is an authentication error of the library, possibly wrapped, or another error; either has a message.\<close>

datatype handshake_error = ServerAuthError string | OtherHandshakeError string

fun handshake_message :: "handshake_error \<Rightarrow> string" where
  "handshake_message (ServerAuthError m) = m"
| "handshake_message (OtherHandshakeError m) = m"

definition isExpectedHandshakeError :: "handshake_error option \<Rightarrow> bool" where
  "isExpectedHandshakeError err =
     (case err of
        None \<Rightarrow> True
      | Some (ServerAuthError _) \<Rightarrow> True
      | Some (OtherHandshakeError msg) \<Rightarrow> msg = ''EOF'' \<or> msg = ''unexpected EOF'')"

section \<open>Lemmas\<close>

text \<open>Which methods the library offers.\<close>

lemma newServerConfig_methods:
  fixes s :: "'s Server" and marshal :: "'k \<Rightarrow> bytes" and fingerprint :: "'k \<Rightarrow> string"
  defines "sc \<equiv> newServerConfig marshal fingerprint s"
  defines "ms \<equiv> (if cfg_Methods (sv_cfg s) = [] then {MethodPassword} else set (cfg_Methods (sv_cfg s)))"
  shows "sc_PasswordCallback sc \<noteq> None \<longleftrightarrow> MethodPassword \<in> ms"
    and "sc_PublicKeyCallback sc \<noteq> None \<longleftrightarrow> MethodPublickey \<in> ms \<and> cfg_KeysetSource (sv_cfg s) \<noteq> None"
    and "\<not> sc_NoClientAuth sc" and "sc_hostKeys sc = [cfg_HostKey (sv_cfg s)]" and "sc_MaxAuthTries sc = 6"
  by (auto simp: sc_def ms_def newServerConfig_def Let_def MaxAuthTries_def)

section \<open>A key query counts as a success\<close>

text \<open>
  C36: The public-key callback gets a key and no signature: the SSH library also calls it for a query that only asks whether a key would be
  accepted. The callback that the server installs nevertheless treats an accepted key as a successful login: it logs auth-ok and
  clears the failures of the address, so the next attempt from there waits for nothing. Who knows a username and an authorized
  public key can thus undo the backoff without holding the private key.\<close>
theorem key_query_resets_backoff:
  assumes "lim_inv l" and "sc_PublicKeyCallback (newServerConfig marshal fingerprint s) = Some cb"
    and "cb src t t' meta k l = (Inr (), d, evs, l')"
  shows "fst (Acquire t'' (extractIP (meta_RemoteAddr meta)) l') = 0 \<and>
    evs = [Log_AuthOK (Addr_String (meta_RemoteAddr meta)) (meta_User meta) ''publickey'' (fingerprint k)]"
proof -
  let ?ip = "extractIP (meta_RemoteAddr meta)"
  from assms(2) have "cb = (\<lambda>src t t' meta k l. slept (sv_sleep s) (publickeyCallback Acquire release Snapshot
      (CheckUsername (sv_creds s)) (Keyset_Check marshal fingerprint (Current src)) t t' meta k l))"
    by (auto simp: newServerConfig_def Let_def split: if_splits)
  with assms(3) obtain d0 where cb: "publickeyCallback Acquire release Snapshot (CheckUsername (sv_creds s))
      (Keyset_Check marshal fingerprint (Current src)) t t' meta k l = (Inr (), d0, evs, l')"
    by (auto simp: slept_def split: prod.splits)
  obtain d1 h l1 where acq: "Acquire t ?ip l = (d1, h, l1)" by (metis prod_cases3)
  have fp: "snd (snd (Keyset_Check marshal fingerprint (Current src) k)) = fingerprint k"
    by (simp add: Keyset_Check_def Let_def)
  with cb acq have l': "l' = release t' True h l1"
    and ev: "evs = [Log_AuthOK (Addr_String (meta_RemoteAddr meta)) (meta_User meta) ''publickey'' (fingerprint k)]"
    by (auto simp: publickeyCallback_def Let_def errAuthFailed_def split: prod.splits if_splits)
  obtain d2 h2 l2 where acq2: "Acquire t'' ?ip l' = (d2, h2, l2)" by (metis prod_cases3)
  have "lim_inv l'" using lim.cycle_invar [OF assms(1) acq] l' by simp
  from lim.acquire_delay [OF this acq2] lim.fails_success [OF assms(1) acq] l' have "d2 = 0" by simp
  with acq2 ev show ?thesis by simp
qed

definition sample_server :: "nat Server" where
  "sample_server = New_Server \<lparr> cfg_Listener = '''', cfg_HostKey = 0, cfg_Credentials = NewCredentials ''root'' ''pw'',
     cfg_Limiter = New_Limiter, cfg_SessionService = \<lparr> Shell = '''', hostEnv = [], os_PATH = '''', os_executable = (\<lambda>_. False), os_look_text = (\<lambda>_ n. n) \<rparr>, cfg_Log = New_Logger ''pw'' 0,
     cfg_Methods = [MethodPublickey], cfg_KeysetSource = Some (NewKeysetSource ''f''), cfg_ForwardMax = 0, cfg_Sleep = None, cfg_DrainTimeout = 0 \<rparr>"

theorem key_query_resets_backoff_witness:
  "\<exists>cb evs d l'. sc_PublicKeyCallback (newServerConfig (\<lambda>k. k) string_of_bytes sample_server) = Some cb \<and>
     cb (\<lparr> path = ''f'', cur = Some \<lparr> keys = [accept (\<lambda>k. k) string_of_bytes [1] ''''] \<rparr> \<rparr>) 0 1 (sample_meta [10, 0, 0, 5]) [1] New_Limiter
       = (Inr (), d, evs, l') \<and> fst (Acquire 2 [10, 0, 0, 5] l') = 0"
proof -
  let ?src = "\<lparr> path = ''f'', cur = Some \<lparr> keys = [accept (\<lambda>k. k) string_of_bytes [1] ''''] \<rparr> \<rparr>"
  obtain cb where cb: "sc_PublicKeyCallback (newServerConfig (\<lambda>k. k) string_of_bytes sample_server) = Some cb"
    by (auto simp: newServerConfig_def Let_def sample_server_def New_Server_def)
  have chk: "fst (Keyset_Check (\<lambda>k. k) string_of_bytes (Current ?src) [1])"
    by (simp add: Keyset_Check_cases Current_def accept_def Let_def)
  have usr: "fst (CheckUsername (sv_creds sample_server) ''root'')"
    by (simp add: CheckUsername_cases sample_server_def New_Server_def NewCredentials_def)
  have "\<exists>d evs l'. cb ?src 0 1 (sample_meta [10, 0, 0, 5]) [1] New_Limiter = (Inr (), d, evs, l')"
    using cb chk usr
    by (auto simp: newServerConfig_def Let_def sample_server_def New_Server_def slept_def publickeyCallback_def sample_meta_def split: prod.splits)
  then obtain d evs l' where r: "cb ?src 0 1 (sample_meta [10, 0, 0, 5]) [1] New_Limiter = (Inr (), d, evs, l')" by blast
  from key_query_resets_backoff [OF lim_inv_New cb r, of 2] r cb show ?thesis
    by (auto simp: sample_meta_def extractIP_def)
qed

end
