(* ===== verification/Flags.thy ===== *)
theory Flags
  imports Prelude
begin

text \<open>
  Command-line parsing as \<^verbatim>\<open>cmd/minisshd/main.go\<close> sets it up: the flag set with its ten flags, \<^verbatim>\<open>fs.Parse\<close> of the
  \<^verbatim>\<open>flag\<close> package on them, and the number parsers of \<^verbatim>\<open>strconv\<close> that flags and environment go through.
\<close>

section \<open>\<^verbatim>\<open>strconv\<close>\<close>

definition max_int64 :: int where "max_int64 = 2 ^ 63 - 1"

definition min_int64 :: int where "min_int64 = - (2 ^ 63)"

definition lower :: "char \<Rightarrow> char" where
  "lower c = (let n = of_char c in char_of (if 65 \<le> n \<and> n \<le> (90 :: nat) then n + 32 else n))"

definition digit_of :: "char \<Rightarrow> nat option" where
  "digit_of c =
     (let n = of_char c :: nat; l = of_char (lower c) :: nat in
      if 48 \<le> n \<and> n \<le> 57 then Some (n - 48)
      else if 97 \<le> l \<and> l \<le> 122 then Some (l - 97 + 10)
      else None)"

text \<open>The digit loop of \<^verbatim>\<open>ParseUint\<close>; an underscore is skipped when the base is taken from the text.\<close>

fun parse_digits :: "bool \<Rightarrow> nat \<Rightarrow> nat \<Rightarrow> string \<Rightarrow> nat option" where
  "parse_digits base0 base n [] = Some n"
| "parse_digits base0 base n (c # s) =
     (if c = CHR ''_'' \<and> base0 then parse_digits base0 base n s
      else (case digit_of c of
          None \<Rightarrow> None
        | Some d \<Rightarrow>
            if d \<ge> base then None
            else if n * base + d \<ge> 2 ^ 64 then None
            else parse_digits base0 base (n * base + d) s))"

text \<open>\<open>prev\<close> is \<^verbatim>\<open>^\<close> at the start, \<^verbatim>\<open>0\<close> after a digit or base prefix, \<^verbatim>\<open>_\<close> after an underscore, \<^verbatim>\<open>!\<close> otherwise.\<close>

fun underscore_loop :: "bool \<Rightarrow> char \<Rightarrow> string \<Rightarrow> bool" where
  "underscore_loop hex prev [] \<longleftrightarrow> prev \<noteq> CHR ''_''"
| "underscore_loop hex prev (c # s) \<longleftrightarrow>
     (let n = of_char c :: nat; l = of_char (lower c) :: nat in
      if 48 \<le> n \<and> n \<le> 57 \<or> hex \<and> 97 \<le> l \<and> l \<le> 102 then underscore_loop hex (CHR ''0'') s
      else if c = CHR ''_'' then (if prev \<noteq> CHR ''0'' then False else underscore_loop hex (CHR ''_'') s)
      else (if prev = CHR ''_'' then False else underscore_loop hex (CHR ''!'') s))"

definition underscoreOK :: "string \<Rightarrow> bool" where
  "underscoreOK s =
     (case s of
        CHR ''0'' # c # r \<Rightarrow>
          if lower c \<in> {CHR ''b'', CHR ''o'', CHR ''x''} then underscore_loop (lower c = CHR ''x'') (CHR ''0'') r
          else underscore_loop False (CHR ''^'') s
      | _ \<Rightarrow> underscore_loop False (CHR ''^'') s)"

definition ParseUint0 :: "string \<Rightarrow> nat option" where
  "ParseUint0 s =
     (if s = '''' then None
      else let (base, r) =
          (if hd s \<noteq> CHR ''0'' then (10, s)
           else if length s \<ge> 3 \<and> lower (s ! 1) = CHR ''b'' then (2, drop 2 s)
           else if length s \<ge> 3 \<and> lower (s ! 1) = CHR ''o'' then (8, drop 2 s)
           else if length s \<ge> 3 \<and> lower (s ! 1) = CHR ''x'' then (16, drop 2 s)
           else (8, drop 1 s))
        in (case parse_digits True base 0 r of
              None \<Rightarrow> None
            | Some n \<Rightarrow> if CHR ''_'' \<in> set r \<and> \<not> underscoreOK s then None else Some n))"

definition signed64 :: "(string \<Rightarrow> nat option) \<Rightarrow> string \<Rightarrow> int option" where
  "signed64 parse s =
     (if s = '''' then None
      else let neg = (hd s = CHR ''-''); r = (if hd s = CHR ''+'' \<or> hd s = CHR ''-'' then tl s else s)
        in (case parse r of
              None \<Rightarrow> None
            | Some n \<Rightarrow>
                if \<not> neg \<and> int n > max_int64 then None
                else if neg \<and> - int n < min_int64 then None
                else Some (if neg then - int n else int n)))"

text \<open>\<^verbatim>\<open>strconv.ParseInt(s, 0, 64)\<close> and \<^verbatim>\<open>strconv.Atoi(s)\<close>.\<close>

definition ParseInt0 :: "string \<Rightarrow> int option" where
  "ParseInt0 s = signed64 ParseUint0 s"

definition Atoi :: "string \<Rightarrow> int option" where
  "Atoi s = signed64 (\<lambda>r. if r = '''' then None else parse_digits False 10 0 r) s"

section \<open>The flag set\<close>

record flags =
  fl_port :: int
  fl_bind :: string
  fl_pass :: string
  fl_user :: string
  fl_shell :: string
  fl_hostKey :: string
  fl_logFormat :: string
  fl_auth :: string
  fl_authorizedKeys :: string
  fl_forwardMax :: int
  fl_actual :: "string list"

definition default_flags :: flags where
  "default_flags = \<lparr> fl_port = 2222, fl_bind = ''0.0.0.0'', fl_pass = '''', fl_user = '''', fl_shell = '''',
     fl_hostKey = '''', fl_logFormat = '''', fl_auth = '''', fl_authorizedKeys = '''', fl_forwardMax = -1, fl_actual = [] \<rparr>"

datatype flag_error =
    BadSyntax string
  | NotDefined string
  | ErrHelp
  | NeedsArgument string
  | InvalidValue string string

text \<open>\<^verbatim>\<open>flag.Value.Set\<close> on the flag of a given name; an unknown name is \<open>None\<close>.\<close>

definition set_flag :: "string \<Rightarrow> string \<Rightarrow> flags \<Rightarrow> flags option option" where
  "set_flag name v f =
     (if name = ''port'' then Some (map_option (\<lambda>n. f\<lparr>fl_port := n\<rparr>) (ParseInt0 v))
      else if name = ''bind'' then Some (Some (f\<lparr>fl_bind := v\<rparr>))
      else if name = ''pass'' then Some (Some (f\<lparr>fl_pass := v\<rparr>))
      else if name = ''user'' then Some (Some (f\<lparr>fl_user := v\<rparr>))
      else if name = ''shell'' then Some (Some (f\<lparr>fl_shell := v\<rparr>))
      else if name = ''host-key'' then Some (Some (f\<lparr>fl_hostKey := v\<rparr>))
      else if name = ''log-format'' then Some (Some (f\<lparr>fl_logFormat := v\<rparr>))
      else if name = ''auth'' then Some (Some (f\<lparr>fl_auth := v\<rparr>))
      else if name = ''authorized-keys'' then Some (Some (f\<lparr>fl_authorizedKeys := v\<rparr>))
      else if name = ''forward-max'' then Some (map_option (\<lambda>n. f\<lparr>fl_forwardMax := n\<rparr>) (ParseInt0 v))
      else None)"

definition flag_names :: "string list" where
  "flag_names = [''port'', ''bind'', ''pass'', ''user'', ''shell'', ''host-key'', ''log-format'', ''auth'', ''authorized-keys'', ''forward-max'']"

text \<open>The name of an argument and the value after its first equals sign, which cannot be the first character.\<close>

definition split_name :: "string \<Rightarrow> string \<times> string option" where
  "split_name n =
     (let t = takeWhile (\<lambda>c. c \<noteq> CHR ''='') (tl n)
      in if length t = length (tl n) then (n, None)
         else (hd n # t, Some (drop (length t + 1) (tl n))))"

definition record_flag :: "string \<Rightarrow> flags \<Rightarrow> flags" where
  "record_flag name f = f\<lparr>fl_actual := name # fl_actual f\<rparr>"

definition apply_flag :: "string \<Rightarrow> string \<Rightarrow> flags \<Rightarrow> flag_error + flags" where
  "apply_flag name v f =
     (case set_flag name v f of
        None \<Rightarrow> Inl (NotDefined name)
      | Some None \<Rightarrow> Inl (InvalidValue name v)
      | Some (Some f') \<Rightarrow> Inr (record_flag name f'))"

text \<open>\<^verbatim>\<open>fs.Parse\<close>; the arguments left over when it stops are not used by the program.\<close>

function flag_Parse :: "string list \<Rightarrow> flags \<Rightarrow> flag_error + flags" where
  "flag_Parse [] f = Inr f"
| "flag_Parse (s # args) f =
     (if length s < 2 \<or> hd s \<noteq> CHR ''-'' then Inr f
      else if s = ''--'' then Inr f
      else
        let n = (if s ! 1 = CHR ''-'' then drop 2 s else drop 1 s)
        in if n = '''' \<or> hd n = CHR ''-'' \<or> hd n = CHR ''='' then Inl (BadSyntax s)
           else
             let (name, value) = split_name n
             in if name \<notin> set flag_names then
                  Inl (if name = ''help'' \<or> name = ''h'' then ErrHelp else NotDefined name)
                else (case value of
                    Some v \<Rightarrow> (case apply_flag name v f of Inl e \<Rightarrow> Inl e | Inr f' \<Rightarrow> flag_Parse args f')
                  | None \<Rightarrow> (case args of
                        [] \<Rightarrow> Inl (NeedsArgument name)
                      | v # rest \<Rightarrow> (case apply_flag name v f of Inl e \<Rightarrow> Inl e | Inr f' \<Rightarrow> flag_Parse rest f'))))"
  by pat_completeness auto
termination
  by (relation "measure (\<lambda>(args, _). length args)") auto

declare flag_Parse.simps [simp del]

text \<open>\<^verbatim>\<open>fs.Visit\<close> reports the flags that were set.\<close>

definition is_set :: "flags \<Rightarrow> string \<Rightarrow> bool" where
  "is_set f name \<longleftrightarrow> name \<in> set (fl_actual f)"

section \<open>Lemmas\<close>

lemma split_name_eq:
  assumes "n \<noteq> ''''" and "CHR ''='' \<notin> set n"
  shows "split_name (n @ CHR ''='' # v) = (n, Some v)"
proof -
  obtain c m where n: "n = c # m" using assms(1) by (cases n) auto
  have "takeWhile (\<lambda>c. c \<noteq> CHR ''='') (m @ CHR ''='' # v) = m"
    using assms(2) by (simp add: n takeWhile_append)
  then show ?thesis by (simp add: split_name_def n Let_def)
qed

definition render_flag :: "string \<times> string \<Rightarrow> string" where
  "render_flag nv = ''--'' @ fst nv @ ''='' @ snd nv"

fun apply_all :: "(string \<times> string) list \<Rightarrow> flags \<Rightarrow> flag_error + flags" where
  "apply_all [] f = Inr f"
| "apply_all ((n, v) # xs) f = (case apply_flag n v f of Inl e \<Rightarrow> Inl e | Inr f' \<Rightarrow> apply_all xs f')"

lemma flag_name_shape:
  assumes "n \<in> set flag_names"
  shows "n \<noteq> '''' \<and> CHR ''='' \<notin> set n \<and> hd n \<noteq> CHR ''-'' \<and> hd n \<noteq> CHR ''='' "
  using assms by (auto simp: flag_names_def)

text \<open>Arguments written with two dashes and an equals sign are applied one after the other.\<close>

lemma flag_Parse_render:
  assumes "\<forall>nv \<in> set xs. fst nv \<in> set flag_names"
  shows "flag_Parse (map render_flag xs) f = apply_all xs f"
  using assms
proof (induction xs arbitrary: f)
  case Nil
  show ?case by (simp add: flag_Parse.simps)
next
  case (Cons nv xs)
  obtain n v where nv: "nv = (n, v)" by (cases nv)
  from Cons.prems have nm: "n \<in> set flag_names" by (simp add: nv)
  from flag_name_shape [OF this] have sh: "n \<noteq> ''''" "CHR ''='' \<notin> set n" "hd n \<noteq> CHR ''-''" "hd n \<noteq> CHR ''=''"
    by blast+
  from sh(1) obtain c m where n: "n = c # m" by (cases n) auto
  have "flag_Parse (render_flag nv # map render_flag xs) f =
      (case apply_flag n v f of Inl e \<Rightarrow> Inl e | Inr f' \<Rightarrow> flag_Parse (map render_flag xs) f')"
    using nm sh split_name_eq [OF sh(1,2), of v]
    by (simp add: flag_Parse.simps(2) render_flag_def nv n)
  with Cons show ?case by (simp add: nv split: sum.split)
qed

section \<open>Decimal numbers\<close>

lemma digit_of_digit_char [simp]: "d < 10 \<Longrightarrow> digit_of (digit_char d) = Some d"
  by (simp add: digit_of_def Let_def)

lemma digit_char_not_underscore: "digit_char d \<noteq> CHR ''_''"
proof
  assume "digit_char d = CHR ''_''"
  then have "of_char (digit_char d) = (of_char (CHR ''_'') :: nat)" by simp
  then have "48 + d mod 10 = (95 :: nat)" by (simp only: of_char_digit_char) simp
  moreover have "d mod 10 < 10" by simp
  ultimately show False by linarith
qed

lemma parse_digits_append:
  "parse_digits b base n (s @ t) = (case parse_digits b base n s of None \<Rightarrow> None | Some k \<Rightarrow> parse_digits b base k t)"
  by (induction s arbitrary: n) (auto split: option.split)

lemma parse_digits_show_nat: "n < 2 ^ 64 \<Longrightarrow> parse_digits False 10 0 (show_nat n) = Some n"
proof (induction n rule: show_nat.induct)
  case (1 n)
  show ?case
  proof (cases "n < 10")
    case True
    then show ?thesis by (simp add: show_nat.simps [of n])
  next
    case False
    with 1 have "parse_digits False 10 0 (show_nat (n div 10)) = Some (n div 10)" by simp
    with False "1.prems" show ?thesis
      by (simp add: show_nat.simps [of n] parse_digits_append mult.commute)
  qed
qed

lemma show_nat_hd: "hd (show_nat n) \<noteq> CHR ''-'' \<and> hd (show_nat n) \<noteq> CHR ''+''"
proof -
  have "hd (show_nat n) \<in> set (show_nat n)" by simp
  from show_nat_digits [OF this] show ?thesis by auto
qed

lemma Atoi_show_int:
  assumes "min_int64 \<le> i" and "i \<le> max_int64"
  shows "Atoi (show_int i) = Some i"
proof (cases "i < 0")
  case True
  with assms have "nat (- i) < 2 ^ 64" by (simp add: min_int64_def)
  with True assms show ?thesis
    by (simp add: Atoi_def signed64_def show_int_def parse_digits_show_nat Let_def)
next
  case False
  with assms have "nat i < 2 ^ 64" by (simp add: max_int64_def)
  with False assms show_nat_hd [of "nat i"] show ?thesis
    by (simp add: Atoi_def signed64_def show_int_def parse_digits_show_nat Let_def)
qed

end
