(* ===== verification/Startup.thy ===== *)
theory Startup
  imports ServerConfig Flags Hostkey LoggingProps
begin

text \<open>
  \<^verbatim>\<open>cmd/minisshd/main.go\<close>: the start-up sequence of \<^verbatim>\<open>run\<close>, from the arguments to the exit code. The record \<open>world\<close>
  holds everything the sequence asks of its surroundings: the environment, the account, the file
  system, the key library, the listener, the random source, the authorized-keys file and the result of
  the accept loop. A refusal is an exit code with the message as a value; the texts printed
  for it are not spelled out. The stages are \<open>resolve_settings\<close>, \<open>prepare_files\<close>, \<open>bind_listener\<close>,
  \<open>choose_password\<close>, \<open>load_keys\<close> and the rest of \<open>run\<close>, in the order of the code.

  The goroutine that reloads the keys on SIGHUP, and the signals of \<^verbatim>\<open>main\<close>, are modelled in \<open>Signals\<close>.
\<close>

section \<open>Exit codes and messages\<close>

definition exitOK :: int where "exitOK = 0"
definition exitInternalError :: int where "exitInternalError = 1"
definition exitBadConfig :: int where "exitBadConfig = 2"
definition exitBindFailure :: int where "exitBindFailure = 3"
definition exitFSFailure :: int where "exitFSFailure = 4"

lemmas exit_codes = exitOK_def exitInternalError_def exitBadConfig_def exitBindFailure_def exitFSFailure_def

datatype listen_error = EADDRINUSE | EADDRNOTAVAIL | ListenOther string

datatype startup_msg =
    FlagError flag_error
  | PortOutOfRange int
  | ForwardMaxOutOfRange int
  | ForwardMaxInvalid string
  | AuthSetting auth_error
  | BadLogFormat string
  | ShellUnresolved string string
  | ShellStat string string
  | ShellNotRegular string string
  | ShellNotExecutable string string
  | NoHomeDir string
  | DirStat string string
  | DirCreate string string
  | DirChmod string string
  | NotADirectory string
  | DirTooOpen string perm
  | HostKeyError string hostkey_error
  | BadBind string
  | ListenFailed string listen_error
  | PasswordFailed string
  | SentinelFailed string
  | KeysLoadFailed string file_error
  | NoUsableKeys

section \<open>The surroundings\<close>

record ('p, 's, 'k) world =
  w_environ :: "string list"
  w_user :: "string + string"
  w_eval :: "string \<Rightarrow> string + string"
  w_os :: os_faults
  w_fs :: fs
  w_keylib :: "('p, 's) key_lib"
  w_listen :: "string \<Rightarrow> listen_error + int"
  w_random :: bytes
  w_sentinel :: "string + bytes"
  w_open :: "string \<Rightarrow> file_read"
  w_parseAK :: "'k ak_parser"
  w_marshal :: "'k \<Rightarrow> bytes"
  w_fingerprint :: "'k \<Rightarrow> string"
  w_pid :: int
  w_clock :: "nat \<Rightarrow> civil"
  w_float_secs :: "nanos \<Rightarrow> string"
  w_executable :: "string \<Rightarrow> bool"
  w_look_text :: "look_error \<Rightarrow> string \<Rightarrow> string"
  w_serve :: "string option"

text \<open>
  \<^verbatim>\<open>os.LookupEnv\<close>, \<^verbatim>\<open>os.Getenv\<close> and \<^verbatim>\<open>os.Environ\<close>: the first entry of a name counts, later ones disappear.
\<close>

definition env_entry :: "string \<Rightarrow> (string \<times> string) option" where
  "env_entry s =
     (let k = takeWhile (\<lambda>c. c \<noteq> CHR ''='') s
      in if length k < length s then Some (k, drop (length k + 1) s) else None)"

definition LookupEnv :: "('p, 's, 'k) world \<Rightarrow> string \<Rightarrow> string option" where
  "LookupEnv w n = (if n = '''' then None else map_of (List.map_filter env_entry (w_environ w)) n)"

definition Getenv :: "('p, 's, 'k) world \<Rightarrow> string \<Rightarrow> string" where
  "Getenv w n = (case LookupEnv w n of Some v \<Rightarrow> v | None \<Rightarrow> '''')"

abbreviation env_isset :: "('p, 's, 'k) world \<Rightarrow> string \<Rightarrow> bool" where
  "env_isset w n \<equiv> LookupEnv w n \<noteq> None"

fun first_entries :: "string list \<Rightarrow> string list \<Rightarrow> string list" where
  "first_entries seen [] = []"
| "first_entries seen (s # ss) =
     (case env_entry s of
        None \<Rightarrow> (if s = '''' then [] else [s]) @ first_entries seen ss
      | Some (k, _) \<Rightarrow> if k \<in> set seen then first_entries seen ss else s # first_entries (k # seen) ss)"

definition Environ :: "('p, 's, 'k) world \<Rightarrow> string list" where
  "Environ w = first_entries [] (w_environ w)"

section \<open>Validation helpers\<close>

definition resolveForwardMax :: "int \<Rightarrow> bool \<Rightarrow> string \<Rightarrow> startup_msg + int" where
  "resolveForwardMax flagValue flagSet envVal =
     (if flagSet then
        if flagValue < 0 then Inl (ForwardMaxOutOfRange flagValue) else Inr flagValue
      else if envVal \<noteq> '''' then
        (case Atoi envVal of
           None \<Rightarrow> Inl (ForwardMaxInvalid envVal)
         | Some n \<Rightarrow> if n < 0 then Inl (ForwardMaxInvalid envVal) else Inr n)
      else Inr 32)"

definition validateShell :: "(string \<Rightarrow> string + string) \<Rightarrow> os_faults \<Rightarrow> fs \<Rightarrow> string \<Rightarrow> startup_msg option" where
  "validateShell eval os fs p =
     (case eval p of
        Inl err \<Rightarrow> Some (ShellUnresolved p err)
      | Inr resolved \<Rightarrow>
          (case os_Stat os fs resolved of
             StatNotExist \<Rightarrow> Some (ShellStat p resolved)
           | StatErr e \<Rightarrow> Some (ShellStat p resolved)
           | StatOk (File d m) \<Rightarrow> if m AND 0x49 = 0 then Some (ShellNotExecutable p resolved) else None
           | StatOk (Dir m) \<Rightarrow> Some (ShellNotRegular p resolved)
           | StatOk (Special m) \<Rightarrow> Some (ShellNotRegular p resolved)))"

text \<open>
  \<^verbatim>\<open>os.MkdirAll\<close>: it looks for the deepest existing ancestor and creates the missing ones below it.
  The argument lists the path and its ancestors, deepest first.
\<close>

definition os_Mkdir :: "os_faults \<Rightarrow> fs \<Rightarrow> string \<Rightarrow> perm \<Rightarrow> string option \<times> fs" where
  "os_Mkdir os fs p m =
     (case mkdir_fault os p of
        Some e \<Rightarrow> (Some e, fs)
      | None \<Rightarrow> (case fs p of
            Some _ \<Rightarrow> (Some ''file exists'', fs)
          | None \<Rightarrow> (None, fs(p \<mapsto> Dir (m AND NOT (umask os))))))"

fun mkdir_chain :: "os_faults \<Rightarrow> perm \<Rightarrow> string list \<Rightarrow> fs \<Rightarrow> string option \<times> fs" where
  "mkdir_chain os m [] fs = (None, fs)"
| "mkdir_chain os m (p # ancestors) fs =
     (case os_Stat os fs p of
        StatOk (Dir _) \<Rightarrow> (None, fs)
      | StatOk _ \<Rightarrow> (Some ''not a directory'', fs)
      | _ \<Rightarrow>
          (case mkdir_chain os m ancestors fs of
             (Some e, fs) \<Rightarrow> (Some e, fs)
           | (None, fs) \<Rightarrow>
               (case os_Mkdir os fs p m of
                  (Some e, fs) \<Rightarrow> (case fs p of Some (Dir _) \<Rightarrow> (None, fs) | _ \<Rightarrow> (Some e, fs))
                | (None, fs) \<Rightarrow> (None, fs))))"

definition ancestors :: "string \<Rightarrow> string list" where
  "ancestors p =
     (let cs = filter (\<lambda>c. c \<noteq> '''') (strings_Split p (CHR ''/''));
          root = (if p \<noteq> '''' \<and> hd p = CHR ''/'' then ''/'' else '''')
      in map (\<lambda>i. root @ strings_Join (take i cs) ''/'') (rev [1..<length cs + 1]))"

definition os_MkdirAll :: "os_faults \<Rightarrow> fs \<Rightarrow> string \<Rightarrow> perm \<Rightarrow> string option \<times> fs" where
  "os_MkdirAll os fs p m = mkdir_chain os m (ancestors p) fs"

definition ensureMinisshdDir :: "os_faults \<Rightarrow> fs \<Rightarrow> string \<Rightarrow> startup_msg option \<times> fs" where
  "ensureMinisshdDir os fs p =
     (case os_Stat os fs p of
        StatErr e \<Rightarrow> (Some (DirStat p e), fs)
      | StatNotExist \<Rightarrow>
          (case os_MkdirAll os fs p 0x1C0 of
             (Some e, fs) \<Rightarrow> (Some (DirCreate p e), fs)
           | (None, fs) \<Rightarrow>
               (case os_Chmod os fs p 0x1C0 of
                  (Some e, fs) \<Rightarrow> (Some (DirChmod p e), fs)
                | (None, fs) \<Rightarrow> (None, fs)))
      | StatOk (Dir m) \<Rightarrow> (if m AND NOT 0x1C0 \<noteq> 0 then Some (DirTooOpen p m) else None, fs)
      | StatOk _ \<Rightarrow> (Some (NotADirectory p), fs))"

section \<open>Settings\<close>

record settings =
  se_port :: int
  se_forwardMax :: int
  se_password :: string
  se_methods :: Methods
  se_username :: string
  se_format :: Format
  se_shell :: string

type_synonym refusal = "int \<times> startup_msg"

definition osUser :: "('p, 's, 'k) world \<Rightarrow> string" where
  "osUser w = (case w_user w of Inr u \<Rightarrow> u | Inl _ \<Rightarrow> Getenv w ''USER'')"

definition shellPath :: "('p, 's, 'k) world \<Rightarrow> flags \<Rightarrow> string" where
  "shellPath w f =
     (if fl_shell f \<noteq> '''' then fl_shell f
      else if Getenv w ''SHELL'' \<noteq> '''' then Getenv w ''SHELL''
      else ''/bin/zsh'')"

definition resolve_settings :: "('p, 's, 'k) world \<Rightarrow> flags \<Rightarrow> refusal + settings" where
  "resolve_settings w f =
     (if fl_port f < 0 \<or> fl_port f > 65535 then Inl (exitBadConfig, PortOutOfRange (fl_port f))
      else (case resolveForwardMax (fl_forwardMax f) (is_set f ''forward-max'') (Getenv w ''MINISSHD_FORWARD_MAX'') of
        Inl m \<Rightarrow> Inl (exitBadConfig, m)
      | Inr forwardMax \<Rightarrow>
        (case ResolvePasswordStrict (fl_pass f) (is_set f ''pass'') (Getenv w ''MINISSHD_PASS'') (env_isset w ''MINISSHD_PASS'') of
          Inl e \<Rightarrow> Inl (exitBadConfig, AuthSetting e)
        | Inr password \<Rightarrow>
          (case ResolveMethods (fl_auth f) (is_set f ''auth'') (Getenv w ''MINISSHD_AUTH'') (env_isset w ''MINISSHD_AUTH'') of
            Inl e \<Rightarrow> Inl (exitBadConfig, AuthSetting e)
          | Inr methods \<Rightarrow>
            (case ResolveUsername (fl_user f) (Getenv w ''MINISSHD_USER'') (osUser w) of
              Inl e \<Rightarrow> Inl (exitBadConfig, AuthSetting e)
            | Inr username \<Rightarrow>
              (case ParseFormat (fl_logFormat f) (is_set f ''log-format'') (Getenv w ''MINISSHD_LOG_FORMAT'') (env_isset w ''MINISSHD_LOG_FORMAT'') of
                Inl e \<Rightarrow> Inl (exitBadConfig, BadLogFormat e)
              | Inr logFormat \<Rightarrow>
                (case validateShell (w_eval w) (w_os w) (w_fs w) (shellPath w f) of
                  Some m \<Rightarrow> Inl (exitBadConfig, m)
                | None \<Rightarrow> Inr \<lparr> se_port = fl_port f, se_forwardMax = forwardMax, se_password = password, se_methods = methods,
                    se_username = username, se_format = logFormat, se_shell = shellPath w f \<rparr>)))))))"

section \<open>Files\<close>

text \<open>The host-key path, its directory, the path of the authorized keys and the host key.\<close>

definition host_key_path :: "('p, 's, 'k) world \<Rightarrow> flags \<Rightarrow> (refusal + string) \<times> fs" where
  "host_key_path w f =
     (if is_set f ''host-key'' then (Inr (fl_hostKey f), w_fs w)
      else (case UserHomeDir (Getenv w) of
          Inl e \<Rightarrow> (Inl (exitFSFailure, NoHomeDir e), w_fs w)
        | Inr home \<Rightarrow>
            (let p = filepath_Join [home, ''.minisshd'', ''host_key'']
             in case ensureMinisshdDir (w_os w) (w_fs w) (filepath_Dir p) of
                  (Some m, fs) \<Rightarrow> (Inl (exitFSFailure, m), fs)
                | (None, fs) \<Rightarrow> (Inr p, fs))))"

definition keys_path :: "('p, 's, 'k) world \<Rightarrow> flags \<Rightarrow> Methods \<Rightarrow> refusal + string" where
  "keys_path w f methods =
     (if Contains methods MethodPublickey then
        (case ResolveAuthorizedKeysPath (Getenv w) (fl_authorizedKeys f) (is_set f ''authorized-keys'')
            (Getenv w ''MINISSHD_AUTHORIZED_KEYS'') (env_isset w ''MINISSHD_AUTHORIZED_KEYS'') of
           Inl e \<Rightarrow> Inl (exitBadConfig, AuthSetting e)
         | Inr p \<Rightarrow> Inr p)
      else Inr '''')"

definition prepare_files ::
  "('p, 's, 'k) world \<Rightarrow> flags \<Rightarrow> settings \<Rightarrow> (refusal + (string \<times> 's \<times> string)) \<times> fs" where
  "prepare_files w f se =
     (case host_key_path w f of
        (Inl r, fs) \<Rightarrow> (Inl r, fs)
      | (Inr hostKey, fs) \<Rightarrow>
          (case keys_path w f (se_methods se) of
             Inl r \<Rightarrow> (Inl r, fs)
           | Inr keysPath \<Rightarrow>
               (case LoadOrGenerate (w_keylib w) (w_os w) fs hostKey of
                  (Inl e, fs) \<Rightarrow> (Inl (exitFSFailure, HostKeyError hostKey e), fs)
                | (Inr (signer, fingerprint), fs) \<Rightarrow> (Inr (keysPath, signer, fingerprint), fs))))"

section \<open>Listener, password, keys\<close>

definition bind_listener :: "('p, 's, 'k) world \<Rightarrow> flags \<Rightarrow> refusal + (string \<times> int)" where
  "bind_listener w f =
     (let bindIP = ParseIP (fl_bind f) in
      if bindIP = nil_ip then Inl (exitBadConfig, BadBind (fl_bind f))
      else
        (let addr = JoinHostPort (IP_String bindIP) (show_int (fl_port f))
         in case w_listen w addr of
              Inl e \<Rightarrow> Inl (exitBindFailure, ListenFailed addr e)
            | Inr boundPort \<Rightarrow> Inr (IP_String bindIP, boundPort)))"

text \<open>\<^verbatim>\<open>hex.EncodeToString\<close>\<close>

definition EncodeToString :: "bytes \<Rightarrow> string" where
  "EncodeToString bs = concat (map (\<lambda>b. [hex_char (unat b div 16), hex_char (unat b mod 16)]) bs)"

text \<open>The password in force and the banner, if one is printed. The generator never panics (\<open>rand_Int\<close> has no such branch), so the second case is not reached.\<close>

definition choose_password :: "('p, 's, 'k) world \<Rightarrow> settings \<Rightarrow> refusal + (string \<times> string option)" where
  "choose_password w se =
     (if se_password se = '''' \<and> Contains (se_methods se) MethodPassword then
        (case fst (GeneratePassword (w_random w)) of
           Inl (Error e) \<Rightarrow> Inl (exitInternalError, PasswordFailed e)
         | Inl (Panic e) \<Rightarrow> Inl (exitInternalError, PasswordFailed e)
         | Inr password \<Rightarrow> Inr (password, Some (''Password: '' @ password @ [CHR 0x0A])))
      else if \<not> Contains (se_methods se) MethodPassword \<and> se_password se = '''' then
        (case w_sentinel w of
           Inl e \<Rightarrow> Inl (exitInternalError, SentinelFailed e)
         | Inr sentinel \<Rightarrow> Inr (EncodeToString sentinel, None))
      else Inr (se_password se, None))"

text \<open>The log event of a keyset event (\<^verbatim>\<open>*logging.Logger\<close> as the \<^verbatim>\<open>pubkeyLogger\<close>).\<close>

fun pk_log :: "pk_event \<Rightarrow> log_event" where
  "pk_log (PubkeyParseError p n e) = Log_PubkeyParseError p (int n) e"
| "pk_log (PubkeyOptionIgnored p n v) = Log_PubkeyOptionIgnored p (int n) v"
| "pk_log (PubkeyKeysMissing p) = Log_PubkeyKeysMissing p"
| "pk_log (PubkeyReloadOK p n) = Log_PubkeyReloadOK p (int n)"
| "pk_log (PubkeyReloadFailed p e) = Log_PubkeyReloadFailed p e"

definition load_keys ::
  "('p, 's, 'k) world \<Rightarrow> settings \<Rightarrow> string \<Rightarrow> (refusal + KeysetSource option) \<times> log_event list" where
  "load_keys w se keysPath =
     (if Contains (se_methods se) MethodPublickey then
        (case Load (w_parseAK w) (w_marshal w) (w_fingerprint w) (w_open w) (NewKeysetSource keysPath) of
           (Some err, src, evs) \<Rightarrow> (Inl (exitFSFailure, KeysLoadFailed keysPath err), map pk_log evs)
         | (None, src, evs) \<Rightarrow>
             (if \<not> Contains (se_methods se) MethodPassword \<and> Source_Count src = 0
              then Inl (exitBadConfig, NoUsableKeys) else Inr (Some src), map pk_log evs))
      else (Inr None, []))"

section \<open>The whole sequence\<close>

record 's outcome =
  o_code :: int
  o_msg :: "startup_msg option"
  o_banner :: "string option"
  o_logger :: "Logger option"
  o_bound :: bool
  o_fs :: fs
  o_config :: "'s Config option"

definition refuse :: "refusal \<Rightarrow> fs \<Rightarrow> 's outcome" where
  "refuse r fs = \<lparr> o_code = fst r, o_msg = Some (snd r), o_banner = None, o_logger = None, o_bound = False,
     o_fs = fs, o_config = None \<rparr>"

text \<open>The events of a run, stamped with the clock.\<close>

definition logged :: "('p, 's, 'k) world \<Rightarrow> log_event list \<Rightarrow> Logger \<Rightarrow> Logger" where
  "logged w es l = log_all (w_float_secs w) (map (\<lambda>(i, e). (w_clock w i, e)) (enumerate 0 es)) l"

text \<open>From the bound listener on.\<close>

definition run_bound ::
  "('p, 's, 'k) world \<Rightarrow> settings \<Rightarrow> string \<Rightarrow> 's \<Rightarrow> string \<Rightarrow> string \<times> int \<Rightarrow> fs \<Rightarrow> 's outcome" where
  "run_bound w se keysPath signer fingerprint bound fs =
     (case choose_password w se of
        Inl r \<Rightarrow> (refuse r fs)\<lparr>o_bound := True\<rparr>
      | Inr (password, banner) \<Rightarrow>
          (let creds = NewCredentials (se_username se) password;
               logger = New_Logger password (se_format se)
           in case load_keys w se keysPath of
                (Inl r, evs) \<Rightarrow>
                  (refuse r fs)\<lparr>o_bound := True, o_banner := banner, o_logger := Some (logged w evs logger)\<rparr>
              | (Inr keysetSource, evs) \<Rightarrow>
                  (let pubkeyCount = (case keysetSource of Some src \<Rightarrow> Source_Count src | None \<Rightarrow> 0);
                       evs = evs @ [Log_Listening (fst bound) (snd bound) fingerprint (se_username se) (w_pid w)
                         (Methods_String (se_methods se)) (int pubkeyCount)];
                       cfg = \<lparr> cfg_Listener = fst bound, cfg_HostKey = signer, cfg_Credentials = creds, cfg_Limiter = New_Limiter,
                         cfg_SessionService = \<lparr> Shell = se_shell se, hostEnv = Environ w, os_PATH = Getenv w ''PATH'',
                           os_executable = w_executable w, os_look_text = w_look_text w \<rparr>, cfg_Log = logger,
                         cfg_Methods = se_methods se, cfg_KeysetSource = keysetSource, cfg_ForwardMax = se_forwardMax se,
                         cfg_Sleep = None, cfg_DrainTimeout = 0 \<rparr>;
                       evs = evs @ (case w_serve w of Some err \<Rightarrow> [Log_Error err ''''] | None \<Rightarrow> [])
                   in \<lparr> o_code = (case w_serve w of Some _ \<Rightarrow> exitInternalError | None \<Rightarrow> exitOK), o_msg = None,
                        o_banner = banner, o_logger = Some (logged w evs logger), o_bound = True, o_fs = fs, o_config = Some cfg \<rparr>)))"

definition run :: "('p, 's, 'k) world \<Rightarrow> string list \<Rightarrow> 's outcome" where
  "run w args =
     (case flag_Parse args default_flags of
        Inl e \<Rightarrow> refuse (exitBadConfig, FlagError e) (w_fs w)
      | Inr f \<Rightarrow>
          (case resolve_settings w f of
             Inl r \<Rightarrow> refuse r (w_fs w)
           | Inr se \<Rightarrow>
               (case prepare_files w f se of
                  (Inl r, fs) \<Rightarrow> refuse r fs
                | (Inr (keysPath, signer, fingerprint), fs) \<Rightarrow>
                    (case bind_listener w f of
                       Inl r \<Rightarrow> refuse r fs
                     | Inr bound \<Rightarrow> run_bound w se keysPath signer fingerprint bound fs))))"

end
