(* ===== verification/StartupProps.thy ===== *)
theory StartupProps
  imports Startup
begin

text \<open>
  What the start-up sequence guarantees: which exit code goes with which refusal, what is printed when,
  and what the configuration of a server that does start looks like. Each stage has a lemma that says
  what its success means; the theorems on \<open>run\<close> put them together.
\<close>

section \<open>Stages\<close>

lemma ResolveMethods_ok:
  assumes "ResolveMethods flagVal flagSet envVal envSet = Inr ms"
  shows "ms \<noteq> []" and "set ms \<subseteq> known_methods" and "distinct ms"
proof -
  have "ms \<noteq> [] \<and> set ms \<subseteq> known_methods \<and> distinct ms"
    if "resolve_tokens (strings_Split raw (CHR '','')) (\<lambda>_. False) [] = Inr ms" for raw
    using that unfolding resolve_tokens_ok_iff by (metis append_Nil list.map_disc_iff strings_Split_nonempty)
  with assms have "ms \<noteq> [] \<and> set ms \<subseteq> known_methods \<and> distinct ms"
    by (auto simp: ResolveMethods_def Let_def split: if_splits)
  then show "ms \<noteq> []" and "set ms \<subseteq> known_methods" and "distinct ms" by blast+
qed

lemma known_method_present:
  "ms \<noteq> [] \<Longrightarrow> set ms \<subseteq> known_methods \<Longrightarrow> MethodPassword \<in> set ms \<or> MethodPublickey \<in> set ms"
  by (cases ms) auto

lemma resolveForwardMax_ok: "resolveForwardMax v st e = Inr n \<Longrightarrow> 0 \<le> n"
  by (auto simp: resolveForwardMax_def split: if_splits option.splits)

definition settings_ok :: "settings \<Rightarrow> bool" where
  "settings_ok se \<longleftrightarrow>
     0 \<le> se_port se \<and> se_port se \<le> 65535 \<and> 0 \<le> se_forwardMax se \<and> se_username se \<noteq> '''' \<and>
     se_methods se \<noteq> [] \<and> set (se_methods se) \<subseteq> known_methods \<and> distinct (se_methods se)"

lemma resolve_settings_ok:
  assumes "resolve_settings w f = Inr se"
  shows "settings_ok se"
proof -
  from assms obtain fm pw ms u fmt where
    r: "\<not> (fl_port f < 0 \<or> fl_port f > 65535)"
      "resolveForwardMax (fl_forwardMax f) (is_set f ''forward-max'') (Getenv w ''MINISSHD_FORWARD_MAX'') = Inr fm"
      "ResolveMethods (fl_auth f) (is_set f ''auth'') (Getenv w ''MINISSHD_AUTH'') (env_isset w ''MINISSHD_AUTH'') = Inr ms"
      "ResolveUsername (fl_user f) (Getenv w ''MINISSHD_USER'') (osUser w) = Inr u"
    and se: "se_port se = fl_port f" "se_forwardMax se = fm" "se_methods se = ms" "se_username se = u"
    unfolding resolve_settings_def
    by (auto split: if_split_asm sum.split_asm option.split_asm)
  from r(4) have "u \<noteq> ''''" by (auto simp: ResolveUsername_def split: if_splits)
  with r(1) resolveForwardMax_ok [OF r(2)] ResolveMethods_ok [OF r(3)] se show ?thesis
    by (simp add: settings_ok_def)
qed

lemma resolve_settings_values:
  assumes "resolve_settings w f = Inr se"
  shows "ResolveUsername (fl_user f) (Getenv w ''MINISSHD_USER'') (osUser w) = Inr (se_username se)"
    and "ResolvePasswordStrict (fl_pass f) (is_set f ''pass'') (Getenv w ''MINISSHD_PASS'') (env_isset w ''MINISSHD_PASS'') = Inr (se_password se)"
    and "se_shell se = shellPath w f" and "validateShell (w_eval w) (w_os w) (w_fs w) (se_shell se) = None"
  using assms unfolding resolve_settings_def by (auto split: if_split_asm sum.split_asm option.split_asm)

text \<open>The exit code of each refusal, as the table of the specification (section 11) has it.\<close>

fun code_of :: "startup_msg \<Rightarrow> int" where
  "code_of (PasswordFailed _) = 1"
| "code_of (SentinelFailed _) = 1"
| "code_of (ListenFailed _ _) = 3"
| "code_of (NoHomeDir _) = 4"
| "code_of (DirStat _ _) = 4"
| "code_of (DirCreate _ _) = 4"
| "code_of (DirChmod _ _) = 4"
| "code_of (NotADirectory _) = 4"
| "code_of (DirTooOpen _ _) = 4"
| "code_of (HostKeyError _ _) = 4"
| "code_of (KeysLoadFailed _ _) = 4"
| "code_of _ = 2"

definition coded :: "refusal \<Rightarrow> bool" where
  "coded r \<longleftrightarrow> fst r = code_of (snd r)"

lemma resolveForwardMax_code: "resolveForwardMax v st e = Inl m \<Longrightarrow> code_of m = 2"
  by (auto simp: resolveForwardMax_def split: if_splits option.splits)

lemma validateShell_code: "validateShell ev os fs p = Some m \<Longrightarrow> code_of m = 2"
  by (auto simp: validateShell_def split: if_split_asm sum.split_asm stat_result.split_asm node.split_asm)

lemma ensureMinisshdDir_code: "ensureMinisshdDir os fs p = (Some m, fs') \<Longrightarrow> code_of m = 4"
  by (auto simp: ensureMinisshdDir_def split: if_split_asm prod.split_asm option.split_asm stat_result.split_asm node.split_asm)

lemma resolve_settings_code: "resolve_settings w f = Inl r \<Longrightarrow> coded r"
  unfolding resolve_settings_def
  by (auto simp: coded_def exit_codes dest: resolveForwardMax_code validateShell_code
      split: if_split_asm sum.split_asm option.split_asm)

text \<open>The password in force.\<close>

definition secret_char :: "char \<Rightarrow> bool" where
  "secret_char c \<longleftrightarrow> (of_char c :: nat) \<in> {48..57} \<union> {97..102}"

lemma secret_char_disjoint: "secret_char c \<Longrightarrow> c \<notin> set redacted \<and> c \<noteq> CHR 0x0A"
  by (auto simp: redacted_def secret_char_def)

lemma hex_char_secret: "n < 16 \<Longrightarrow> secret_char (hex_char n)"
  by (auto simp: hex_char_def secret_char_def of_char_of)

lemma EncodeToString_secret: "c \<in> set (EncodeToString bs) \<Longrightarrow> secret_char c"
proof -
  assume "c \<in> set (EncodeToString bs)"
  then obtain b :: byte where "c = hex_char (unat b div 16) \<or> c = hex_char (unat b mod 16)"
    by (auto simp: EncodeToString_def)
  moreover have "unat b < 256" by (rule order.strict_trans2 [OF unsigned_less]) simp
  then have "unat b div 16 < 16" "unat b mod 16 < 16" by (simp_all add: div_less_iff_less_mult)
  ultimately show "secret_char c" using hex_char_secret by blast
qed

text \<open>When no password was given, the one chosen consists of digits and lower-case hexadecimal letters.\<close>

lemma choose_password_generated:
  assumes "choose_password w se = Inr (pw, banner)" and "se_password se = ''''" and "w_sentinel w \<noteq> Inr []"
  shows "pw \<noteq> ''''" and "\<forall>c \<in> set pw. secret_char c"
    and "banner = (if MethodPassword \<in> set (se_methods se) then Some (''Password: '' @ pw @ [CHR 0x0A]) else None)"
proof -
  have "pw \<noteq> '''' \<and> (\<forall>c \<in> set pw. secret_char c) \<and>
    banner = (if MethodPassword \<in> set (se_methods se) then Some (''Password: '' @ pw @ [CHR 0x0A]) else None)"
  proof (cases "MethodPassword \<in> set (se_methods se)")
    case True
    with assms obtain r where g: "GeneratePassword (w_random w) = (Inr pw, r)"
      and b: "banner = Some (''Password: '' @ pw @ [CHR 0x0A])"
      by (cases "GeneratePassword (w_random w)") (auto simp: choose_password_def split: sum.splits go_fail.splits)
    from g obtain n where "pw = fmt_06d n" by (auto simp: GeneratePassword_ok)
    then show ?thesis
      using b True fmt_06d_digits [of _ n] by (auto simp: secret_char_def fmt_06d_def)
  next
    case False
    with assms obtain bs where "w_sentinel w = Inr bs" "pw = EncodeToString bs" "banner = None"
      by (auto simp: choose_password_def split: sum.splits)
    moreover from this assms(3) have "EncodeToString bs \<noteq> ''''" by (cases bs) (auto simp: EncodeToString_def)
    ultimately show ?thesis using False EncodeToString_secret [of _ bs] by auto
  qed
  then show "pw \<noteq> ''''" and "\<forall>c \<in> set pw. secret_char c"
    and "banner = (if MethodPassword \<in> set (se_methods se) then Some (''Password: '' @ pw @ [CHR 0x0A]) else None)"
    by blast+
qed

lemma choose_password_given:
  "se_password se \<noteq> '''' \<Longrightarrow> choose_password w se = Inr (se_password se, None)"
  by (simp add: choose_password_def)

lemma choose_password_code: "choose_password w se = Inl r \<Longrightarrow> coded r"
  by (auto simp: coded_def exit_codes choose_password_def split: if_split_asm sum.split_asm go_fail.split_asm)

text \<open>The keys.\<close>

lemma load_keys_ok:
  assumes "load_keys w se kp = (Inr src, evs)"
  shows "src \<noteq> None \<longleftrightarrow> MethodPublickey \<in> set (se_methods se)"
    and "MethodPassword \<in> set (se_methods se) \<or> MethodPublickey \<notin> set (se_methods se) \<or> Source_Count (the src) > 0"
  using assms by (auto simp: load_keys_def split: if_split_asm prod.split_asm option.split_asm)

lemma load_keys_code: "load_keys w se kp = (Inl r, evs) \<Longrightarrow> coded r"
  by (auto simp: coded_def exit_codes load_keys_def split: if_split_asm prod.split_asm option.split_asm)

section \<open>The whole sequence\<close>

text \<open>Runs that get as far as the listener.\<close>

lemma run_cases:
  obtains (refused) r fs where "run w args = refuse r fs" "coded r"
  | (bound) f se kp signer fp b fs where "flag_Parse args default_flags = Inr f" "resolve_settings w f = Inr se"
      "prepare_files w f se = (Inr (kp, signer, fp), fs)" "bind_listener w f = Inr b"
      "run w args = run_bound w se kp signer fp b fs"
proof -
  have files: "coded r" if "prepare_files w f se = (Inl r, fs)" for f se r fs
    using that by (auto dest: ensureMinisshdDir_code simp: coded_def exit_codes prepare_files_def host_key_path_def keys_path_def Let_def
        split: if_split_asm prod.split_asm sum.split_asm option.split_asm)
  have listen: "coded r" if "bind_listener w f = Inl r" for f r
    using that by (auto simp: coded_def exit_codes bind_listener_def Let_def split: if_split_asm sum.split_asm)
  show thesis
  proof (cases "flag_Parse args default_flags")
    case (Inl e)
    then show ?thesis by (intro refused [of "(exitBadConfig, FlagError e)" "w_fs w"]) (simp_all add: run_def coded_def exit_codes)
  next
    case f: (Inr f)
    show ?thesis
    proof (cases "resolve_settings w f")
      case (Inl r)
      then show ?thesis
        using resolve_settings_code [OF Inl] by (intro refused [of r "w_fs w"]) (simp_all add: run_def f)
    next
      case se: (Inr se)
      obtain p fs where p: "prepare_files w f se = (p, fs)" by fastforce
      show ?thesis
      proof (cases p)
        case (Inl r)
        with p files [of f se r fs] show ?thesis by (intro refused [of r fs]) (auto simp: run_def f se)
      next
        case (Inr q)
        obtain kp signer fp where q: "q = (kp, signer, fp)" by (metis prod_cases3)
        show ?thesis
        proof (cases "bind_listener w f")
          case b: (Inl r)
          with p Inr q listen [OF b] show ?thesis by (intro refused [of r fs]) (auto simp: run_def f se)
        next
          case b: (Inr b)
          with p Inr q show ?thesis by (intro bound [OF f se _ b]) (auto simp: run_def f se)
        qed
      qed
    qed
  qed
qed

text \<open>What \<open>run_bound\<close> can do: fail to make a password, refuse the keys, or serve.\<close>

lemma run_bound_cases:
  obtains (no_password) r where "run_bound w se kp signer fp b fs = (refuse r fs)\<lparr>o_bound := True\<rparr>" "coded r"
      "choose_password w se = Inl r"
  | (no_keys) r evs pw banner where "choose_password w se = Inr (pw, banner)" "load_keys w se kp = (Inl r, evs)" "coded r"
      "run_bound w se kp signer fp b fs = (refuse r fs)\<lparr>o_bound := True, o_banner := banner,
         o_logger := Some (logged w evs (New_Logger pw (se_format se)))\<rparr>"
  | (serving) src evs0 evs pw banner cfg where "choose_password w se = Inr (pw, banner)" "load_keys w se kp = (Inr src, evs0)"
      "run_bound w se kp signer fp b fs =
         \<lparr> o_code = (case w_serve w of Some _ \<Rightarrow> exitInternalError | None \<Rightarrow> exitOK), o_msg = None,
           o_banner = banner, o_logger = Some (logged w evs (New_Logger pw (se_format se))), o_bound = True, o_fs = fs,
           o_config = Some cfg \<rparr>"
      "cfg_Credentials cfg = NewCredentials (se_username se) pw" "cfg_Methods cfg = se_methods se" "cfg_KeysetSource cfg = src"
      "cfg_ForwardMax cfg = se_forwardMax se" "cfg_HostKey cfg = signer" "cfg_SessionService cfg = \<lparr> Shell = se_shell se, hostEnv = Environ w, os_PATH = Getenv w ''PATH'',
        os_executable = w_executable w, os_look_text = w_look_text w \<rparr>" "cfg_Sleep cfg = None"
      "cfg_DrainTimeout cfg = 0"
proof (cases "choose_password w se")
  case (Inl r)
  then show thesis using no_password [of r] choose_password_code [OF Inl] by (simp add: run_bound_def)
next
  case p: (Inr x)
  obtain pw banner where x: "x = (pw, banner)" by (cases x)
  obtain k evs where k: "load_keys w se kp = (k, evs)" by (cases "load_keys w se kp")
  show thesis
  proof (cases k)
    case (Inl r)
    with p x k load_keys_code [OF k [unfolded Inl]] show thesis by (intro no_keys) (simp_all add: run_bound_def Let_def)
  next
    case (Inr src)
    show thesis
      by (rule serving [OF p [unfolded x] k [unfolded Inr]], simp add: run_bound_def Let_def p x k Inr) simp_all
  qed
qed

section \<open>Properties\<close>

lemma refuse_simps [simp]:
  "o_code (refuse r fs) = fst r" "o_msg (refuse r fs) = Some (snd r)" "o_banner (refuse r fs) = None"
  "o_logger (refuse r fs) = None" "o_config (refuse r fs) = None" "o_bound (refuse r fs) = False" "o_fs (refuse r fs) = fs"
  by (simp_all add: refuse_def)

text \<open>
  C35: How a start ends. A refusal carries exactly the exit code the specification gives its cause and starts no
  server; without a refusal a server was configured and the code is that of the accept loop, 0 or 1. As long as
  the listener is not bound nothing is printed on standard output, neither a banner nor a log line.\<close>
theorem run_exit_codes:
  "(case o_msg (run w args) of
      Some m \<Rightarrow> o_code (run w args) = code_of m \<and> o_config (run w args) = None
    | None \<Rightarrow> o_config (run w args) \<noteq> None \<and> o_code (run w args) = (if w_serve w = None then 0 else 1)) \<and>
   (o_bound (run w args) \<or> o_banner (run w args) = None \<and> o_logger (run w args) = None)"
proof (cases rule: run_cases [of w args])
  case (refused r fs)
  then show ?thesis by (simp add: coded_def)
next
  case (bound f se kp signer fp b fs)
  show ?thesis
  proof (cases rule: run_bound_cases [of w se kp signer fp b fs])
    case (no_password r)
    then show ?thesis by (simp add: coded_def bound(5))
  next
    case (no_keys r evs pw banner)
    then show ?thesis by (simp add: coded_def bound(5))
  next
    case (serving src evs0 evs pw banner cfg)
    then show ?thesis by (simp add: exit_codes bound(5) split: option.split)
  qed
qed

lemma prepare_files_path: "prepare_files w f se = (Inr (kp, signer, fp), fs) \<Longrightarrow> keys_path w f (se_methods se) = Inr kp"
  by (auto simp: prepare_files_def split: prod.split_asm sum.split_asm)

text \<open>A start that serves went through every stage; its configuration is made of their results.\<close>

lemma run_served:
  assumes "o_config (run w args) = Some cfg"
  obtains f se kp src evs pw where "flag_Parse args default_flags = Inr f" "resolve_settings w f = Inr se"
    "keys_path w f (se_methods se) = Inr kp" "choose_password w se = Inr (pw, o_banner (run w args))" "load_keys w se kp = (Inr src, evs)"
    "cfg_Credentials cfg = NewCredentials (se_username se) pw" "cfg_Methods cfg = se_methods se" "cfg_KeysetSource cfg = src"
    "cfg_ForwardMax cfg = se_forwardMax se" "cfg_SessionService cfg = \<lparr> Shell = se_shell se, hostEnv = Environ w, os_PATH = Getenv w ''PATH'',
        os_executable = w_executable w, os_look_text = w_look_text w \<rparr>"
    "cfg_Sleep cfg = None" "cfg_DrainTimeout cfg = 0" "o_code (run w args) = (case w_serve w of Some _ \<Rightarrow> exitInternalError | None \<Rightarrow> exitOK)"
proof (cases rule: run_cases [of w args])
  case (refused r fs)
  with assms show thesis by simp
next
  case (bound f se kp signer fp b fs)
  show thesis
  proof (cases rule: run_bound_cases [of w se kp signer fp b fs])
    case (no_password r)
    with assms bound(5) show ?thesis by simp
  next
    case (no_keys r evs pw banner)
    with assms bound(5) show ?thesis by simp
  next
    case (serving src evs0 evs pw banner cfg')
    then have "cfg' = cfg" "o_banner (run w args) = banner"
      "o_code (run w args) = (case w_serve w of Some _ \<Rightarrow> exitInternalError | None \<Rightarrow> exitOK)"
      using assms bound(5) by simp_all
    with serving show ?thesis by (intro that [OF bound(1,2) prepare_files_path [OF bound(3)] _ serving(2)]) simp_all
  qed
qed

text \<open>The requirements on a configuration that is served.\<close>

definition config_ok :: "'s Config \<Rightarrow> bool" where
  "config_ok cfg \<longleftrightarrow>
     cfg_Methods cfg \<noteq> [] \<and> set (cfg_Methods cfg) \<subseteq> known_methods \<and> distinct (cfg_Methods cfg) \<and>
     (cfg_KeysetSource cfg \<noteq> None \<longleftrightarrow> MethodPublickey \<in> set (cfg_Methods cfg)) \<and>
     (MethodPassword \<in> set (cfg_Methods cfg) \<or> Source_Count (the (cfg_KeysetSource cfg)) > 0) \<and>
     0 \<le> cfg_ForwardMax cfg \<and>
     (\<exists>user pw. cfg_Credentials cfg = NewCredentials user pw \<and> user \<noteq> '''' \<and> pw \<noteq> '''')"

text \<open>
  C16: A server that starts is usable and closed. If the random source fills its buffer, the configuration handed to the
  server names a non-empty list of distinct known methods, has a keyset source exactly when public keys are
  on and at least one key when nothing else is, a non-empty username and password and a non-negative
  forward cap; and the configuration of the SSH library made from it offers exactly these methods, so at least one,
  never admits a client without authentication and has one host key.\<close>
theorem run_config_ok:
  fixes w :: "('p, 's, 'k) world"
  assumes "o_config (run w args) = Some cfg" and "w_sentinel w \<noteq> Inr []"
  shows "config_ok cfg \<and>
    (let sc = newServerConfig (w_marshal w) (w_fingerprint w) (New_Server cfg) in
       (sc_PasswordCallback sc \<noteq> None \<longleftrightarrow> MethodPassword \<in> set (cfg_Methods cfg)) \<and>
       (sc_PublicKeyCallback sc \<noteq> None \<longleftrightarrow> MethodPublickey \<in> set (cfg_Methods cfg)) \<and>
       (sc_PasswordCallback sc \<noteq> None \<or> sc_PublicKeyCallback sc \<noteq> None) \<and>
       \<not> sc_NoClientAuth sc \<and> sc_hostKeys sc = [cfg_HostKey cfg])"
proof -
  have ok: "config_ok cfg"
  proof (cases rule: run_served [OF assms(1)])
    case (1 f se kp src evs pw)
    have se: "settings_ok se" using resolve_settings_ok [OF 1(2)] .
    have "pw \<noteq> ''''"
      using choose_password_generated(1) [OF 1(4) _ assms(2)] choose_password_given [of se w] 1(4) by fastforce
    moreover from se have "MethodPassword \<in> set (se_methods se) \<or> MethodPublickey \<in> set (se_methods se)"
      by (simp add: settings_ok_def known_method_present)
    then have "MethodPassword \<in> set (se_methods se) \<or> 0 < Source_Count (the src)"
      using load_keys_ok(2) [OF 1(5)] by auto
    ultimately show ?thesis
      using 1(6-) se load_keys_ok(1) [OF 1(5)] by (auto simp: config_ok_def settings_ok_def)
  qed
  then have "cfg_Methods cfg \<noteq> []" "MethodPassword \<in> set (cfg_Methods cfg) \<or> MethodPublickey \<in> set (cfg_Methods cfg)"
    "cfg_KeysetSource cfg \<noteq> None \<longleftrightarrow> MethodPublickey \<in> set (cfg_Methods cfg)"
    by (simp_all add: config_ok_def known_method_present)
  with ok newServerConfig_methods [of "w_marshal w" "w_fingerprint w" "New_Server cfg"] show ?thesis
    by (simp add: New_Server_def Let_def)
qed

definition sample_world :: "(nat, nat, bytes) world" where
  "sample_world = \<lparr> w_environ = [''USER=me''], w_user = Inr ''me'', w_eval = (\<lambda>p. Inr p), w_os = no_faults,
     w_fs = [''/bin/zsh'' \<mapsto> File [] 0x1ED, ''/d'' \<mapsto> Dir 0x1C0], w_keylib = sample_lib,
     w_listen = (\<lambda>_. Inr 2222), w_random = [0, 1, 2], w_sentinel = Inr [1], w_open = (\<lambda>_. OpenFails (OtherError ''denied'')),
     w_parseAK = raw_ak, w_marshal = (\<lambda>k. k), w_fingerprint = string_of_bytes, w_pid = 1, w_clock = (\<lambda>_. sample_time),
     w_float_secs = (\<lambda>_. ''0''), w_executable = (\<lambda>p. p = ''/bin/zsh''), w_look_text = (\<lambda>_ n. n), w_serve = None \<rparr>"

definition sample_args :: "string list" where
  "sample_args = [''--host-key=/d/k'', ''--bind'', ''127.0.0.1'']"

definition sample_flags :: flags where
  "sample_flags = default_flags\<lparr>fl_hostKey := ''/d/k'', fl_bind := ''127.0.0.1'', fl_actual := [''bind'', ''host-key'']\<rparr>"

definition sample_settings :: settings where
  "sample_settings = \<lparr> se_port = 2222, se_forwardMax = 32, se_password = '''', se_methods = [''password''],
     se_username = ''me'', se_format = 0, se_shell = ''/bin/zsh'' \<rparr>"

lemma sample_password: "choose_password sample_world sample_settings = Inr (''000258'', Some (''Password: 000258'' @ [CHR 0x0A]))"
  by (simp add: choose_password_def sample_world_def sample_settings_def MethodPassword_def GeneratePassword_def draw_def
      passwordSpace_def fmt_06d_def show_nat.simps digit_char_def) code_simp

lemma sample_parse: "flag_Parse sample_args default_flags = Inr sample_flags"
  by code_simp

lemma sample_resolve: "resolve_settings sample_world sample_flags = Inr sample_settings"
  by code_simp

lemma sample_bind: "bind_listener sample_world sample_flags = Inr (''127.0.0.1'', 2222)"
proof -
  have "ParseIP ''127.0.0.1'' = [0, 0, 0, 0, 0, 0, 0, 0, 0, 0, 255, 255, 127, 0, 0, 1]" by code_simp
  moreover have "IP_String [0, 0, 0, 0, 0, 0, 0, 0, 0, 0, 255, 255, 127, 0, 0, 1] = ''127.0.0.1''" by code_simp
  ultimately show ?thesis
    by (simp add: bind_listener_def sample_world_def sample_flags_def nil_ip_def Let_def)
qed

lemma sample_load: "load_keys sample_world sample_settings '''' = (Inr None, [])"
  by code_simp

lemmas sample_stages = sample_parse sample_resolve sample_bind sample_password sample_load

lemma sample_files:
  "\<exists>fs. prepare_files sample_world sample_flags sample_settings = (Inr ('''', 7, show_nat 7), fs)"
proof -
  have dir: "filepath_Dir ''/d/k'' = ''/d''" by code_simp
  show ?thesis
    by (simp add: prepare_files_def host_key_path_def keys_path_def sample_world_def sample_flags_def sample_settings_def is_set_def
        MethodPublickey_def LoadOrGenerate_def dir os_Stat_def no_faults_def generateAndWrite_def sample_lib_def os_WriteFile_def
        os_Chmod_def writePub_def Let_def)
qed

lemma sample_serves: "\<exists>cfg. o_config (run sample_world sample_args) = Some cfg \<and> cfg_Methods cfg = [''password'']"
  using sample_files
  by (auto simp: run_def sample_stages run_bound_def Let_def) (simp add: sample_settings_def)

theorem run_config_ok_witness:
  "\<exists>cfg. o_config (run sample_world sample_args) = Some cfg \<and> config_ok cfg"
proof -
  obtain cfg where c: "o_config (run sample_world sample_args) = Some cfg" using sample_serves by blast
  have "w_sentinel sample_world \<noteq> Inr []" by (simp add: sample_world_def)
  from run_config_ok [OF c this] c show ?thesis by blast
qed

lemma logged_append:
  "log_all fl es (logged w evs l) = log_all fl' (es' @ es) l"
  if "fl = w_float_secs w" and "fl' = w_float_secs w" and "es' = map (\<lambda>(i, e). (w_clock w i, e)) (enumerate 0 evs)"
  using that by (simp add: logged_def log_all_def)

lemma secret_never_logged:
  assumes "pw \<noteq> ''''" and "\<forall>c \<in> set pw. secret_char c"
  shows "\<not> sublist pw (w_out (log_all (w_float_secs w) es (logged w evs (New_Logger pw f))))"
proof -
  have "set pw \<inter> set redacted = {}" "CHR 0x0A \<notin> set pw"
    using assms(2) secret_char_disjoint by blast+
  from New_Logger_gone [OF assms(1) this] show ?thesis
    by (simp add: logged_append)
qed

text \<open>No password was supplied.\<close>

lemma no_password_supplied:
  assumes "resolve_settings w f = Inr se" and "\<not> is_set f ''pass''" and "LookupEnv w ''MINISSHD_PASS'' = None"
  shows "se_password se = ''''"
  using resolve_settings_values(2) [OF assms(1)] assms(2,3) by (simp add: ResolvePasswordStrict_def)

text \<open>
  C17: A secret the program makes itself never reaches the log. When no password was supplied, every start that gets as far as having a logger has
  chosen one that is not empty; it is printed on standard output, in the banner, exactly when password
  authentication is on; it is the password of the credentials if the server runs; and it occurs
  nowhere in the log written during start-up nor in what any later events add to it, in either format.\<close>
theorem generated_password_confined:
  assumes "flag_Parse args default_flags = Inr f" and "\<not> is_set f ''pass''" and "LookupEnv w ''MINISSHD_PASS'' = None"
    and "w_sentinel w \<noteq> Inr []" and "o_logger (run w args) = Some l"
  shows "\<exists>pw. pw \<noteq> '''' \<and>
    (o_banner (run w args) = Some (''Password: '' @ pw @ [CHR 0x0A]) \<or> o_banner (run w args) = None) \<and>
    (\<forall>cfg. o_config (run w args) = Some cfg \<longrightarrow> (\<exists>user. cfg_Credentials cfg = NewCredentials user pw) \<and>
       (o_banner (run w args) = None \<longleftrightarrow> MethodPassword \<notin> set (cfg_Methods cfg))) \<and>
    (\<forall>es. \<not> sublist pw (w_out (log_all (w_float_secs w) es l)))"
proof (cases rule: run_cases [of w args])
  case (refused r fs)
  with assms show ?thesis by simp
next
  case (bound f' se kp signer fp b fs)
  from bound(1) assms(1) have "f' = f" by simp
  with no_password_supplied [OF bound(2)] assms(2,3) have none: "se_password se = ''''" by simp
  show ?thesis
  proof (cases rule: run_bound_cases [of w se kp signer fp b fs])
    case (no_password r)
    with assms(5) bound(5) show ?thesis by simp
  next
    case (no_keys r evs pw banner)
    note g = choose_password_generated [OF no_keys(1) none assms(4)]
    have l: "l = logged w evs (New_Logger pw (se_format se))" using no_keys(4) assms(5) bound(5) by simp
    have b: "o_banner (run w args) = banner" "o_config (run w args) = None"
      using no_keys(4) bound(5) by simp_all
    show ?thesis
      by (rule exI [of _ pw]) (simp add: b g secret_never_logged [OF g(1,2)] l)
  next
    case (serving src evs0 evs pw banner cfg)
    note g = choose_password_generated [OF serving(1) none assms(4)]
    have l: "l = logged w evs (New_Logger pw (se_format se))" using serving(3) assms(5) bound(5) by simp
    have b: "o_banner (run w args) = banner" "o_config (run w args) = Some cfg"
      using serving(3) bound(5) by simp_all
    show ?thesis
      by (rule exI [of _ pw]) (use serving(4,5) in \<open>auto simp: b g l secret_never_logged [OF g(1,2)]\<close>)
  qed
qed

lemma sample_logger: "\<exists>l. o_logger (run sample_world sample_args) = Some l"
  using sample_files by (auto simp: run_def sample_stages run_bound_def Let_def)

theorem generated_password_confined_witness:
  "\<exists>l pw. o_logger (run sample_world sample_args) = Some l \<and> pw \<noteq> '''' \<and> \<not> sublist pw (w_out l)"
proof -
  obtain l where l: "o_logger (run sample_world sample_args) = Some l" using sample_logger by blast
  have "\<not> is_set sample_flags ''pass''" by code_simp
  moreover have "LookupEnv sample_world ''MINISSHD_PASS'' = None" by code_simp
  moreover have "w_sentinel sample_world \<noteq> Inr []" by (simp add: sample_world_def)
  ultimately obtain pw where "pw \<noteq> ''''"
      and n: "\<forall>es. \<not> sublist pw (w_out (log_all (w_float_secs sample_world) es l))"
    using generated_password_confined [OF sample_parse, of sample_world l] l by blast
  moreover from n have "\<not> sublist pw (w_out (log_all (w_float_secs sample_world) [] l))" by blast
  then have "\<not> sublist pw (w_out l)" by (simp add: log_all_def)
  ultimately show ?thesis using l by blast
qed

text \<open>
  A start with both methods on. What the authorized-keys file holds has no influence on the stages before it is loaded.
\<close>

lemma open_independent [simp]:
  "LookupEnv (w\<lparr>w_open := r\<rparr>) = LookupEnv w" "Getenv (w\<lparr>w_open := r\<rparr>) = Getenv w" "osUser (w\<lparr>w_open := r\<rparr>) = osUser w"
  "shellPath (w\<lparr>w_open := r\<rparr>) = shellPath w" "resolve_settings (w\<lparr>w_open := r\<rparr>) = resolve_settings w"
  "prepare_files (w\<lparr>w_open := r\<rparr>) = prepare_files w" "bind_listener (w\<lparr>w_open := r\<rparr>) = bind_listener w"
  "choose_password (w\<lparr>w_open := r\<rparr>) = choose_password w"
proof -
  show l: "LookupEnv (w\<lparr>w_open := r\<rparr>) = LookupEnv w" by (simp add: fun_eq_iff LookupEnv_def)
  then show g: "Getenv (w\<lparr>w_open := r\<rparr>) = Getenv w" by (simp add: fun_eq_iff Getenv_def)
  show o: "osUser (w\<lparr>w_open := r\<rparr>) = osUser w" and s: "shellPath (w\<lparr>w_open := r\<rparr>) = shellPath w"
    by (simp_all add: fun_eq_iff osUser_def shellPath_def g split: sum.split)
  show "resolve_settings (w\<lparr>w_open := r\<rparr>) = resolve_settings w" 
    by (simp add: fun_eq_iff resolve_settings_def l g o s cong: sum.case_cong option.case_cong)
  show "prepare_files (w\<lparr>w_open := r\<rparr>) = prepare_files w"
    by (simp add: fun_eq_iff prepare_files_def host_key_path_def keys_path_def l g Let_def cong: sum.case_cong option.case_cong prod.case_cong)
  show "bind_listener (w\<lparr>w_open := r\<rparr>) = bind_listener w" by (simp add: fun_eq_iff bind_listener_def Let_def)
  show "choose_password (w\<lparr>w_open := r\<rparr>) = choose_password w" by (simp add: fun_eq_iff choose_password_def)
qed

definition sample_key_args :: "string list" where
  "sample_key_args = [''--host-key=/d/k'', ''--bind'', ''127.0.0.1'', ''-auth=password,publickey'', ''-authorized-keys'', ''/k'']"

definition sample_key_flags :: flags where
  "sample_key_flags = sample_flags\<lparr>fl_auth := ''password,publickey'', fl_authorizedKeys := ''/k'',
    fl_actual := [''authorized-keys'', ''auth'', ''bind'', ''host-key'']\<rparr>"

definition sample_key_settings :: settings where
  "sample_key_settings = sample_settings\<lparr>se_methods := [''password'', ''publickey'']\<rparr>"

lemma sample_key_parse: "flag_Parse sample_key_args default_flags = Inr sample_key_flags"
  by code_simp

lemma sample_key_resolve: "resolve_settings sample_world sample_key_flags = Inr sample_key_settings"
proof -
  have "ResolveMethods ''password,publickey'' True e s = Inr [''password'', ''publickey'']" for e s
    using ResolveMethods_roundtrip [of "[''password'', ''publickey'']" e s]
    by (simp add: MethodPassword_def MethodPublickey_def Methods_String_def)
  with sample_resolve show ?thesis
    by (auto simp: resolve_settings_def sample_key_flags_def sample_key_settings_def sample_flags_def sample_settings_def default_flags_def
        is_set_def shellPath_def split: sum.split_asm option.split_asm if_split_asm)
qed

lemma sample_key_bind: "bind_listener sample_world sample_key_flags = Inr (''127.0.0.1'', 2222)"
  using sample_bind by (auto simp: bind_listener_def sample_key_flags_def Let_def split: if_split_asm)

lemma sample_key_password: "choose_password sample_world sample_key_settings = Inr (''000258'', Some (''Password: 000258'' @ [CHR 0x0A]))"
  unfolding sample_password [symmetric] by (simp add: choose_password_def sample_key_settings_def sample_settings_def MethodPassword_def)

lemma sample_key_files: "\<exists>fs. prepare_files sample_world sample_key_flags sample_key_settings = (Inr (''/k'', 7, show_nat 7), fs)"
proof -
  have dir: "filepath_Dir ''/d/k'' = ''/d''" by code_simp
  show ?thesis
    by (simp add: prepare_files_def host_key_path_def keys_path_def sample_world_def sample_key_flags_def sample_key_settings_def
        sample_flags_def sample_settings_def is_set_def ResolveAuthorizedKeysPath_def MethodPublickey_def LoadOrGenerate_def dir
        os_Stat_def no_faults_def generateAndWrite_def sample_lib_def os_WriteFile_def os_Chmod_def writePub_def Let_def)
qed

lemmas sample_key_stages = sample_key_parse sample_key_resolve sample_key_bind sample_key_password

definition sample_key_world :: "(nat, nat, bytes) world" where
  "sample_key_world = sample_world\<lparr>w_open := \<lambda>_. Contents [0x6B, 0x31] None\<rparr>"

lemma sample_key_serves:
  "\<exists>cfg src. o_config (run sample_key_world sample_key_args) = Some cfg \<and> cfg_KeysetSource cfg = Some src \<and> path src = ''/k'' \<and>
     cfg_Methods cfg = [''password'', ''publickey'']"
proof -
  have "load_keys sample_key_world sample_key_settings ''/k'' =
      (Inr (Some \<lparr>path = ''/k'', cur = Some \<lparr>keys = [accept (\<lambda>k. k) string_of_bytes [0x6B, 0x31] '''']\<rparr>\<rparr>), [])"
    by (simp add: load_keys_def sample_key_settings_def sample_key_world_def sample_world_def MethodPublickey_def MethodPassword_def
        Load_def sample_source_parse NewKeysetSource_def)
  then show ?thesis
    using sample_key_files
    by (auto simp: run_def sample_key_stages run_bound_def sample_key_world_def Let_def) (simp add: sample_key_settings_def)
qed

text \<open>
  The banner does not promise a server. A start can print the password banner and then refuse: here both methods are
  on and the authorized-keys file cannot be read, so the exit code is 4 after the banner.\<close>
lemma banner_before_refusal:
  "\<exists>w :: (nat, nat, bytes) world. \<exists>args. o_banner (run w args) \<noteq> None \<and> o_code (run w args) = 4 \<and> o_config (run w args) = None"
proof -
  have "load_keys sample_world sample_key_settings ''/k'' = (Inl (exitFSFailure, KeysLoadFailed ''/k'' (OtherError ''denied'')), [])"
    unfolding sample_key_settings_def by code_simp
  then have "o_banner (run sample_world sample_key_args) \<noteq> None \<and> o_code (run sample_world sample_key_args) = 4 \<and>
      o_config (run sample_world sample_key_args) = None"
    using sample_key_files by (auto simp: run_def sample_key_stages run_bound_def Let_def exit_codes)
  then show ?thesis by blast
qed

section \<open>The directory of the host key\<close>

lemma mkdir_chain_frame:
  assumes "mkdir_chain os m ps fs = (e, fs')"
  shows "fs q \<noteq> None \<Longrightarrow> fs' q = fs q" and "fs q = None \<Longrightarrow> fs' q \<noteq> None \<Longrightarrow> \<exists>m. fs' q = Some (Dir m)"
proof -
  have "(fs q \<noteq> None \<longrightarrow> fs' q = fs q) \<and> (fs q = None \<longrightarrow> fs' q \<noteq> None \<longrightarrow> (\<exists>m. fs' q = Some (Dir m)))"
    using assms
  proof (induction os m ps fs arbitrary: e fs' rule: mkdir_chain.induct)
    case (2 os m p ps fs)
    show ?case
    proof (cases "\<exists>n. os_Stat os fs p = StatOk n")
      case True
      then obtain n where "os_Stat os fs p = StatOk n" by blast
      with "2.prems" have "fs' = fs" by (cases n) auto
      then show ?thesis by simp
    next
      case False
      obtain e1 fs1 where c: "mkdir_chain os m ps fs = (e1, fs1)" by fastforce
      have IH: "(fs q \<noteq> None \<longrightarrow> fs1 q = fs q) \<and> (fs q = None \<longrightarrow> fs1 q \<noteq> None \<longrightarrow> (\<exists>m. fs1 q = Some (Dir m)))"
        using False c "2.IH" by (cases "os_Stat os fs p") auto
      have "fs' = fs1 \<or> (fs1 p = None \<and> (\<exists>m'. fs' = fs1(p \<mapsto> Dir m')))"
        using "2.prems" False c
        by (cases "os_Stat os fs p")
          (auto simp: os_Mkdir_def split: option.split_asm prod.split_asm node.split_asm)
      with IH show ?thesis by (auto split: if_splits)
    qed
  qed simp
  then show "fs q \<noteq> None \<Longrightarrow> fs' q = fs q" and "fs q = None \<Longrightarrow> fs' q \<noteq> None \<Longrightarrow> \<exists>m. fs' q = Some (Dir m)"
    by blast+
qed

text \<open>
  The directory for the default host key is private: when \<^verbatim>\<open>ensureMinisshdDir\<close> succeeds the path is a
  directory that nobody but its owner can enter, whatever the umask; a directory that exists is only inspected and nothing
  else that exists is touched, and all it may create are directories. A refusal changes nothing that existed.\<close>
theorem ensureMinisshdDir_private:
  assumes "ensureMinisshdDir os fs p = (err, fs')"
  shows "(err = None \<longrightarrow> (\<exists>m. fs' p = Some (Dir m) \<and> m AND NOT 0x1C0 = 0)) \<and>
    (\<forall>q. fs q \<noteq> None \<longrightarrow> fs' q = fs q) \<and>
    (\<forall>q. fs q = None \<longrightarrow> fs' q = None \<or> (\<exists>m. fs' q = Some (Dir m)))"
proof (cases "os_Stat os fs p")
  case (StatOk n)
  then have "fs p = Some n" by (auto simp: os_Stat_def split: option.splits)
  with StatOk assms show ?thesis by (cases n) (auto simp: ensureMinisshdDir_def split: if_splits)
next
  case (StatErr e)
  with assms show ?thesis by (auto simp: ensureMinisshdDir_def)
next
  case StatNotExist
  then have none: "fs p = None" by (auto simp: os_Stat_def split: option.splits)
  obtain e1 fs1 where c: "mkdir_chain os 0x1C0 (ancestors p) fs = (e1, fs1)" by fastforce
  note fr = mkdir_chain_frame [OF c]
  have "fs' = fs1 \<and> err \<noteq> None \<or> (\<exists>n. fs1 p = Some n \<and> fs' = fs1(p \<mapsto> set_perm 0x1C0 n))"
    using assms StatNotExist c
    by (auto simp: ensureMinisshdDir_def os_MkdirAll_def os_Chmod_def split: option.split_asm prod.split_asm)
  then show ?thesis
  proof
    assume "fs' = fs1 \<and> err \<noteq> None"
    with fr show ?thesis by blast
  next
    assume "\<exists>n. fs1 p = Some n \<and> fs' = fs1(p \<mapsto> set_perm 0x1C0 n)"
    then obtain n where n: "fs1 p = Some n" "fs' = fs1(p \<mapsto> set_perm 0x1C0 n)" by blast
    with fr(2) [of p] none obtain m where "n = Dir m" by auto
    moreover have "fs1 q = None \<or> (\<exists>m. fs1 q = Some (Dir m))" if "fs q = None" for q
      using fr(2) [of q] that by blast
    ultimately show ?thesis using n none fr(1) by auto
  qed
qed

theorem ensureMinisshdDir_private_witness:
  "\<exists>fs'. ensureMinisshdDir no_faults [''/h'' \<mapsto> Dir 0x1ED] ''/h/.minisshd'' = (None, fs') \<and>
    (\<exists>m. fs' ''/h/.minisshd'' = Some (Dir m) \<and> m AND NOT 0x1C0 = 0)"
proof -
  have a: "ancestors ''/h/.minisshd'' = [''/h/.minisshd'', ''/h'']" by code_simp
  have "\<exists>fs'. ensureMinisshdDir no_faults [''/h'' \<mapsto> Dir 0x1ED] ''/h/.minisshd'' = (None, fs')"
    by (simp add: ensureMinisshdDir_def os_Stat_def no_faults_def os_MkdirAll_def a os_Mkdir_def os_Chmod_def)
  then obtain fs' where f: "ensureMinisshdDir no_faults [''/h'' \<mapsto> Dir 0x1ED] ''/h/.minisshd'' = (None, fs')" by blast
  from ensureMinisshdDir_private [OF f] f show ?thesis by blast
qed

end
