(* ===== verification/Forward.thy ===== *)
theory Forward
  imports NetAddr Logging
begin

text \<open>
  \<^verbatim>\<open>internal/server/dispatch.go\<close> and \<^verbatim>\<open>forward.go\<close>: the routing of channel-open and global requests,
  the per-connection cap on local forwards, and the life of a \<^verbatim>\<open>direct-tcpip\<close> channel. The forward
  handlers of one connection run as goroutines that share the counter; they are a step relation in which each
  step is one atomic section, so that all interleavings are covered. \<^verbatim>\<open>ssh.Unmarshal\<close> is a parameter; the
  outcomes of dialling, of accepting the channel and of the two copy loops are the choices of the environment.
\<close>

section \<open>Channel and request routing\<close>

definition channelTypeSession :: string where "channelTypeSession = ''session''"
definition channelTypeDirectTCPIP :: string where "channelTypeDirectTCPIP = ''direct-tcpip''"
definition channelTypeForwardedTCPIP :: string where "channelTypeForwardedTCPIP = ''forwarded-tcpip''"
definition channelTypeDirectStreamlocal :: string where
  "channelTypeDirectStreamlocal = ''direct-streamlocal@openssh.com''"
definition channelTypeStreamlocalForward :: string where
  "channelTypeStreamlocalForward = ''streamlocal-forward@openssh.com''"
definition globalRequestTCPIPForward :: string where "globalRequestTCPIPForward = ''tcpip-forward''"
definition globalRequestCancelTCPIPForward :: string where
  "globalRequestCancelTCPIPForward = ''cancel-tcpip-forward''"

datatype channelAction = actionRejected | actionSession | actionForward

datatype RejectionReason = Prohibited | ConnectionFailed | UnknownChannelType | ResourceShortage

text \<open>What a handler does to the outside: it logs, or it refuses the channel.\<close>

datatype effect =
    Logs log_event
  | Rejects RejectionReason string
  | ClosesTcp
  | ClosesTcpWrite
  | ClosesCh
  | ClosesChWrite

definition classifyChannel :: "string \<Rightarrow> string \<Rightarrow> channelAction \<times> effect list" where
  "classifyChannel chType remote =
     (if chType = channelTypeSession then (actionSession, [])
      else if chType = channelTypeDirectTCPIP then (actionForward, [])
      else if chType = channelTypeForwardedTCPIP then
        (actionRejected, [Logs (Log_Reject remote ''tcpip''), Rejects Prohibited ''port forwarding not supported''])
      else if chType = channelTypeDirectStreamlocal \<or> chType = channelTypeStreamlocalForward then
        (actionRejected, [Logs (Log_Reject remote ''streamlocal''), Rejects Prohibited ''unix-socket forwarding not supported''])
      else
        (actionRejected, [Logs (Log_Reject remote chType), Rejects UnknownChannelType ''unknown channel type'']))"

definition routeChannel :: "string \<Rightarrow> string \<Rightarrow> bool \<times> effect list" where
  "routeChannel chType remote =
     (case classifyChannel chType remote of (a, es) \<Rightarrow> (a = actionSession, es))"

record ssh_request =
  Reqtype :: string
  WantsReply :: bool

text \<open>\<^verbatim>\<open>Reply(false, nil)\<close>, which sends nothing when no reply is wanted.\<close>

definition Deny :: "ssh_request \<Rightarrow> bool list" where
  "Deny r = (if WantsReply r then [False] else [])"

definition handleGlobalRequest :: "ssh_request \<Rightarrow> string \<Rightarrow> log_event list \<times> bool list" where
  "handleGlobalRequest req remote =
     (if Reqtype req = globalRequestTCPIPForward \<or> Reqtype req = globalRequestCancelTCPIPForward
      then [Log_Reject remote ''tcpip''] else [],
      Deny req)"

section \<open>The counter\<close>

record forwardCounter =
  fcap :: int
  inflight :: int

definition fc_Acquire :: "forwardCounter \<Rightarrow> bool \<times> forwardCounter" where
  "fc_Acquire c =
     (if fcap c \<le> 0 \<or> inflight c \<ge> fcap c then (False, c)
      else (True, c\<lparr>inflight := inflight c + 1\<rparr>))"

definition fc_Release :: "forwardCounter \<Rightarrow> forwardCounter" where
  "fc_Release c = (if inflight c > 0 then c\<lparr>inflight := inflight c - 1\<rparr> else c)"

section \<open>The payload and the dial address\<close>

record directTCPIPPayload =
  DestAddr :: string
  DestPort :: uint32
  OriginAddr :: string
  OriginPort :: uint32

type_synonym unmarshal = "bytes \<Rightarrow> string + directTCPIPPayload"

definition parseDirectTCPIP :: "unmarshal \<Rightarrow> bytes \<Rightarrow> string + directTCPIPPayload" where
  "parseDirectTCPIP unm data =
     (case unm data of
        Inl err \<Rightarrow> Inl (''malformed direct-tcpip payload: '' @ err)
      | Inr p \<Rightarrow>
          if DestPort p = 0 \<or> DestPort p > 65535
          then Inl ''malformed direct-tcpip payload: dest-port out of range''
          else Inr p)"

definition dialAddr :: "directTCPIPPayload \<Rightarrow> string" where
  "dialAddr p = JoinHostPort (DestAddr p) (show_int (uint (DestPort p)))"

section \<open>The forward handler\<close>

text \<open>
  The control points of \<^verbatim>\<open>handleDirectTCPIP\<close>. While the two copy goroutines run, the state holds the number of bytes each
  has delivered, once it has finished.
\<close>

datatype fpc =
    FStart bytes
  | FParsed directTCPIPPayload
  | FAcquired directTCPIPPayload
  | FDialed directTCPIPPayload
  | FPiping directTCPIPPayload "int option" "int option"
  | FReleased directTCPIPPayload int int
  | FDone

record fconn =
  fcount :: forwardCounter
  fthreads :: "nat \<Rightarrow> fpc option"
  feffects :: "nat \<Rightarrow> effect list"

definition fgoto :: "nat \<Rightarrow> fpc \<Rightarrow> effect list \<Rightarrow> fconn \<Rightarrow> fconn" where
  "fgoto i p es s = s\<lparr>fthreads := (fthreads s)(i \<mapsto> p), feffects := (feffects s)(i := feffects s i @ es)\<rparr>"

inductive fstep :: "unmarshal \<Rightarrow> string \<Rightarrow> fconn \<Rightarrow> fconn \<Rightarrow> bool"
  for unm :: unmarshal and remote :: string where
  spawn: "fthreads s i = None \<Longrightarrow> fstep unm remote s (fgoto i (FStart data) [] s)"
| malformed: "fthreads s i = Some (FStart data) \<Longrightarrow> parseDirectTCPIP unm data = Inl err \<Longrightarrow>
    fstep unm remote s (fgoto i FDone
      [Logs (Log_ForwardReject remote '''' 0 ''malformed-payload''), Rejects ConnectionFailed ''malformed direct-tcpip payload''] s)"
| parsed: "fthreads s i = Some (FStart data) \<Longrightarrow> parseDirectTCPIP unm data = Inr p \<Longrightarrow>
    fstep unm remote s (fgoto i (FParsed p) [] s)"
| over_cap: "fthreads s i = Some (FParsed p) \<Longrightarrow> fc_Acquire (fcount s) = (False, c) \<Longrightarrow>
    fstep unm remote s (fgoto i FDone
      [Logs (Log_ForwardReject remote (DestAddr p) (uint (DestPort p)) ''over-cap''), Rejects Prohibited ''too many concurrent forwards'']
      (s\<lparr>fcount := c\<rparr>))"
| acquired: "fthreads s i = Some (FParsed p) \<Longrightarrow> fc_Acquire (fcount s) = (True, c) \<Longrightarrow>
    fstep unm remote s (fgoto i (FAcquired p) [] (s\<lparr>fcount := c\<rparr>))"
| dial_failed: "fthreads s i = Some (FAcquired p) \<Longrightarrow>
    fstep unm remote s (fgoto i FDone
      [Logs (Log_ForwardReject remote (DestAddr p) (uint (DestPort p)) ''dial-failed''), Rejects ConnectionFailed (''dial failed: '' @ err)]
      (s\<lparr>fcount := fc_Release (fcount s)\<rparr>))"
| dialed: "fthreads s i = Some (FAcquired p) \<Longrightarrow> fstep unm remote s (fgoto i (FDialed p) [] s)"
| accept_failed: "fthreads s i = Some (FDialed p) \<Longrightarrow>
    fstep unm remote s (fgoto i FDone [ClosesTcp] (s\<lparr>fcount := fc_Release (fcount s)\<rparr>))"
| accepted: "fthreads s i = Some (FDialed p) \<Longrightarrow>
    fstep unm remote s (fgoto i (FPiping p None None)
      [Logs (Log_ForwardOpen remote (DestAddr p) (uint (DestPort p)) (OriginAddr p) (uint (OriginPort p)))] s)"
| copied_out: "fthreads s i = Some (FPiping p None bin) \<Longrightarrow>
    fstep unm remote s (fgoto i (FPiping p (Some n) bin) [ClosesTcpWrite] s)"
| copied_in: "fthreads s i = Some (FPiping p bout None) \<Longrightarrow>
    fstep unm remote s (fgoto i (FPiping p bout (Some n)) [ClosesChWrite] s)"
| joined: "fthreads s i = Some (FPiping p (Some bout) (Some bin)) \<Longrightarrow>
    fstep unm remote s (fgoto i (FReleased p bout bin) [ClosesCh, ClosesTcp] (s\<lparr>fcount := fc_Release (fcount s)\<rparr>))"
| closed: "fthreads s i = Some (FReleased p bout bin) \<Longrightarrow>
    fstep unm remote s (fgoto i FDone
      [Logs (Log_ForwardClose remote (DestAddr p) (uint (DestPort p)) bin bout duration)] s)"

definition finit :: "int \<Rightarrow> fconn \<Rightarrow> bool" where
  "finit maxf s \<longleftrightarrow> s = \<lparr> fcount = \<lparr> fcap = maxf, inflight = 0 \<rparr>, fthreads = (\<lambda>_. None), feffects = (\<lambda>_. []) \<rparr>"

section \<open>The invariant\<close>

fun holds :: "fpc \<Rightarrow> bool" where
  "holds (FAcquired p) = True"
| "holds (FDialed p) = True"
| "holds (FPiping p o1 o2) = True"
| "holds _ = False"

definition holders :: "fconn \<Rightarrow> nat set" where
  "holders s = {i. case fthreads s i of None \<Rightarrow> False | Some p \<Rightarrow> holds p}"

fun logs_of :: "effect list \<Rightarrow> log_event list" where
  "logs_of [] = []"
| "logs_of (Logs e # es) = e # logs_of es"
| "logs_of (_ # es) = logs_of es"

fun rejects_of :: "effect list \<Rightarrow> (RejectionReason \<times> string) list" where
  "rejects_of [] = []"
| "rejects_of (Rejects r m # es) = (r, m) # rejects_of es"
| "rejects_of (_ # es) = rejects_of es"

definition tcp_closes :: "effect list \<Rightarrow> nat" where
  "tcp_closes es = length (filter (\<lambda>e. e = ClosesTcp) es)"

definition open_event :: "string \<Rightarrow> directTCPIPPayload \<Rightarrow> log_event" where
  "open_event remote p = Log_ForwardOpen remote (DestAddr p) (uint (DestPort p)) (OriginAddr p) (uint (OriginPort p))"

text \<open>
  The three ways a forward ends: refused with one event and one rejection; given up silently because
  the channel could not be accepted, with the dialled connection closed; or run to completion with an open and a close event for the same
  destination, the dialled connection closed once and no rejection.
\<close>

inductive forward_end :: "string \<Rightarrow> effect list \<Rightarrow> bool" for remote :: string where
  refused: "reason \<in> {''malformed-payload'', ''over-cap'', ''dial-failed''} \<Longrightarrow>
    forward_end remote [Logs (Log_ForwardReject remote host port reason), Rejects r m]"
| given_up: "forward_end remote [ClosesTcp]"
| completed: "logs_of es = [open_event remote p, Log_ForwardClose remote (DestAddr p) (uint (DestPort p)) bin bout d] \<Longrightarrow>
    rejects_of es = [] \<Longrightarrow> tcp_closes es = 1 \<Longrightarrow> forward_end remote es"

fun fshape :: "string \<Rightarrow> fpc \<Rightarrow> effect list \<Rightarrow> bool" where
  "fshape remote (FPiping p o1 o2) es \<longleftrightarrow> logs_of es = [open_event remote p] \<and> rejects_of es = [] \<and> tcp_closes es = 0"
| "fshape remote (FReleased p n1 n2) es \<longleftrightarrow> logs_of es = [open_event remote p] \<and> rejects_of es = [] \<and> tcp_closes es = 1"
| "fshape remote FDone es \<longleftrightarrow> forward_end remote es"
| "fshape remote _ es \<longleftrightarrow> es = []"

definition finv :: "string \<Rightarrow> int \<Rightarrow> fconn \<Rightarrow> bool" where
  "finv remote maxf s \<longleftrightarrow>
     finite (holders s) \<and> fcap (fcount s) = maxf \<and> inflight (fcount s) = int (card (holders s))
     \<and> inflight (fcount s) \<le> max 0 maxf
     \<and> (\<forall>i. case fthreads s i of None \<Rightarrow> feffects s i = [] | Some p \<Rightarrow> fshape remote p (feffects s i))"

lemma logs_of_append [simp]: "logs_of (xs @ ys) = logs_of xs @ logs_of ys"
  by (induction xs rule: logs_of.induct) auto

lemma rejects_of_append [simp]: "rejects_of (xs @ ys) = rejects_of xs @ rejects_of ys"
  by (induction xs rule: rejects_of.induct) auto

lemma tcp_closes_simps [simp]:
  "tcp_closes [] = 0" "tcp_closes (xs @ ys) = tcp_closes xs + tcp_closes ys"
  "tcp_closes (e # es) = (if e = ClosesTcp then 1 else 0) + tcp_closes es"
  by (simp_all add: tcp_closes_def)

lemma fgoto_simps [simp]:
  "fcount (fgoto i p es s) = fcount s"
  "fthreads (fgoto i p es s) = (fthreads s)(i \<mapsto> p)"
  "feffects (fgoto i p es s) = (feffects s)(i := feffects s i @ es)"
  by (simp_all add: fgoto_def)

lemma holders_fgoto: "holders (fgoto i p es s) = (if holds p then insert i (holders s) else holders s - {i})"
  by (auto simp: holders_def)

lemma holders_count [simp]: "holders (s\<lparr>fcount := c\<rparr>) = holders s"
  by (simp add: holders_def)

text \<open>A step of one thread keeps the shapes if the thread's own new shape holds.\<close>

lemma finv_fgoto:
  assumes "finv remote maxf s" and "fshape remote p (feffects s i @ es)"
    and "fcap c = maxf" and "inflight c = int (card (holders (fgoto i p es s)))" and "inflight c \<le> max 0 maxf"
  shows "finv remote maxf (fgoto i p es (s\<lparr>fcount := c\<rparr>))"
proof -
  have "holders (fgoto i p es (s\<lparr>fcount := c\<rparr>)) = holders (fgoto i p es s)"
    by (simp add: holders_fgoto)
  moreover have "finite (holders (fgoto i p es s))"
    using assms(1) by (simp add: holders_fgoto finv_def)
  moreover have "case fthreads (fgoto i p es (s\<lparr>fcount := c\<rparr>)) j of
      None \<Rightarrow> feffects (fgoto i p es (s\<lparr>fcount := c\<rparr>)) j = []
    | Some q \<Rightarrow> fshape remote q (feffects (fgoto i p es (s\<lparr>fcount := c\<rparr>)) j)" for j
  proof (cases "j = i")
    case True
    with assms(2) show ?thesis by simp
  next
    case False
    have "case fthreads s j of None \<Rightarrow> feffects s j = [] | Some q \<Rightarrow> fshape remote q (feffects s j)"
      using assms(1) by (simp add: finv_def)
    with False show ?thesis by (cases "fthreads s j") simp_all
  qed
  ultimately show ?thesis
    using assms(3-5) unfolding finv_def by simp
qed

lemma finv_shape: "finv remote maxf s \<Longrightarrow> fthreads s i = Some p \<Longrightarrow> fshape remote p (feffects s i)"
  unfolding finv_def by (metis option.simps(5))

text \<open>The three kinds of steps: those that do not touch the counter, that take a slot, that return one.\<close>

lemma finv_plain:
  assumes "finv remote maxf s" and "fthreads s i = po" and "(case po of None \<Rightarrow> False | Some q \<Rightarrow> holds q) = holds p"
    and "fshape remote p (feffects s i @ es)"
  shows "finv remote maxf (fgoto i p es s)"
proof -
  have "holders (fgoto i p es s) = holders s"
    using assms(2,3) by (auto simp: holders_fgoto holders_def split: option.splits)
  then have "finv remote maxf (fgoto i p es (s\<lparr>fcount := fcount s\<rparr>))"
    using assms(1) by (intro finv_fgoto assms) (simp_all add: finv_def)
  then show ?thesis by simp
qed

lemma finv_take:
  assumes "finv remote maxf s" and "fthreads s i = Some q" and "\<not> holds q" and "holds p"
    and "fshape remote p (feffects s i @ es)" and "fc_Acquire (fcount s) = (True, c)"
  shows "finv remote maxf (fgoto i p es (s\<lparr>fcount := c\<rparr>))"
proof -
  have i: "i \<notin> holders s" using assms(2,3) by (simp add: holders_def)
  have "inflight c = inflight (fcount s) + 1" "fcap c = fcap (fcount s)" "inflight (fcount s) < fcap (fcount s)"
    using assms(6) by (auto simp: fc_Acquire_def split: if_splits)
  with assms(1,4) i show ?thesis
    by (intro finv_fgoto assms) (simp_all add: finv_def holders_fgoto)
qed

lemma finv_return:
  assumes "finv remote maxf s" and "fthreads s i = Some q" and "holds q" and "\<not> holds p"
    and "fshape remote p (feffects s i @ es)"
  shows "finv remote maxf (fgoto i p es (s\<lparr>fcount := fc_Release (fcount s)\<rparr>))"
proof -
  have i: "i \<in> holders s" using assms(2,3) by (simp add: holders_def)
  with assms(1) have pos: "0 < card (holders s)" by (auto simp: finv_def card_gt_0_iff)
  then have "inflight (fc_Release (fcount s)) = inflight (fcount s) - 1" "fcap (fc_Release (fcount s)) = fcap (fcount s)"
    using assms(1) by (simp_all add: fc_Release_def finv_def)
  with assms(1,4) i pos show ?thesis
    by (intro finv_fgoto assms) (simp_all add: finv_def holders_fgoto card_Diff_singleton of_nat_diff)
qed

lemma finv_step:
  assumes "finv remote maxf s" and "fstep unm remote s s'"
  shows "finv remote maxf s'"
proof -
  note shape = finv_shape [OF assms(1)] and plain = finv_plain [OF assms(1)] and return = finv_return [OF assms(1)]
  from assms(2) show ?thesis
  proof cases
    case (spawn i data)
    have "feffects s i = []" using assms(1) spawn unfolding finv_def by (metis option.simps(4))
    with spawn show ?thesis by (auto intro!: plain)
  next
    case (malformed i data err)
    with shape [of i "FStart data"] show ?thesis by (auto intro!: plain forward_end.refused)
  next
    case (over_cap i p c)
    then have "c = fcount s" by (auto simp: fc_Acquire_def split: if_splits)
    with over_cap shape [of i "FParsed p"] show ?thesis by (auto intro!: plain forward_end.refused)
  next
    case (acquired i p c)
    with shape [of i "FParsed p"] show ?thesis by (auto intro!: finv_take [OF assms(1)])
  next
    case (dial_failed i p err)
    with shape [of i "FAcquired p"] show ?thesis by (auto intro!: return forward_end.refused)
  next
    case (accept_failed i p)
    with shape [of i "FDialed p"] show ?thesis by (auto intro!: return forward_end.given_up)
  next
    case (joined i p bout bin)
    with shape [of i "FPiping p (Some bout) (Some bin)"] show ?thesis by (auto intro!: return)
  next
    case (closed i p bout bin duration)
    with shape [of i "FReleased p bout bin"] have "forward_end remote (feffects s i @
        [Logs (Log_ForwardClose remote (DestAddr p) (uint (DestPort p)) bin bout duration)])"
      by (intro forward_end.completed [of _ _ p bin bout duration]) fastforce+
    with closed show ?thesis by (auto intro!: plain)
  qed (auto intro!: plain dest: shape simp: open_event_def)
qed

interpretation fwd: inv_system "finit maxf" "fstep unm remote" "finv remote maxf" for maxf unm remote
proof
  fix s assume "finit maxf s"
  then show "finv remote maxf s" by (simp add: finit_def finv_def holders_def)
qed (rule finv_step)

section \<open>Properties\<close>

text \<open>
  C18: In every state a connection can reach, under every interleaving of its forward handlers, the number of slots counted
  as taken equals the number of handlers between a successful \<^verbatim>\<open>Acquire\<close> and their \<^verbatim>\<open>Release\<close>, and it never exceeds the cap;
  with a cap of zero or less no handler ever dials. So no path releases a slot twice or forgets one.
\<close>

theorem forward_cap:
  assumes "reach (finit maxf) (fstep unm remote) s"
  shows "inflight (fcount s) = int (card (holders s)) \<and> int (card (holders s)) \<le> max 0 maxf
    \<and> finite (holders s) \<and> (0 < maxf \<or> holders s = {})"
proof -
  have inv: "finv remote maxf s" using fwd.reach_inv [OF assms] .
  then have "0 < maxf \<or> card (holders s) = 0" by (auto simp: finv_def)
  with inv show ?thesis by (auto simp: finv_def)
qed

definition sample_payload :: directTCPIPPayload where
  "sample_payload = \<lparr> DestAddr = ''::1'', DestPort = 80, OriginAddr = ''a'', OriginPort = 0 \<rparr>"

definition sample_conn :: fconn where
  "sample_conn = \<lparr> fcount = \<lparr> fcap = 1, inflight = 0 \<rparr>, fthreads = (\<lambda>_. None), feffects = (\<lambda>_. []) \<rparr>"

definition sample_busy :: fconn where
  "sample_busy = fgoto 0 (FAcquired sample_payload) []
     ((fgoto 0 (FParsed sample_payload) [] (fgoto 0 (FStart []) [] sample_conn))\<lparr>fcount := \<lparr> fcap = 1, inflight = 1 \<rparr>\<rparr>)"

lemma sample_busy_reach: "reach (finit 1) (fstep (\<lambda>_. Inr sample_payload) ''r'') sample_busy"
proof -
  let ?unm = "\<lambda>_ :: bytes. Inr sample_payload :: string + directTCPIPPayload"
  let ?s1 = "fgoto 0 (FStart []) [] sample_conn" and ?s2 = "fgoto 0 (FParsed sample_payload) [] (fgoto 0 (FStart []) [] sample_conn)"
  have r0: "reach (finit 1) (fstep ?unm ''r'') sample_conn"
    by (rule reach.reach_init) (simp add: finit_def sample_conn_def)
  have "fstep ?unm ''r'' sample_conn ?s1" by (rule fstep.spawn) (simp add: sample_conn_def)
  with r0 have r1: "reach (finit 1) (fstep ?unm ''r'') ?s1" by (rule reach.reach_step)
  have "fstep ?unm ''r'' ?s1 ?s2"
    by (rule fstep.parsed [where data = "[]"]) (simp_all add: parseDirectTCPIP_def sample_payload_def word_less_nat_alt)
  with r1 have r2: "reach (finit 1) (fstep ?unm ''r'') ?s2" by (rule reach.reach_step)
  have "fstep ?unm ''r'' ?s2 sample_busy"
    unfolding sample_busy_def by (rule fstep.acquired) (simp_all add: sample_conn_def fc_Acquire_def)
  with r2 show ?thesis by (rule reach.reach_step)
qed

theorem forward_cap_witness:
  "holders sample_busy = {0} \<and> inflight (fcount sample_busy) = int (card (holders sample_busy))"
  using forward_cap [OF sample_busy_reach] by (auto simp: sample_busy_def holders_fgoto holders_def sample_conn_def)

text \<open>
  C30: Every forward handler that has finished, whatever the network did, has either refused the channel with exactly one \<^verbatim>\<open>forward-reject\<close> event
  and one rejection, or closed the dialled connection once because the channel could not be
  accepted, or logged one \<^verbatim>\<open>forward-open\<close> and then one \<^verbatim>\<open>forward-close\<close> for the same destination and closed the dialled connection once.
\<close>

theorem forward_ends:
  assumes "reach (finit maxf) (fstep unm remote) s" and "fthreads s i = Some FDone"
  shows "forward_end remote (feffects s i)"
  using finv_shape [OF fwd.reach_inv [OF assms(1)] assms(2)] by simp

theorem forward_ends_witness:
  "forward_end ''r'' [Logs (Log_ForwardReject ''r'' ''::1'' 80 ''dial-failed''), Rejects ConnectionFailed ''dial failed: refused'']"
proof -
  let ?s = "fgoto 0 FDone
      [Logs (Log_ForwardReject ''r'' (DestAddr sample_payload) (uint (DestPort sample_payload)) ''dial-failed''), Rejects ConnectionFailed (''dial failed: '' @ ''refused'')]
      (sample_busy\<lparr>fcount := fc_Release (fcount sample_busy)\<rparr>)"
  have "fstep (\<lambda>_. Inr sample_payload) ''r'' sample_busy ?s"
    by (rule fstep.dial_failed) (simp add: sample_busy_def)
  with sample_busy_reach have "reach (finit 1) (fstep (\<lambda>_. Inr sample_payload) ''r'') ?s" by (rule reach.reach_step)
  from forward_ends [OF this, of 0] show ?thesis
    by (simp add: sample_busy_def sample_conn_def sample_payload_def)
qed

text \<open>
  The address handed to the dialler denotes the requested destination: splitting it again gives the requested host and the decimal port, for names, IPv4 and
  IPv6 hosts alike, and a payload that is not refused has a port between 1 and 65535.
\<close>

theorem dialAddr_roundtrip:
  assumes "parseDirectTCPIP unm data = Inr p" and "CHR ''['' \<notin> set (DestAddr p)" and "CHR '']'' \<notin> set (DestAddr p)"
  shows "SplitHostPort (dialAddr p) = Some (DestAddr p, show_int (uint (DestPort p)))
    \<and> 1 \<le> uint (DestPort p) \<and> uint (DestPort p) \<le> 65535"
proof -
  have "DestPort p \<noteq> 0" "\<not> DestPort p > 65535"
    using assms(1) by (auto simp: parseDirectTCPIP_def split: sum.splits if_splits)
  then have "uint (DestPort p) \<noteq> 0" "uint (DestPort p) \<le> 65535"
    by (simp_all add: uint_0_iff word_le_def not_less)
  moreover have "0 \<le> uint (DestPort p)" by simp
  ultimately have "1 \<le> uint (DestPort p) \<and> uint (DestPort p) \<le> 65535" by linarith
  then show ?thesis
    using Split_JoinHostPort [OF assms(2,3) show_int_no_sep, of "uint (DestPort p)"] by (simp add: dialAddr_def)
qed

theorem dialAddr_roundtrip_witness:
  "SplitHostPort (dialAddr sample_payload) = Some (''::1'', ''80'')"
proof -
  have "parseDirectTCPIP (\<lambda>_. Inr sample_payload) [] = Inr sample_payload"
    by (simp add: parseDirectTCPIP_def sample_payload_def word_less_nat_alt)
  from dialAddr_roundtrip [OF this] show ?thesis
    by (simp add: sample_payload_def show_int_def show_nat.simps digit_char_def) code_simp
qed

end
