(* ===== verification/ServeSteps.thy ===== *)
theory ServeSteps
  imports ServerConfig Forward
begin

text \<open>
  \<^verbatim>\<open>Serve\<close> and \<^verbatim>\<open>handleConn\<close> of \<^verbatim>\<open>internal/server/server.go\<close> as one step system. Its threads are the accept loop, the
  shutdown watcher, the goroutine that waits for the two wait groups, one goroutine per connection and one
  per session or forward channel. A step is what a thread does between two points at which others can
  interfere. Time passes by ticks; the wait groups are the counters of the code.

  What a handler goroutine does on its channel is the subject of the session and forward theories;
  here it is only alive or finished. What the network and the SSH library contribute is in the labels
  of the steps: accepted connections, handshake results, opened channels, the end of a connection.
\<close>

section \<open>State\<close>

definition drainTimeout :: nanos where "drainTimeout = 5 * Second"

datatype conn_pc = ConnSpawned | Handshaking | Serving | ConnGone

record conn =
  cn_pc :: conn_pc
  cn_remote :: string
  cn_start :: nanos

datatype serve_pc = Accepting | Draining nanos | Checking | Nudging nanos | Returned

datatype watcher_pc = Watching | ListenerClosed | ConnsCancelled | ShutdownDone

datatype waiter_pc = NotStarted | WaitConns | WaitSessions | ConnsDone

record serve_state =
  sv_ctx_done :: bool
  sv_conns_cancelled :: bool
  sv_watcher :: watcher_pc
  sv_pc :: serve_pc
  sv_waiter :: waiter_pc
  sv_conns :: "nat \<Rightarrow> conn option"
  sv_handlers :: "nat \<Rightarrow> nat option"
  sv_connsWG :: int
  sv_sessionsWG :: int
  sv_now :: nanos
  sv_logs :: "log_event list"

definition start_state :: "nanos \<Rightarrow> serve_state" where
  "start_state t = \<lparr> sv_ctx_done = False, sv_conns_cancelled = False, sv_watcher = Watching, sv_pc = Accepting,
     sv_waiter = NotStarted, sv_conns = Map.empty, sv_handlers = Map.empty, sv_connsWG = 0, sv_sessionsWG = 0,
     sv_now = t, sv_logs = [] \<rparr>"

definition serve_init :: "serve_state \<Rightarrow> bool" where
  "serve_init s \<longleftrightarrow> (\<exists>t. s = start_state t)"

definition listener_closed :: "serve_state \<Rightarrow> bool" where
  "listener_closed s \<longleftrightarrow> sv_watcher s \<noteq> Watching"

text \<open>The cap on the wait at shutdown: \<^verbatim>\<open>cfg.DrainTimeout\<close> or the default.\<close>

definition drain_cap :: "'s Config \<Rightarrow> nanos" where
  "drain_cap cfg = (if cfg_DrainTimeout cfg = 0 then drainTimeout else cfg_DrainTimeout cfg)"

definition set_conn :: "nat \<Rightarrow> conn_pc \<Rightarrow> serve_state \<Rightarrow> serve_state" where
  "set_conn c p s = s\<lparr>sv_conns := (sv_conns s)(c := map_option (\<lambda>cn. cn\<lparr>cn_pc := p\<rparr>) (sv_conns s c))\<rparr>"

definition add_log :: "log_event list \<Rightarrow> serve_state \<Rightarrow> serve_state" where
  "add_log es s = s\<lparr>sv_logs := sv_logs s @ es\<rparr>"

text \<open>The deferred end of \<^verbatim>\<open>handleConn\<close>: the conn-close event and \<^verbatim>\<open>connsWG.Done\<close>.\<close>

definition conn_end :: "nat \<Rightarrow> conn \<Rightarrow> serve_state \<Rightarrow> serve_state" where
  "conn_end c cn s =
     (let s = set_conn c ConnGone (add_log [Log_ConnClose (cn_remote cn) (sv_now s - cn_start cn)] s)
      in s\<lparr>sv_connsWG := sv_connsWG s - 1\<rparr>)"

text \<open>
  The context \<^verbatim>\<open>connCtx\<close> that the handlers of a connection get: it ends with the context of all connections, and by the deferred \<^verbatim>\<open>cancelConn\<close>
  when \<^verbatim>\<open>handleConn\<close> returns.
\<close>

definition connCtx_done :: "serve_state \<Rightarrow> nat \<Rightarrow> bool" where
  "connCtx_done s c \<longleftrightarrow> sv_conns_cancelled s \<or> (\<exists>cn. sv_conns s c = Some cn \<and> cn_pc cn = ConnGone)"

definition conn_at :: "serve_state \<Rightarrow> nat \<Rightarrow> conn_pc \<Rightarrow> conn \<Rightarrow> bool" where
  "conn_at s c p cn \<longleftrightarrow> sv_conns s c = Some cn \<and> cn_pc cn = p"

section \<open>Steps\<close>

datatype label =
    Cancel | Tick nanos | Watcher
  | AcceptOK nat string | AcceptErr "string option"
  | ConnStart nat | HandshakeOK nat | HandshakeFail nat handshake_error
  | ChannelRejected nat string | ChannelFailed nat string | ChannelHandled nat string nat
  | GlobalRequest nat ssh_request | PeerClosed nat | HandlerEnd nat
  | Waiter | Main

inductive serve_step :: "nanos \<Rightarrow> label \<Rightarrow> serve_state \<Rightarrow> serve_state \<Rightarrow> bool" for cap :: nanos where
  cancel: "serve_step cap Cancel s (s\<lparr>sv_ctx_done := True\<rparr>)"
| tick: "0 < d \<Longrightarrow> serve_step cap (Tick d) s (s\<lparr>sv_now := sv_now s + d\<rparr>)"
| watch_close: "sv_watcher s = Watching \<Longrightarrow> sv_ctx_done s \<Longrightarrow> serve_step cap Watcher s (s\<lparr>sv_watcher := ListenerClosed\<rparr>)"
| watch_cancel: "sv_watcher s = ListenerClosed \<Longrightarrow>
    serve_step cap Watcher s (s\<lparr>sv_watcher := ConnsCancelled, sv_conns_cancelled := True\<rparr>)"
| watch_done: "sv_watcher s = ConnsCancelled \<Longrightarrow> serve_step cap Watcher s (s\<lparr>sv_watcher := ShutdownDone\<rparr>)"
| accept_ok: "sv_pc s = Accepting \<Longrightarrow> \<not> listener_closed s \<Longrightarrow> sv_conns s c = None \<Longrightarrow>
    serve_step cap (AcceptOK c remote) s
      (s\<lparr>sv_conns := (sv_conns s)(c \<mapsto> \<lparr> cn_pc = ConnSpawned, cn_remote = remote, cn_start = 0 \<rparr>),
         sv_connsWG := sv_connsWG s + 1\<rparr>)"
| accept_err: "sv_pc s = Accepting \<Longrightarrow> (e = None \<longrightarrow> listener_closed s) \<Longrightarrow>
    serve_step cap (AcceptErr e) s
      ((add_log (case e of None \<Rightarrow> [] | Some m \<Rightarrow> [Log_Error (''accept: '' @ m) '''']) s)
         \<lparr>sv_conns_cancelled := True, sv_pc := Draining (sv_now s + cap), sv_waiter := WaitConns\<rparr>)"
| conn_start: "conn_at s c ConnSpawned cn \<Longrightarrow>
    serve_step cap (ConnStart c) s
      (add_log [Log_ConnOpen (cn_remote cn)]
        (s\<lparr>sv_conns := (sv_conns s)(c \<mapsto> cn\<lparr>cn_pc := Handshaking, cn_start := sv_now s\<rparr>)\<rparr>))"
| handshake_fail: "conn_at s c Handshaking cn \<Longrightarrow>
    serve_step cap (HandshakeFail c err) s
      (conn_end c cn (add_log (if isExpectedHandshakeError (Some err) then []
         else [Log_Error (''handshake: '' @ handshake_message err) (cn_remote cn)]) s))"
| handshake_ok: "conn_at s c Handshaking cn \<Longrightarrow> serve_step cap (HandshakeOK c) s (set_conn c Serving s)"
| channel_rejected: "conn_at s c Serving cn \<Longrightarrow> classifyChannel t (cn_remote cn) = (actionRejected, es) \<Longrightarrow>
    serve_step cap (ChannelRejected c t) s (add_log (logs_of es) s)"
| channel_failed: "conn_at s c Serving cn \<Longrightarrow> classifyChannel t (cn_remote cn) = (actionSession, es) \<Longrightarrow>
    serve_step cap (ChannelFailed c t) s (add_log [Log_Error (''accept channel: '' @ m) (cn_remote cn)] s)"
| channel_handled: "conn_at s c Serving cn \<Longrightarrow> fst (classifyChannel t (cn_remote cn)) \<in> {actionSession, actionForward} \<Longrightarrow>
    sv_handlers s h = None \<Longrightarrow>
    serve_step cap (ChannelHandled c t h) s
      (s\<lparr>sv_handlers := (sv_handlers s)(h \<mapsto> c), sv_sessionsWG := sv_sessionsWG s + 1\<rparr>)"
| global_request: "conn_at s c Serving cn \<Longrightarrow>
    serve_step cap (GlobalRequest c req) s (add_log (fst (handleGlobalRequest req (cn_remote cn))) s)"
| peer_closed: "conn_at s c Serving cn \<Longrightarrow> serve_step cap (PeerClosed c) s (conn_end c cn s)"
| handler_end: "sv_handlers s h = Some c \<Longrightarrow>
    serve_step cap (HandlerEnd h) s (s\<lparr>sv_handlers := (sv_handlers s)(h := None), sv_sessionsWG := sv_sessionsWG s - 1\<rparr>)"
| wait_conns: "sv_waiter s = WaitConns \<Longrightarrow> sv_connsWG s = 0 \<Longrightarrow> serve_step cap Waiter s (s\<lparr>sv_waiter := WaitSessions\<rparr>)"
| wait_sessions: "sv_waiter s = WaitSessions \<Longrightarrow> sv_sessionsWG s = 0 \<Longrightarrow> serve_step cap Waiter s (s\<lparr>sv_waiter := ConnsDone\<rparr>)"
| drained: "sv_pc s = Draining d \<Longrightarrow> sv_waiter s = ConnsDone \<or> d \<le> sv_now s \<Longrightarrow>
    serve_step cap Main s (s\<lparr>sv_pc := Checking\<rparr>)"
| check_done: "sv_pc s = Checking \<Longrightarrow> sv_watcher s = ShutdownDone \<Longrightarrow>
    serve_step cap Main s (s\<lparr>sv_pc := Returned, sv_conns_cancelled := True\<rparr>)"
| check_nudge: "sv_pc s = Checking \<Longrightarrow> sv_watcher s \<noteq> ShutdownDone \<Longrightarrow>
    serve_step cap Main s (s\<lparr>sv_pc := Nudging (sv_now s + 100 * 1000000)\<rparr>)"
| nudged: "sv_pc s = Nudging d \<Longrightarrow> sv_watcher s = ShutdownDone \<or> d \<le> sv_now s \<Longrightarrow>
    serve_step cap Main s (s\<lparr>sv_pc := Returned, sv_conns_cancelled := True\<rparr>)"

inductive_cases serve_stepE: "serve_step cap l s t"

definition serve_next :: "nanos \<Rightarrow> serve_state \<Rightarrow> serve_state \<Rightarrow> bool" where
  "serve_next cap s t \<longleftrightarrow> (\<exists>l. serve_step cap l s t)"

section \<open>The invariant\<close>

definition active :: "serve_state \<Rightarrow> nat set" where
  "active s = {c. \<exists>cn. sv_conns s c = Some cn \<and> cn_pc cn \<noteq> ConnGone}"

definition wait_groups :: "serve_state \<Rightarrow> bool" where
  "wait_groups s \<longleftrightarrow> finite (active s) \<and> finite (dom (sv_handlers s)) \<and>
     sv_connsWG s = int (card (active s)) \<and> sv_sessionsWG s = int (card (dom (sv_handlers s)))"

definition waiting :: "serve_state \<Rightarrow> bool" where
  "waiting s \<longleftrightarrow>
     (sv_waiter s = NotStarted \<longleftrightarrow> sv_pc s = Accepting) \<and>
     (sv_pc s \<noteq> Accepting \<longrightarrow> sv_conns_cancelled s) \<and>
     (sv_waiter s \<in> {WaitSessions, ConnsDone} \<longrightarrow> active s = {}) \<and>
     (sv_waiter s = ConnsDone \<longrightarrow> sv_handlers s = Map.empty) \<and>
     (sv_watcher s \<noteq> Watching \<longrightarrow> sv_ctx_done s)"

definition deadlines :: "nanos \<Rightarrow> serve_state \<Rightarrow> bool" where
  "deadlines cap s \<longleftrightarrow> (\<forall>d. sv_pc s = Draining d \<longrightarrow> d \<le> sv_now s + cap)"

definition serve_inv :: "nanos \<Rightarrow> serve_state \<Rightarrow> bool" where
  "serve_inv cap s \<longleftrightarrow> wait_groups s \<and> waiting s \<and> deadlines cap s"

lemma active_simps [simp]:
  "active (s\<lparr>sv_ctx_done := b\<rparr>) = active s" "active (s\<lparr>sv_now := n\<rparr>) = active s" "active (s\<lparr>sv_watcher := w\<rparr>) = active s"
  "active (s\<lparr>sv_conns_cancelled := b\<rparr>) = active s" "active (s\<lparr>sv_pc := p\<rparr>) = active s" "active (s\<lparr>sv_waiter := v\<rparr>) = active s"
  "active (s\<lparr>sv_handlers := h\<rparr>) = active s" "active (s\<lparr>sv_sessionsWG := i\<rparr>) = active s" "active (s\<lparr>sv_connsWG := i\<rparr>) = active s"
  "active (add_log es s) = active s"
  by (simp_all add: active_def add_log_def)

lemma add_log_simps [simp]:
  "sv_ctx_done (add_log es s) = sv_ctx_done s" "sv_conns_cancelled (add_log es s) = sv_conns_cancelled s"
  "sv_watcher (add_log es s) = sv_watcher s" "sv_pc (add_log es s) = sv_pc s" "sv_waiter (add_log es s) = sv_waiter s"
  "sv_conns (add_log es s) = sv_conns s" "sv_handlers (add_log es s) = sv_handlers s" "sv_connsWG (add_log es s) = sv_connsWG s"
  "sv_sessionsWG (add_log es s) = sv_sessionsWG s" "sv_now (add_log es s) = sv_now s" "sv_logs (add_log es s) = sv_logs s @ es"
  by (simp_all add: add_log_def)

lemma set_conn_simps [simp]:
  "sv_ctx_done (set_conn c p s) = sv_ctx_done s" "sv_conns_cancelled (set_conn c p s) = sv_conns_cancelled s"
  "sv_watcher (set_conn c p s) = sv_watcher s" "sv_pc (set_conn c p s) = sv_pc s" "sv_waiter (set_conn c p s) = sv_waiter s"
  "sv_handlers (set_conn c p s) = sv_handlers s" "sv_connsWG (set_conn c p s) = sv_connsWG s"
  "sv_sessionsWG (set_conn c p s) = sv_sessionsWG s" "sv_now (set_conn c p s) = sv_now s" "sv_logs (set_conn c p s) = sv_logs s"
  by (simp_all add: set_conn_def)

lemma conn_end_simps [simp]:
  "sv_ctx_done (conn_end c cn s) = sv_ctx_done s" "sv_conns_cancelled (conn_end c cn s) = sv_conns_cancelled s"
  "sv_watcher (conn_end c cn s) = sv_watcher s" "sv_pc (conn_end c cn s) = sv_pc s" "sv_waiter (conn_end c cn s) = sv_waiter s"
  "sv_handlers (conn_end c cn s) = sv_handlers s" "sv_connsWG (conn_end c cn s) = sv_connsWG s - 1"
  "sv_sessionsWG (conn_end c cn s) = sv_sessionsWG s" "sv_now (conn_end c cn s) = sv_now s"
  "sv_logs (conn_end c cn s) = sv_logs s @ [Log_ConnClose (cn_remote cn) (sv_now s - cn_start cn)]"
  by (simp_all add: conn_end_def Let_def)

lemma active_set_conn:
  "conn_at s c p cn \<Longrightarrow> p' \<noteq> ConnGone \<Longrightarrow> active (set_conn c p' s) = insert c (active s)"
  by (auto simp: active_def set_conn_def conn_at_def)

lemma active_conn_end: "active (conn_end c cn s) = active s - {c}"
  by (auto simp: active_def conn_end_def set_conn_def add_log_def Let_def)

lemma active_upd_conn:
  "cn_pc cn \<noteq> ConnGone \<Longrightarrow> active (s\<lparr>sv_conns := (sv_conns s)(c \<mapsto> cn)\<rparr>) = insert c (active s)"
  by (auto simp: active_def)

lemma conn_at_active: "conn_at s c p cn \<Longrightarrow> p \<noteq> ConnGone \<Longrightarrow> c \<in> active s"
  by (auto simp: conn_at_def active_def)

lemmas active_rules = active_set_conn active_conn_end active_upd_conn insert_absorb conn_at_active

lemma wait_groups_step:
  assumes "serve_step cap l s t" and "wait_groups s"
  shows "wait_groups t"
  using assms
proof (cases rule: serve_step.cases)
  case (accept_ok c remote)
  then have "c \<notin> active s" by (simp add: active_def)
  with accept_ok assms(2) show ?thesis
    by (simp add: wait_groups_def active_upd_conn)
next
  case (conn_start c cn)
  from conn_at_active [OF conn_start(3)] have "c \<in> active s" by simp
  with conn_start assms(2) show ?thesis
    by (simp add: wait_groups_def active_upd_conn insert_absorb)
next
  case (handshake_fail c cn err)
  from conn_at_active [OF handshake_fail(3)] have "c \<in> active s" by simp
  with handshake_fail assms(2) card_gt_0_iff [of "active s"] show ?thesis
    by (auto simp: wait_groups_def active_conn_end)
next
  case (handshake_ok c cn)
  from conn_at_active [OF handshake_ok(3)] have "c \<in> active s" by simp
  with handshake_ok assms(2) show ?thesis
    by (simp add: wait_groups_def active_set_conn [OF handshake_ok(3)] insert_absorb)
next
  case (channel_handled c cn t h)
  then have "h \<notin> dom (sv_handlers s)" by auto
  with channel_handled assms(2) show ?thesis by (simp add: wait_groups_def)
next
  case (peer_closed c cn)
  from conn_at_active [OF peer_closed(3)] have "c \<in> active s" by simp
  with peer_closed assms(2) card_gt_0_iff [of "active s"] show ?thesis
    by (auto simp: wait_groups_def active_conn_end)
next
  case (handler_end h c)
  then have "h \<in> dom (sv_handlers s)" by auto
  with handler_end assms(2) card_gt_0_iff [of "dom (sv_handlers s)"] show ?thesis
    by (auto simp: wait_groups_def)
qed (simp_all add: wait_groups_def)

lemma waiting_step:
  assumes "serve_step cap l s t" and "wait_groups s" and "waiting s"
  shows "waiting t"
  using assms(1)
proof (cases rule: serve_step.cases)
  case (accept_ok c remote)
  with assms(3) show ?thesis by (auto simp: waiting_def)
next
  case (conn_start c cn)
  from conn_at_active [OF conn_start(3)] have "active s \<noteq> {}" by auto
  with conn_start assms(3) show ?thesis by (auto simp: waiting_def)
next
  case (handshake_fail c cn err)
  with assms(3) show ?thesis by (auto simp: waiting_def active_conn_end)
next
  case (handshake_ok c cn)
  from conn_at_active [OF handshake_ok(3)] have "active s \<noteq> {}" by auto
  with handshake_ok assms(3) show ?thesis by (auto simp: waiting_def)
next
  case (channel_handled c cn t h)
  from conn_at_active [OF channel_handled(3)] have "active s \<noteq> {}" by auto
  with channel_handled assms(3) show ?thesis by (auto simp: waiting_def)
next
  case (peer_closed c cn)
  with assms(3) show ?thesis by (auto simp: waiting_def active_conn_end)
next
  case (handler_end h c)
  with assms(3) show ?thesis by (auto simp: waiting_def)
next
  case wait_conns
  with assms(2,3) show ?thesis by (auto simp: waiting_def wait_groups_def)
next
  case wait_sessions
  with assms(2,3) show ?thesis by (auto simp: waiting_def wait_groups_def)
qed (use assms(3) in \<open>auto simp: waiting_def\<close>)

lemma deadlines_step: "serve_step cap l s t \<Longrightarrow> deadlines cap s \<Longrightarrow> deadlines cap t"
  by (cases rule: serve_step.cases) (auto simp: deadlines_def)

interpretation srv: inv_system serve_init "serve_next cap" "serve_inv cap" for cap
proof
  fix s assume "serve_init s"
  then show "serve_inv cap s"
    by (auto simp: serve_init_def start_state_def serve_inv_def wait_groups_def waiting_def deadlines_def active_def)
next
  fix s t assume "serve_inv cap s" and "serve_next cap s t"
  then show "serve_inv cap t"
    using wait_groups_step waiting_step deadlines_step by (auto simp: serve_inv_def serve_next_def)
qed

section \<open>Shutdown\<close>

text \<open>The steps the server takes by itself, without clients, handlers or new connections.\<close>

fun own :: "label \<Rightarrow> bool" where
  "own Watcher = True"
| "own (AcceptErr None) = True"
| "own (Tick _) = True"
| "own Main = True"
| "own _ = False"

definition own_step :: "nanos \<Rightarrow> serve_state \<Rightarrow> serve_state \<Rightarrow> bool" where
  "own_step cap s t \<longleftrightarrow> (\<exists>l. own l \<and> serve_step cap l s t)"

lemma own_stepI: "serve_step cap l s t \<Longrightarrow> own l \<Longrightarrow> own_step cap s t"
  by (auto simp: own_step_def)

definition own_leads :: "nanos \<Rightarrow> serve_state \<Rightarrow> (serve_state \<Rightarrow> bool) \<Rightarrow> bool" where
  "own_leads cap s P \<longleftrightarrow> (\<exists>t. (own_step cap)\<^sup>*\<^sup>* s t \<and> P t)"

lemma own_leads_now: "P s \<Longrightarrow> own_leads cap s P"
  by (auto simp: own_leads_def)

lemma own_leads_step: "serve_step cap l s u \<Longrightarrow> own l \<Longrightarrow> own_leads cap u P \<Longrightarrow> own_leads cap s P"
  by (auto simp: own_leads_def intro: converse_rtranclp_into_rtranclp own_stepI)

lemma own_leads_trans: "own_leads cap s P \<Longrightarrow> (\<And>u. P u \<Longrightarrow> own_leads cap u Q) \<Longrightarrow> own_leads cap s Q"
  by (auto simp: own_leads_def) (meson rtranclp_trans)

lemma watcher_finishes:
  assumes "sv_ctx_done s"
  shows "own_leads cap s (\<lambda>t. sv_watcher t = ShutdownDone \<and> sv_now t = sv_now s \<and> sv_pc t = sv_pc s)"
proof -
  let ?P = "\<lambda>u t. sv_watcher t = ShutdownDone \<and> sv_now t = sv_now u \<and> sv_pc t = sv_pc u"
  have c: "own_leads cap u (?P u)" if "sv_watcher u = ConnsCancelled" for u
    by (rule own_leads_step [OF watch_done [OF that]]) (simp, rule own_leads_now, simp)
  have b: "own_leads cap u (?P u)" if "sv_watcher u = ListenerClosed" for u
    by (rule own_leads_step [OF watch_cancel [OF that]])
      (use c [of "u\<lparr>sv_watcher := ConnsCancelled, sv_conns_cancelled := True\<rparr>"] in simp_all)
  show ?thesis
  proof (cases "sv_watcher s")
    case Watching
    show ?thesis
      by (rule own_leads_step [OF watch_close [OF Watching assms]])
        (use b [of "s\<lparr>sv_watcher := ListenerClosed\<rparr>"] in simp_all)
  next
    case ShutdownDone
    then show ?thesis by (intro own_leads_now) simp
  qed (use b c in simp_all)
qed

abbreviation returned_by :: "nanos \<Rightarrow> serve_state \<Rightarrow> bool" where
  "returned_by d t \<equiv> sv_pc t = Returned \<and> sv_now t \<le> d"

lemma checking_returns:
  assumes "sv_watcher s = ShutdownDone" and "sv_pc s = Checking \<or> (\<exists>d. sv_pc s = Nudging d)" and "sv_now s \<le> e"
  shows "own_leads cap s (returned_by e)"
proof -
  have "serve_step cap Main s (s\<lparr>sv_pc := Returned, sv_conns_cancelled := True\<rparr>)"
    using assms(1,2) by (auto intro: check_done nudged)
  from own_leads_step [OF this _ own_leads_now] assms(3) show ?thesis by simp
qed

lemma draining_returns:
  assumes "sv_watcher s = ShutdownDone" and "sv_pc s = Draining d" and "d \<le> e" and "sv_now s \<le> e"
  shows "own_leads cap s (returned_by e)"
proof -
  have at: "own_leads cap u (returned_by e)"
    if "sv_watcher u = ShutdownDone" "sv_pc u = Draining d" "d \<le> sv_now u" "sv_now u \<le> e" for u
    by (rule own_leads_step [OF drained [OF that(2)]]) (use that in \<open>simp_all add: checking_returns\<close>)
  show ?thesis
  proof (cases "d \<le> sv_now s")
    case True
    with at assms show ?thesis by simp
  next
    case False
    then have "serve_step cap (Tick (d - sv_now s)) s (s\<lparr>sv_now := sv_now s + (d - sv_now s)\<rparr>)"
      by (intro tick) simp
    then show ?thesis by (rule own_leads_step) (use at assms in simp_all)
  qed
qed

text \<open>
  C19: Shutdown is always possible and bounded. From every reachable state in which the context is cancelled,
  whatever clients and handlers do or fail to do, the server's own steps lead \<^verbatim>\<open>Serve\<close> to its return no later than
  the drain cap from then on.\<close>
theorem shutdown_returns:
  assumes "reach serve_init (serve_next cap) s" and "sv_ctx_done s" and "0 \<le> cap"
  shows "\<exists>t. (own_step cap)\<^sup>*\<^sup>* s t \<and> sv_pc t = Returned \<and> sv_now t \<le> sv_now s + cap"
proof -
  from srv.reach_inv [OF assms(1)] have inv: "deadlines cap s" by (simp add: serve_inv_def)
  have "own_leads cap u (returned_by (sv_now s + cap))"
    if u: "sv_watcher u = ShutdownDone \<and> sv_now u = sv_now s \<and> sv_pc u = sv_pc s" for u
  proof (cases "sv_pc u")
    case Accepting
    show ?thesis
    proof (rule own_leads_step [OF accept_err [OF Accepting, of None]])
      show "None = None \<longrightarrow> listener_closed u" using u by (simp add: listener_closed_def)
    qed (use u assms(3) in \<open>simp_all add: draining_returns [of _ "sv_now s + cap"]\<close>)
  next
    case (Draining d)
    with inv u have "d \<le> sv_now s + cap" by (simp add: deadlines_def)
    with draining_returns [of u d] Draining u assms(3) show ?thesis by simp
  next
    case Returned
    with u assms(3) show ?thesis by (intro own_leads_now) simp
  qed (use u assms(3) in \<open>simp_all add: checking_returns\<close>)
  from own_leads_trans [OF watcher_finishes [OF assms(2)] this] show ?thesis
    by (simp add: own_leads_def)
qed

lemma reach_serve_step: "reach serve_init (serve_next cap) s \<Longrightarrow> serve_step cap l s t \<Longrightarrow> reach serve_init (serve_next cap) t"
  by (rule reach.reach_step) (auto simp: serve_next_def)

lemma reach_start: "reach serve_init (serve_next cap) (start_state t)"
  by (rule reach.reach_init) (auto simp: serve_init_def)

theorem shutdown_returns_witness:
  "\<exists>t. (own_step drainTimeout)\<^sup>*\<^sup>* ((start_state 0)\<lparr>sv_ctx_done := True\<rparr>) t \<and> sv_pc t = Returned \<and> sv_now t \<le> 5 * Second"
proof -
  have "reach serve_init (serve_next drainTimeout) ((start_state 0)\<lparr>sv_ctx_done := True\<rparr>)"
    by (rule reach_serve_step [OF reach_start cancel])
  from shutdown_returns [OF this] show ?thesis
    by (simp add: start_state_def drainTimeout_def Second_def)
qed

text \<open>
  C20: The bookkeeping of shutdown. In every reachable state the two wait groups count exactly the live connection and handler goroutines,
  so they never go negative; and once the waiting goroutine has closed \<^verbatim>\<open>connsDone\<close> no connection and no handler is
  left, and none can appear any more.\<close>
theorem serve_wait_groups:
  assumes "reach serve_init (serve_next cap) s"
  shows "sv_connsWG s = int (card {c. \<exists>cn. sv_conns s c = Some cn \<and> cn_pc cn \<noteq> ConnGone}) \<and>
    sv_sessionsWG s = int (card (dom (sv_handlers s))) \<and>
    (sv_waiter s = ConnsDone \<longrightarrow>
      (\<forall>t. (serve_next cap)\<^sup>*\<^sup>* s t \<longrightarrow> sv_handlers t = Map.empty \<and> (\<forall>c cn. sv_conns t c = Some cn \<longrightarrow> cn_pc cn = ConnGone)))"
proof -
  from srv.reach_inv [OF assms] have inv: "wait_groups s" "waiting s" by (simp_all add: serve_inv_def)
  have "sv_handlers t = Map.empty \<and> (\<forall>c cn. sv_conns t c = Some cn \<longrightarrow> cn_pc cn = ConnGone)"
    if fin: "sv_waiter s = ConnsDone" and path: "(serve_next cap)\<^sup>*\<^sup>* s t" for t
  proof -
    from path fin have "sv_waiter t = ConnsDone"
    proof (induction rule: rtranclp_induct)
      case (step u v)
      have "waiting u" using srv.reach_inv [OF reach_star [OF assms step(1)]] by (simp add: serve_inv_def)
      from step(2) obtain l where "serve_step cap l u v" by (auto simp: serve_next_def)
      then show ?case
        by (cases rule: serve_step.cases) (use step.IH [OF fin] \<open>waiting u\<close> in \<open>auto simp: waiting_def\<close>)
    qed
    moreover have "waiting t" using srv.reach_inv [OF reach_star [OF assms path]] by (simp add: serve_inv_def)
    ultimately show ?thesis by (auto simp: waiting_def active_def)
  qed
  with inv show ?thesis by (auto simp: wait_groups_def active_def)
qed

theorem serve_wait_groups_witness:
  "sv_connsWG (start_state 0) = 0 \<and> sv_sessionsWG (start_state 0) = 0"
  using serve_wait_groups [OF reach_start, of drainTimeout 0] by (simp add: start_state_def)

section \<open>What shutdown does not do\<close>

inductive serve_run :: "nanos \<Rightarrow> label list \<Rightarrow> serve_state \<Rightarrow> serve_state \<Rightarrow> bool" for cap :: nanos where
  run_nil: "serve_run cap [] s s"
| run_snoc: "serve_run cap ls s t \<Longrightarrow> serve_step cap l t u \<Longrightarrow> serve_run cap (ls @ [l]) s u"

lemma serve_run_reach: "serve_run cap ls s t \<Longrightarrow> reach serve_init (serve_next cap) s \<Longrightarrow> reach serve_init (serve_next cap) t"
  by (induction rule: serve_run.induct) (auto intro: reach_serve_step)

text \<open>
  An accept error that is not the closing of the listener ends the accept loop for good: nothing leads back to it, and the event stays in the log.
  \<^verbatim>\<open>Serve\<close> then returns without any cancellation, after the drain and at most 100 milliseconds for the watcher.
\<close>

lemma accept_loop_over:
  assumes "serve_run cap ls s t" and "sv_pc s \<noteq> Accepting"
  shows "sv_pc t \<noteq> Accepting \<and> AcceptOK c remote \<notin> set ls \<and> set (sv_logs s) \<subseteq> set (sv_logs t)"
  using assms
proof (induction rule: serve_run.induct)
  case (run_snoc ls s t l u)
  then have IH: "sv_pc t \<noteq> Accepting" "AcceptOK c remote \<notin> set ls" "set (sv_logs s) \<subseteq> set (sv_logs t)" by auto
  from run_snoc(2) IH(1) have "sv_pc u \<noteq> Accepting \<and> l \<noteq> AcceptOK c remote \<and> set (sv_logs t) \<subseteq> set (sv_logs u)"
    by (cases rule: serve_step.cases) auto
  with IH show ?case by auto
qed simp

definition watcher_nudge :: nanos where "watcher_nudge = 100 * 1000000"

lemma own_tick:
  assumes "sv_now s \<le> d" and "own_leads cap (s\<lparr>sv_now := d\<rparr>) P"
  shows "own_leads cap s P"
proof (cases "sv_now s = d")
  case True
  then have "s\<lparr>sv_now := d\<rparr> = s" by auto
  with assms(2) show ?thesis by simp
next
  case False
  with assms(1) have "serve_step cap (Tick (d - sv_now s)) s (s\<lparr>sv_now := sv_now s + (d - sv_now s)\<rparr>)" by (intro tick) simp
  then show ?thesis by (rule own_leads_step) (use assms(2) in simp_all)
qed

lemma nudging_returns:
  assumes "sv_pc s = Checking"
  shows "own_leads cap s (returned_by (sv_now s + watcher_nudge))"
proof (cases "sv_watcher s = ShutdownDone")
  case True
  then show ?thesis using assms by (intro checking_returns) (simp_all add: watcher_nudge_def)
next
  case False
  define u where "u = s\<lparr>sv_pc := Nudging (sv_now s + watcher_nudge)\<rparr>"
  have "own_leads cap (u\<lparr>sv_now := sv_now s + watcher_nudge\<rparr>) (returned_by (sv_now s + watcher_nudge))"
    by (rule own_leads_step [OF nudged [of _ "sv_now s + watcher_nudge"]]) (simp_all add: u_def own_leads_now)
  then have "own_leads cap u (returned_by (sv_now s + watcher_nudge))"
    by (rule own_tick [rotated]) (simp add: u_def watcher_nudge_def)
  then show ?thesis
    by (rule own_leads_step [OF check_nudge [OF assms False], folded watcher_nudge_def u_def, rotated]) simp
qed

lemma draining_returns_alone:
  assumes "sv_pc s = Draining d" and "sv_now s \<le> d"
  shows "own_leads cap s (returned_by (d + watcher_nudge))"
proof (rule own_tick [OF assms(2)])
  have "serve_step cap Main (s\<lparr>sv_now := d\<rparr>) (s\<lparr>sv_now := d, sv_pc := Checking\<rparr>)"
    using drained [of "s\<lparr>sv_now := d\<rparr>" d cap] assms(1) by simp
  then show "own_leads cap (s\<lparr>sv_now := d\<rparr>) (returned_by (d + watcher_nudge))"
    by (rule own_leads_step) (use nudging_returns [of "s\<lparr>sv_now := d, sv_pc := Checking\<rparr>" cap] in simp_all)
qed

text \<open>What \<^verbatim>\<open>Serve\<close> returns, once it has returned: the nil error on every path.\<close>

definition Serve_result :: "serve_state \<Rightarrow> string option option" where
  "Serve_result s = (if sv_pc s = Returned then Some None else None)"

lemma accept_error_run:
  assumes "serve_step cap (AcceptErr (Some m)) s t" and "0 \<le> cap"
  shows "serve_run cap ls t u \<Longrightarrow> AcceptOK c remote \<notin> set ls \<and> Log_Error (''accept: '' @ m) '''' \<in> set (sv_logs u)"
    and "own_leads cap t (returned_by (sv_now s + cap + watcher_nudge))"
proof -
  from assms(1) have t: "sv_pc t = Draining (sv_now s + cap)" "sv_now t = sv_now s" "Log_Error (''accept: '' @ m) '''' \<in> set (sv_logs t)"
    by (cases rule: serve_step.cases, simp_all)+
  from draining_returns_alone [OF t(1)] t(2) assms(2) show "own_leads cap t (returned_by (sv_now s + cap + watcher_nudge))" by simp
  show "AcceptOK c remote \<notin> set ls \<and> Log_Error (''accept: '' @ m) '''' \<in> set (sv_logs u)" if "serve_run cap ls t u"
    using accept_loop_over [OF that, of c remote] t by auto
qed

text \<open>Only the end of its transport, or a failed handshake, ends a connection goroutine.\<close>

definition conn_ends :: "nat \<Rightarrow> label \<Rightarrow> bool" where
  "conn_ends c l \<longleftrightarrow> l = PeerClosed c \<or> (\<exists>e. l = HandshakeFail c e)"

lemma active_kept:
  assumes "serve_step cap l s t" and "c \<in> active s" and "\<not> conn_ends c l"
  shows "c \<in> active t"
  using assms(1)
proof (cases rule: serve_step.cases)
  case (handshake_ok c' cn)
  with assms(2) show ?thesis by (simp add: active_set_conn)
qed (use assms(2,3) in \<open>auto simp: conn_ends_def active_conn_end active_upd_conn\<close>)

text \<open>
  C37: Cancelling does not end connections. Neither the watcher nor the accept loop closes an accepted connection, so as long as one client stays
  connected \<^verbatim>\<open>Serve\<close> cannot leave its wait before the drain cap is over, even if every session has ended: the
  shutdown then always takes the whole cap.\<close>
theorem open_connection_holds_drain:
  assumes "reach serve_init (serve_next cap) s" and "sv_pc s = Draining d" and "c \<in> active s"
    and "serve_run cap ls s t" and "\<forall>l \<in> set ls. \<not> conn_ends c l"
  shows "sv_pc t = Draining d \<or> d \<le> sv_now t"
proof -
  have "c \<in> active t \<and> (sv_pc t = Draining d \<or> d \<le> sv_now t)"
    using assms(4,1-3,5)
  proof (induction rule: serve_run.induct)
    case (run_snoc ls s t l u)
    then have IH: "c \<in> active t" "sv_pc t = Draining d \<or> d \<le> sv_now t" and nc: "\<not> conn_ends c l" by auto
    have "waiting t" using srv.reach_inv [OF serve_run_reach [OF run_snoc(1) run_snoc.prems(1)]] by (simp add: serve_inv_def)
    with IH(1) have "sv_waiter t \<noteq> ConnsDone" by (auto simp: waiting_def)
    with run_snoc(2) IH(2) have "sv_pc u = Draining d \<or> d \<le> sv_now u"
      by (cases rule: serve_step.cases) auto
    with active_kept [OF run_snoc(2) IH(1) nc] show ?case by blast
  qed simp
  then show ?thesis by blast
qed

text \<open>A connection that is being served while the accept loop drains, for the concrete traces below.\<close>

definition sample_conn :: conn where
  "sample_conn = \<lparr> cn_pc = Serving, cn_remote = ''r'', cn_start = 0 \<rparr>"

definition sample_serving :: serve_state where
  "sample_serving = (start_state 0)\<lparr>sv_conns := [0 \<mapsto> sample_conn], sv_connsWG := 1, sv_logs := [Log_ConnOpen ''r'']\<rparr>"

lemma sample_serving_reach: "reach serve_init (serve_next cap) sample_serving"
proof -
  define a where "a = (start_state 0)\<lparr>sv_conns := [0 \<mapsto> sample_conn\<lparr>cn_pc := ConnSpawned\<rparr>], sv_connsWG := 1\<rparr>"
  define b where "b = a\<lparr>sv_conns := [0 \<mapsto> sample_conn\<lparr>cn_pc := Handshaking\<rparr>], sv_logs := [Log_ConnOpen ''r'']\<rparr>"
  have "serve_step cap (AcceptOK 0 ''r'') (start_state 0) a"
    using accept_ok [of "start_state 0" 0 cap "''r''"] by (simp add: a_def start_state_def listener_closed_def sample_conn_def)
  then have ra: "reach serve_init (serve_next cap) a" by (rule reach_serve_step [OF reach_start])
  have "serve_step cap (ConnStart 0) a b"
    using conn_start [of a 0 "sample_conn\<lparr>cn_pc := ConnSpawned\<rparr>" cap]
    by (simp add: a_def b_def start_state_def conn_at_def sample_conn_def add_log_def)
  then have rb: "reach serve_init (serve_next cap) b" by (rule reach_serve_step [OF ra])
  have "serve_step cap (HandshakeOK 0) b sample_serving"
    using handshake_ok [of b 0 "sample_conn\<lparr>cn_pc := Handshaking\<rparr>" cap]
    by (simp add: b_def a_def sample_serving_def start_state_def conn_at_def sample_conn_def set_conn_def)
  then show ?thesis by (rule reach_serve_step [OF rb])
qed

theorem open_connection_holds_drain_witness:
  "\<exists>s. reach serve_init (serve_next drainTimeout) s \<and> sv_pc s = Draining (5 * Second) \<and> sv_handlers s = Map.empty \<and>
    (\<forall>ls t. serve_run drainTimeout ls s t \<and> (\<forall>l \<in> set ls. \<not> conn_ends 0 l) \<longrightarrow> sv_pc t = Draining (5 * Second) \<or> 5 * Second \<le> sv_now t)"
proof -
  let ?s = "(add_log (case Some ''x'' of None \<Rightarrow> [] | Some m \<Rightarrow> [Log_Error (''accept: '' @ m) '''']) sample_serving)
      \<lparr>sv_conns_cancelled := True, sv_pc := Draining (sv_now sample_serving + drainTimeout), sv_waiter := WaitConns\<rparr>"
  have "serve_step drainTimeout (AcceptErr (Some ''x'')) sample_serving ?s"
    by (rule accept_err) (simp_all add: sample_serving_def start_state_def)
  from reach_serve_step [OF sample_serving_reach this] have r: "reach serve_init (serve_next drainTimeout) ?s" .
  have pc: "sv_pc ?s = Draining (5 * Second)" and h: "sv_handlers ?s = Map.empty"
    by (simp_all add: sample_serving_def start_state_def drainTimeout_def)
  have "0 \<in> active ?s"
    by (simp add: active_def sample_serving_def start_state_def sample_conn_def)
  with open_connection_holds_drain [OF r pc] r pc h show ?thesis by blast
qed

text \<open>
  From every state of the accept loop there is a run in which the context is cancelled and nothing else of the outside
  happens until the drain timer fires: \<^verbatim>\<open>Serve\<close> returns then, and connections, handlers and log are as they were.
\<close>

lemma cancel_and_time_out:
  assumes "reach serve_init (serve_next cap) a" and "sv_pc a = Accepting" and "sv_watcher a = Watching" and "0 < cap"
  shows "\<exists>s. reach serve_init (serve_next cap) s \<and> sv_pc s = Returned \<and> sv_now s = sv_now a + cap \<and>
    sv_conns s = sv_conns a \<and> sv_handlers s = sv_handlers a \<and> sv_logs s = sv_logs a"
proof -
  let ?R = "reach serve_init (serve_next cap)"
  define b where "b = a\<lparr>sv_ctx_done := True, sv_watcher := ListenerClosed\<rparr>"
  have "?R b"
    using reach_serve_step [OF reach_serve_step [OF assms(1) cancel] watch_close] assms(3) by (simp add: b_def)
  then have "?R (b\<lparr>sv_watcher := ConnsCancelled, sv_conns_cancelled := True\<rparr>)"
    by (rule reach_serve_step [OF _ watch_cancel]) (simp add: b_def)
  from reach_serve_step [OF this watch_done] have "?R (b\<lparr>sv_conns_cancelled := True, sv_watcher := ShutdownDone\<rparr>)" by simp
  from reach_serve_step [OF this accept_err [of _ None]] assms(2)
  have "?R ((add_log [] (b\<lparr>sv_watcher := ShutdownDone, sv_conns_cancelled := True\<rparr>))
      \<lparr>sv_pc := Draining (sv_now a + cap), sv_waiter := WaitConns\<rparr>)"
    by (simp add: b_def listener_closed_def add_log_def)
  from reach_serve_step [OF reach_serve_step [OF this tick [OF assms(4)]] drained [of _ "sv_now a + cap"]]
  have "?R (b\<lparr>sv_watcher := ShutdownDone, sv_conns_cancelled := True, sv_waiter := WaitConns, sv_now := sv_now a + cap, sv_pc := Checking\<rparr>)"
    by (simp add: b_def add_log_def)
  from reach_serve_step [OF this check_done]
  have "?R (b\<lparr>sv_watcher := ShutdownDone, sv_waiter := WaitConns, sv_now := sv_now a + cap, sv_pc := Returned, sv_conns_cancelled := True\<rparr>)"
    by simp
  then show ?thesis by (intro exI conjI) (assumption, simp_all add: b_def)
qed

text \<open>A client that disconnects while a session of it runs.\<close>

definition sample_session :: serve_state where
  "sample_session = sample_serving\<lparr>sv_handlers := [0 \<mapsto> 0], sv_sessionsWG := 1\<rparr>"

definition sample_gone :: serve_state where
  "sample_gone = conn_end 0 sample_conn sample_session"

lemma sample_gone_reach: "reach serve_init (serve_next cap) sample_gone"
proof -
  have "serve_step cap (ChannelHandled 0 ''session'' 0) sample_serving sample_session"
    using channel_handled [of sample_serving 0 sample_conn "''session''" 0 cap]
    by (simp add: sample_session_def sample_serving_def start_state_def conn_at_def sample_conn_def classifyChannel_def channelTypeSession_def)
  moreover have "serve_step cap (PeerClosed 0) sample_session sample_gone"
    unfolding sample_gone_def
    by (rule peer_closed) (simp add: sample_session_def sample_serving_def start_state_def conn_at_def sample_conn_def)
  ultimately show ?thesis using reach_serve_step [OF reach_serve_step [OF sample_serving_reach]] by blast
qed

lemma sample_gone_state:
  "sv_conns sample_gone 0 = Some (sample_conn\<lparr>cn_pc := ConnGone\<rparr>)" "sv_handlers sample_gone 0 = Some 0" "sv_now sample_gone = 0"
  "Log_ConnClose ''r'' 0 \<in> set (sv_logs sample_gone)" "sv_pc sample_gone = Accepting" "sv_watcher sample_gone = Watching"
  "\<not> sv_ctx_done sample_gone" "\<not> sv_conns_cancelled sample_gone"
  by (simp_all add: sample_gone_def sample_session_def conn_end_def set_conn_def add_log_def sample_serving_def start_state_def
      sample_conn_def Let_def)

text \<open>
  \<^verbatim>\<open>handleConn\<close> does not join the goroutines of its channels, and \<^verbatim>\<open>Serve\<close> does not outlast the grace period of a
  child. There is a run in which the conn-close event of a connection is logged while a session of it still runs,
  and \<^verbatim>\<open>Serve\<close> returns, five seconds after the cancellation, with that session still running: the earliest moment at which the
  session may send its child SIGKILL.\<close>
lemma serve_leaves_session_running:
  "\<exists>s. reach serve_init (serve_next drainTimeout) s \<and> sv_pc s = Returned \<and> sv_now s = shutdownGrace \<and>
    (\<exists>cn. sv_conns s 0 = Some cn \<and> cn_pc cn = ConnGone) \<and> Log_ConnClose ''r'' 0 \<in> set (sv_logs s) \<and> sv_handlers s 0 = Some 0"
proof -
  have "0 < drainTimeout" by (simp add: drainTimeout_def Second_def)
  from cancel_and_time_out [OF sample_gone_reach sample_gone_state(5,6) this] obtain s where
    "reach serve_init (serve_next drainTimeout) s" "sv_pc s = Returned" "sv_now s = sv_now sample_gone + drainTimeout"
      "sv_conns s = sv_conns sample_gone" "sv_handlers s = sv_handlers sample_gone" "sv_logs s = sv_logs sample_gone" by blast
  then show ?thesis using sample_gone_state
    by (intro exI [of _ s]) (simp add: shutdownGrace_def drainTimeout_def)
qed

end
