(* ===== verification/Signals.thy ===== *)
theory Signals
  imports Keyset Wire
begin

text \<open>
  \<^verbatim>\<open>main\<close> and the part of \<^verbatim>\<open>run\<close> that deals with signals while the server serves (\<^verbatim>\<open>cmd/minisshd/main.go\<close>): SIGINT and SIGTERM
  cancel the context, SIGHUP goes to the channel of one slot that the reload goroutine reads, if that goroutine was started.
  The process is a labelled step system. The labels are what the outside does (a signal arrives, the authorized-keys file
  changes) and the steps of the goroutine: to take a signal from the channel, to read and parse the file, to store the result
  and report it, to return after the context is done. Between these steps anything else may happen.

  A step is a partial function of label and state, so that a run is the evaluation of a list of labels.
\<close>

section \<open>State\<close>

text \<open>Where the reload goroutine is: it was never started, waits in \<^verbatim>\<open>select\<close>, is about to parse, is about to store, has returned.\<close>

datatype reloader = NotStarted | Selecting | Parsing | Storing "file_error + Keyset" | Ended

text \<open>
  \<open>p_nohup\<close>: SIGHUP was ignored when the program was started, which the Go runtime keeps up until \<^verbatim>\<open>signal.Notify\<close>.
  \<open>p_open\<close> is what opening and reading a file gives at the moment.
\<close>

record process =
  p_alive :: bool
  p_nohup :: bool
  p_ctx_done :: bool
  p_sighupCh :: bool
  p_reloader :: reloader
  p_source :: "KeysetSource option"
  p_open :: "string \<Rightarrow> file_read"
  p_log :: "pk_event list"

text \<open>The state when \<^verbatim>\<open>srv.Serve\<close> is called, with \<^verbatim>\<open>signal.NotifyContext\<close> of \<^verbatim>\<open>main\<close> in force.\<close>

definition p_start :: "Methods \<Rightarrow> KeysetSource option \<Rightarrow> bool \<Rightarrow> (string \<Rightarrow> file_read) \<Rightarrow> process" where
  "p_start methods keysetSource nohup files =
     \<lparr> p_alive = True, p_nohup = nohup, p_ctx_done = False, p_sighupCh = False,
       p_reloader = (if Contains methods MethodPublickey \<and> keysetSource \<noteq> None then Selecting else NotStarted),
       p_source = keysetSource, p_open = files, p_log = [] \<rparr>"

section \<open>Signals\<close>

text \<open>
  The Go runtime sends a signal to the channels that asked for it and drops it where the channel is full; a SIGHUP that nobody asked for ends
  the process unless it was ignored from the start. Only the signals the program names are modelled.
\<close>

definition deliver :: "syscall_signal \<Rightarrow> process \<Rightarrow> process option" where
  "deliver sg s =
     (case sg of
        SIGINT \<Rightarrow> Some (s\<lparr>p_ctx_done := True\<rparr>)
      | SIGTERM \<Rightarrow> Some (s\<lparr>p_ctx_done := True\<rparr>)
      | SIGHUP \<Rightarrow>
          Some (if p_reloader s = NotStarted then (if p_nohup s then s else s\<lparr>p_alive := False\<rparr>)
                else s\<lparr>p_sighupCh := True\<rparr>)
      | _ \<Rightarrow> None)"

datatype p_label = GotSignal syscall_signal | FilesChange "string \<Rightarrow> file_read" | Take | Parse | Store | Return

text \<open>The steps. \<^verbatim>\<open>select\<close> takes any case that is ready.\<close>

definition p_step ::
  "('k ak_parser) \<Rightarrow> ('k \<Rightarrow> bytes) \<Rightarrow> ('k \<Rightarrow> string) \<Rightarrow> p_label \<Rightarrow> process \<Rightarrow> process option" where
  "p_step parseAK marshal fingerprint l s =
     (if \<not> p_alive s then None
      else case l of
        GotSignal sg \<Rightarrow> deliver sg s
      | FilesChange files \<Rightarrow> Some (s\<lparr>p_open := files\<rparr>)
      | Take \<Rightarrow>
          if p_reloader s = Selecting \<and> p_sighupCh s then Some (s\<lparr>p_sighupCh := False, p_reloader := Parsing\<rparr>) else None
      | Parse \<Rightarrow>
          (case (p_reloader s, p_source s) of
             (Parsing, Some src) \<Rightarrow>
               (case source_parse parseAK marshal fingerprint (p_open s) src of
                  (res, evs) \<Rightarrow> Some (s\<lparr>p_reloader := Storing res, p_log := p_log s @ evs\<rparr>))
           | _ \<Rightarrow> None)
      | Store \<Rightarrow>
          (case (p_reloader s, p_source s) of
             (Storing res, Some src) \<Rightarrow>
               (case reload_store src res of
                  (err, src', e) \<Rightarrow> Some (s\<lparr>p_reloader := Selecting, p_source := Some src', p_log := p_log s @ [e]\<rparr>))
           | _ \<Rightarrow> None)
      | Return \<Rightarrow> if p_reloader s = Selecting \<and> p_ctx_done s then Some (s\<lparr>p_reloader := Ended\<rparr>) else None)"

fun p_run ::
  "('k ak_parser) \<Rightarrow> ('k \<Rightarrow> bytes) \<Rightarrow> ('k \<Rightarrow> string) \<Rightarrow> p_label list \<Rightarrow> process \<Rightarrow> process option" where
  "p_run parseAK marshal fingerprint [] s = Some s"
| "p_run parseAK marshal fingerprint (l # ls) s =
     (case p_step parseAK marshal fingerprint l s of
        None \<Rightarrow> None
      | Some t \<Rightarrow> p_run parseAK marshal fingerprint ls t)"

lemma p_run_append:
  "p_run parseAK marshal fingerprint (ls @ ls') s =
     (case p_run parseAK marshal fingerprint ls s of None \<Rightarrow> None | Some t \<Rightarrow> p_run parseAK marshal fingerprint ls' t)"
  by (induction ls arbitrary: s) (auto split: option.split)

section \<open>What a step does\<close>

lemma deliver_cases:
  assumes "deliver sg s = Some t"
  shows "(sg \<in> {SIGINT, SIGTERM} \<and> t = s\<lparr>p_ctx_done := True\<rparr>) \<or>
    (sg = SIGHUP \<and> p_reloader s = NotStarted \<and> t = (if p_nohup s then s else s\<lparr>p_alive := False\<rparr>)) \<or>
    (sg = SIGHUP \<and> p_reloader s \<noteq> NotStarted \<and> t = s\<lparr>p_sighupCh := True\<rparr>)"
  using assms by (cases sg) (simp_all add: deliver_def split: if_split_asm)

lemma p_step_cases:
  assumes "p_step parseAK marshal fingerprint l s = Some t"
  obtains (cancel) sg where "l = GotSignal sg" "sg \<in> {SIGINT, SIGTERM}" "t = s\<lparr>p_ctx_done := True\<rparr>"
  | (hup_default) "l = GotSignal SIGHUP" "p_reloader s = NotStarted" "t = (if p_nohup s then s else s\<lparr>p_alive := False\<rparr>)"
  | (hup) "l = GotSignal SIGHUP" "p_reloader s \<noteq> NotStarted" "t = s\<lparr>p_sighupCh := True\<rparr>"
  | (edit) f where "l = FilesChange f" "t = s\<lparr>p_open := f\<rparr>"
  | (take) "l = Take" "p_reloader s = Selecting" "p_sighupCh s" "t = s\<lparr>p_sighupCh := False, p_reloader := Parsing\<rparr>"
  | (parse) src res evs where "l = Parse" "p_reloader s = Parsing" "p_source s = Some src"
      "source_parse parseAK marshal fingerprint (p_open s) src = (res, evs)"
      "t = s\<lparr>p_reloader := Storing res, p_log := p_log s @ evs\<rparr>"
  | (store) src res err src' e where "l = Store" "p_reloader s = Storing res" "p_source s = Some src"
      "reload_store src res = (err, src', e)" "t = s\<lparr>p_reloader := Selecting, p_source := Some src', p_log := p_log s @ [e]\<rparr>"
  | (leave) "l = Return" "p_reloader s = Selecting" "p_ctx_done s" "t = s\<lparr>p_reloader := Ended\<rparr>"
proof -
  have alive: "p_alive s" using assms by (auto simp: p_step_def split: if_split_asm)
  show thesis
  proof (cases l)
    case (GotSignal sg)
    with assms alive have "deliver sg s = Some t" by (simp add: p_step_def)
    from deliver_cases [OF this] GotSignal cancel hup_default hup show thesis by blast
  next
    case (FilesChange f)
    with assms alive edit show thesis by (simp add: p_step_def)
  next
    case Take
    with assms alive take show thesis by (simp add: p_step_def split: if_split_asm)
  next
    case Parse
    with assms alive parse show thesis by (simp add: p_step_def split: reloader.split_asm option.split_asm prod.split_asm)
  next
    case Store
    with assms alive store show thesis by (simp add: p_step_def split: reloader.split_asm option.split_asm prod.split_asm)
  next
    case Return
    with assms alive leave show thesis by (simp add: p_step_def split: if_split_asm)
  qed
qed

lemma reload_store_laws:
  assumes "reload_store src res = (err, src', e)"
  shows "path src' = path src"
    and "0 < Source_Count src \<Longrightarrow> 0 < Source_Count src'"
    and "keyset_inv (cur src) \<Longrightarrow> (\<And>ks. res = Inr ks \<Longrightarrow> keyset_inv (Some ks)) \<Longrightarrow> keyset_inv (cur src')"
  using assms
  by (auto simp: reload_store_def Source_Count_def Keyset_Count_def Let_def Suc_le_eq split: sum.split_asm if_split_asm option.split_asm)

section \<open>Invariant\<close>

definition p_inv :: "process \<Rightarrow> bool" where
  "p_inv s \<longleftrightarrow>
     (p_reloader s \<noteq> NotStarted \<longrightarrow> p_source s \<noteq> None) \<and>
     (p_sighupCh s \<longrightarrow> p_reloader s \<noteq> NotStarted) \<and>
     (\<forall>src. p_source s = Some src \<longrightarrow> keyset_inv (cur src)) \<and>
     (\<forall>ks. p_reloader s = Storing (Inr ks) \<longrightarrow> keyset_inv (Some ks))"

definition p_init :: "process \<Rightarrow> bool" where
  "p_init s \<longleftrightarrow> (\<exists>methods keysetSource nohup files.
     s = p_start methods keysetSource nohup files \<and> (\<forall>src. keysetSource = Some src \<longrightarrow> keyset_inv (cur src)))"

definition p_next :: "('k ak_parser) \<Rightarrow> ('k \<Rightarrow> bytes) \<Rightarrow> ('k \<Rightarrow> string) \<Rightarrow> process \<Rightarrow> process \<Rightarrow> bool" where
  "p_next parseAK marshal fingerprint s t \<longleftrightarrow> (\<exists>l. p_step parseAK marshal fingerprint l s = Some t)"

interpretation proc: inv_system p_init "p_next parseAK marshal fingerprint" p_inv
  for parseAK :: "'k ak_parser" and marshal fingerprint
proof
  fix s assume "p_init s"
  then show "p_inv s" by (auto simp: p_init_def p_inv_def p_start_def split: if_splits)
next
  fix s t assume inv: "p_inv s" and "p_next parseAK marshal fingerprint s t"
  then obtain l where "p_step parseAK marshal fingerprint l s = Some t" by (auto simp: p_next_def)
  then show "p_inv t"
  proof (cases rule: p_step_cases)
    case (parse src res evs)
    from source_parse_inv have "res = Inr ks \<Longrightarrow> keyset_inv (Some ks)" for ks
      using parse(4) by blast
    with inv parse show ?thesis by (simp add: p_inv_def)
  next
    case (store src res err src' e)
    with inv have "keyset_inv (cur src')" by (intro reload_store_laws(3) [OF store(4)]) (simp_all add: p_inv_def)
    with inv store show ?thesis by (simp add: p_inv_def)
  qed (use inv in \<open>auto simp: p_inv_def\<close>)
qed


section \<open>Runs\<close>

text \<open>The path of the authorized-keys file is fixed, and keys are never lost.\<close>

lemma p_run_source:
  assumes "p_run parseAK marshal fingerprint ls s = Some t" and "p_source s = Some src"
  shows "\<exists>src'. p_source t = Some src' \<and> path src' = path src \<and> (0 < Source_Count src \<longrightarrow> 0 < Source_Count src')"
  using assms
proof (induction ls arbitrary: s src)
  case (Cons l ls)
  then obtain s1 where s1: "p_step parseAK marshal fingerprint l s = Some s1" "p_run parseAK marshal fingerprint ls s1 = Some t"
    by (auto split: option.split_asm)
  from s1(1) Cons.prems(2)
  have "\<exists>src1. p_source s1 = Some src1 \<and> path src1 = path src \<and> (0 < Source_Count src \<longrightarrow> 0 < Source_Count src1)"
    by (cases rule: p_step_cases) (auto dest: reload_store_laws(1,2))
  with Cons.IH [OF s1(2)] show ?case by fastforce
qed simp

text \<open>The reports of reloads in a log.\<close>

fun is_report :: "pk_event \<Rightarrow> bool" where
  "is_report (PubkeyReloadOK _ _) = True"
| "is_report (PubkeyReloadFailed _ _) = True"
| "is_report _ = False"

lemma parse_lines_reports: "filter is_report (snd (parse_lines parseAK marshal fingerprint p n ls)) = []"
  by (induction ls arbitrary: n) (auto simp: Let_def case_prod_beta split: sum.split list.split)

lemma source_parse_reports:
  "source_parse parseAK marshal fingerprint f src = (res, evs) \<Longrightarrow> filter is_report evs = []"
  by (auto simp: source_parse_def Let_def case_prod_beta parse_lines_reports split: file_read.split_asm option.split_asm)

lemma reload_store_report: "reload_store src res = (err, src', e) \<Longrightarrow> is_report e"
  by (auto simp: reload_store_def Let_def split: sum.split_asm if_split_asm)

definition reports :: "process \<Rightarrow> nat" where
  "reports s = length (filter is_report (p_log s))"

text \<open>Reloads that are still due: one for a signal in the channel, one for a reload in progress.\<close>

definition due :: "process \<Rightarrow> nat" where
  "due s = (if p_sighupCh s then 1 else 0) + (case p_reloader s of Parsing \<Rightarrow> 1 | Storing _ \<Rightarrow> 1 | _ \<Rightarrow> 0)"

lemma p_step_reports:
  assumes "p_step parseAK marshal fingerprint l s = Some t"
  shows "reports t + due t \<le> reports s + due s + (if l = GotSignal SIGHUP then 1 else 0)"
  using assms
proof (cases rule: p_step_cases)
  case (parse src res evs)
  with source_parse_reports [OF parse(4)] show ?thesis by (simp add: reports_def due_def)
next
  case (store src res err src' e)
  with reload_store_report [OF store(4)] show ?thesis by (simp add: reports_def due_def)
qed (auto simp: reports_def due_def)

lemma p_run_reports:
  assumes "p_run parseAK marshal fingerprint ls s = Some t"
  shows "reports t + due t \<le> reports s + due s + length (filter (\<lambda>l. l = GotSignal SIGHUP) ls)"
  using assms
proof (induction ls arbitrary: s)
  case (Cons l ls)
  then obtain s1 where s1: "p_step parseAK marshal fingerprint l s = Some s1" "p_run parseAK marshal fingerprint ls s1 = Some t"
    by (auto split: option.split_asm)
  from Cons.IH [OF s1(2)] p_step_reports [OF s1(1)] show ?case by (auto split: if_split_asm)
qed simp

text \<open>The goroutine's own steps, and how many of them are left.\<close>

definition own :: "p_label \<Rightarrow> bool" where
  "own l \<longleftrightarrow> l = Take \<or> l = Parse \<or> l = Store \<or> l = Return"

definition p_work :: "process \<Rightarrow> nat" where
  "p_work s = (if p_sighupCh s then 3 else 0) +
     (case p_reloader s of Selecting \<Rightarrow> 1 | Parsing \<Rightarrow> 3 | Storing _ \<Rightarrow> 2 | _ \<Rightarrow> 0)"

lemma own_step_work: "p_step parseAK marshal fingerprint l s = Some t \<Longrightarrow> own l \<Longrightarrow> p_work t < p_work s"
  by (erule p_step_cases) (auto simp: own_def p_work_def)

lemma own_run_work:
  "p_run parseAK marshal fingerprint ls s = Some t \<Longrightarrow> list_all own ls \<Longrightarrow> length ls + p_work t \<le> p_work s"
  by (induction ls arbitrary: s) (fastforce dest: own_step_work split: option.split_asm)+

lemma p_work_le: "p_work s \<le> 6"
  by (simp add: p_work_def split: reloader.split)

definition settled :: "process \<Rightarrow> bool" where
  "settled s \<longleftrightarrow> p_reloader s = Ended \<or> (p_reloader s = Selecting \<and> \<not> p_sighupCh s)"

lemma own_step_enabled:
  assumes "p_inv s" and "p_alive s" and "p_reloader s \<noteq> NotStarted" and "\<not> settled s"
  obtains l t where "own l" "p_step parseAK marshal fingerprint l s = Some t" "p_alive t" "p_reloader t \<noteq> NotStarted"
proof (cases "p_reloader s")
  case Selecting
  with assms show ?thesis
    by (intro that [of Take "s\<lparr>p_sighupCh := False, p_reloader := Parsing\<rparr>"]) (simp_all add: own_def p_step_def settled_def)
next
  case Parsing
  with assms obtain src where "p_source s = Some src" by (auto simp: p_inv_def)
  moreover obtain res evs where "source_parse parseAK marshal fingerprint (p_open s) src = (res, evs)" by fastforce
  ultimately show ?thesis using Parsing assms
    by (intro that [of Parse "s\<lparr>p_reloader := Storing res, p_log := p_log s @ evs\<rparr>"]) (simp_all add: own_def p_step_def)
next
  case (Storing res)
  with assms obtain src where "p_source s = Some src" by (auto simp: p_inv_def)
  moreover obtain err src' e where "reload_store src res = (err, src', e)" by (metis prod_cases3)
  ultimately show ?thesis using Storing assms
    by (intro that [of Store "s\<lparr>p_reloader := Selecting, p_source := Some src', p_log := p_log s @ [e]\<rparr>"])
      (simp_all add: own_def p_step_def)
qed (use assms in \<open>simp_all add: settled_def\<close>)


text \<open>
  After a SIGHUP and with the files as they are, the state is on the way to a reload of these files or has just finished one.
\<close>

definition reloaded ::
  "('k ak_parser) \<Rightarrow> ('k \<Rightarrow> bytes) \<Rightarrow> ('k \<Rightarrow> string) \<Rightarrow> process \<Rightarrow> bool" where
  "reloaded parseAK marshal fingerprint s \<longleftrightarrow>
     (\<exists>src src0 err evs. p_source s = Some src \<and> Reload parseAK marshal fingerprint (p_open s) src0 = (err, src, evs) \<and>
        path src0 = path src \<and> p_log s \<noteq> [] \<and> last (p_log s) = last evs)"

definition caught ::
  "('k ak_parser) \<Rightarrow> ('k \<Rightarrow> bytes) \<Rightarrow> ('k \<Rightarrow> string) \<Rightarrow> process \<Rightarrow> bool" where
  "caught parseAK marshal fingerprint s \<longleftrightarrow> p_sighupCh s \<or>
     (case p_reloader s of
        Selecting \<Rightarrow> reloaded parseAK marshal fingerprint s
      | Storing res \<Rightarrow> (\<forall>src. p_source s = Some src \<longrightarrow> res = fst (source_parse parseAK marshal fingerprint (p_open s) src))
      | _ \<Rightarrow> True)"

definition edits :: "p_label \<Rightarrow> bool" where
  "edits l \<longleftrightarrow> (case l of FilesChange _ \<Rightarrow> True | _ \<Rightarrow> False)"

lemma caught_step:
  assumes "p_step parseAK marshal fingerprint l s = Some t" and "\<not> edits l" and "caught parseAK marshal fingerprint s"
  shows "caught parseAK marshal fingerprint t"
  using assms(1)
proof (cases rule: p_step_cases)
  case (store src res err src' e)
  show ?thesis
  proof (cases "p_sighupCh s")
    case False
    with assms(3) store have "res = fst (source_parse parseAK marshal fingerprint (p_open s) src)"
      by (simp add: caught_def)
    then have "Reload parseAK marshal fingerprint (p_open s) src =
        (err, src', snd (source_parse parseAK marshal fingerprint (p_open s) src) @ [e])"
      using store(4) by (simp add: Reload_def case_prod_beta)
    with store reload_store_laws(1) [OF store(4)] have "reloaded parseAK marshal fingerprint t"
      unfolding reloaded_def by (intro exI [of _ src'] exI [of _ src] exI [of _ err]) auto
    with store show ?thesis by (simp add: caught_def)
  qed (use store in \<open>simp add: caught_def\<close>)
qed (use assms(2,3) in \<open>auto simp: caught_def reloaded_def edits_def split: reloader.split_asm\<close>)

lemma caught_run:
  assumes "p_run parseAK marshal fingerprint ls s = Some t" and "list_all (\<lambda>l. \<not> edits l) ls" and "caught parseAK marshal fingerprint s"
  shows "caught parseAK marshal fingerprint t"
  using assms
proof (induction ls arbitrary: s)
  case (Cons l ls)
  then obtain s1 where s1: "p_step parseAK marshal fingerprint l s = Some s1" "p_run parseAK marshal fingerprint ls s1 = Some t"
    by (auto split: option.split_asm)
  with Cons caught_step [OF s1(1)] show ?case by simp
qed simp

text \<open>A reload of a readable file that lists a key puts exactly the listed keys in force.\<close>

lemma Reload_installs:
  assumes "Reload parseAK marshal fingerprint f src0 = (err, src, evs)" and "f (path src0) = Contents content None"
    and "short_lines content" and "listed parseAK marshal content d"
  shows "Keyset_Check marshal fingerprint (Current src) k =
    (if listed parseAK marshal content (Sum256 (marshal k)) then (True, '''', fingerprint k) else (False, ReasonBadKey, fingerprint k))"
proof -
  obtain ks evs' where p: "source_parse parseAK marshal fingerprint f src0 = (Inr ks, evs')"
    and d: "\<And>d. d \<in> Digest ` set (keys ks) \<longleftrightarrow> listed parseAK marshal content d"
    using parsed_digests [of f src0 content parseAK marshal fingerprint] assms(2,3) by blast
  from d [of d] assms(4) have "keys ks \<noteq> []" by auto
  with p assms(1) have "src = src0\<lparr>cur := Some ks\<rparr>"
    by (simp add: Reload_def reload_store_def Keyset_Count_def)
  then show ?thesis by (simp add: Keyset_Check_cases Current_def d)
qed


section \<open>Properties\<close>

text \<open>
  C6: No change of the authorized-keys file is lost. In every run that sends the process a SIGHUP, after any history, and leaves the files
  alone from then on, as soon as the reload goroutine waits again with an empty channel the source is the result of a reload of these
  files, however many other signals came in between and whatever the goroutine was doing when the signal arrived. If the file can be
  read, has no overlong line and lists at least one key, then the keys accepted from then on are exactly the listed ones.
\<close>

theorem reload_reflects_file:
  assumes "p_run parseAK marshal fingerprint (as @ GotSignal SIGHUP # bs) (p_start methods (Some src0) nohup files) = Some t"
    and "list_all (\<lambda>l. \<not> edits l) bs" and "p_reloader t = Selecting" and "\<not> p_sighupCh t"
  shows "reloaded parseAK marshal fingerprint t \<and>
    (\<forall>content d src k. p_source t = Some src \<and> p_open t (path src0) = Contents content None \<and> short_lines content \<and>
       listed parseAK marshal content d \<longrightarrow>
       Keyset_Check marshal fingerprint (Current src) k =
         (if listed parseAK marshal content (Sum256 (marshal k)) then (True, '''', fingerprint k)
          else (False, ReasonBadKey, fingerprint k)))"
proof -
  let ?run = "p_run parseAK marshal fingerprint"
  from assms(1) obtain s s1 where s: "?run as (p_start methods (Some src0) nohup files) = Some s"
    and s1: "p_step parseAK marshal fingerprint (GotSignal SIGHUP) s = Some s1" and t: "?run bs s1 = Some t"
    by (auto simp: p_run_append split: option.split_asm)
  from s1 have "caught parseAK marshal fingerprint s1"
    by (cases rule: p_step_cases) (auto simp: caught_def)
  from caught_run [OF t assms(2) this] assms(3,4) have r: "reloaded parseAK marshal fingerprint t"
    by (simp add: caught_def)
  have p: "path src = path src0" if "p_source t = Some src" for src
    using p_run_source [OF assms(1)] that by (auto simp: p_start_def)
  show ?thesis
  proof (intro conjI r allI impI, elim conjE)
    fix content d src k
    assume src: "p_source t = Some src" and o: "p_open t (path src0) = Contents content None"
      and c: "short_lines content" "listed parseAK marshal content d"
    from r src obtain src1 err evs where rl: "Reload parseAK marshal fingerprint (p_open t) src1 = (err, src, evs)" "path src1 = path src"
      by (auto simp: reloaded_def)
    from Reload_installs [OF rl(1) _ c] o rl(2) p [OF src]
    show "Keyset_Check marshal fingerprint (Current src) k =
         (if listed parseAK marshal content (Sum256 (marshal k)) then (True, '''', fingerprint k)
          else (False, ReasonBadKey, fingerprint k))" by simp
  qed
qed

definition sample_source :: KeysetSource where
  "sample_source = \<lparr>path = ''f'', cur = Some \<lparr>keys = [accept (\<lambda>k. k) string_of_bytes [0x6B] '''']\<rparr>\<rparr>"

text \<open>A rotation of the key, with a second signal while the goroutine is busy.\<close>

definition sample_labels :: "p_label list" where
  "sample_labels = [GotSignal SIGHUP, Take, Parse, FilesChange (\<lambda>_. Contents [0x6B, 0x31] None)] @ GotSignal SIGHUP # [Store, Take, Parse, Store]"

lemma sample_store:
  "reload_store sample_source (Inr \<lparr>keys = [k]\<rparr>) = (None, sample_source\<lparr>cur := Some \<lparr>keys = [k]\<rparr>\<rparr>, PubkeyReloadOK ''f'' 1)"
  "reload_store sample_source (Inl (NotExist ''gone'')) = (Some (NotExist ''gone''), sample_source, PubkeyReloadFailed ''f'' ''gone'')"
  by (simp_all add: reload_store_def Keyset_Count_def sample_source_def)

lemma sample_signal_run:
  "\<exists>t. p_run raw_ak (\<lambda>k. k) string_of_bytes sample_labels
      (p_start [MethodPublickey] (Some sample_source) False (\<lambda>_. OpenFails (NotExist ''gone''))) = Some t \<and>
     p_reloader t = Selecting \<and> \<not> p_sighupCh t \<and> p_open t = (\<lambda>_. Contents [0x6B, 0x31] None) \<and>
     p_source t = Some (sample_source\<lparr>cur := Some \<lparr>keys = [accept (\<lambda>k. k) string_of_bytes [0x6B, 0x31] '''']\<rparr>\<rparr>) \<and>
     p_log t = [PubkeyReloadFailed ''f'' ''gone'', PubkeyReloadOK ''f'' 1]"
  by (simp add: sample_labels_def p_start_def p_step_def deliver_def source_parse_def [of _ _ _ "\<lambda>_. OpenFails e" for e]
      sample_source_parse sample_store)

theorem reload_reflects_file_witness:
  "\<exists>t src. p_run raw_ak (\<lambda>k. k) string_of_bytes sample_labels
      (p_start [MethodPublickey] (Some sample_source) False (\<lambda>_. OpenFails (NotExist ''gone''))) = Some t \<and>
     p_source t = Some src \<and> fst (Keyset_Check (\<lambda>k. k) string_of_bytes (Current src) [0x6B, 0x31])"
proof -
  obtain t src where run: "p_run raw_ak (\<lambda>k. k) string_of_bytes sample_labels
      (p_start [MethodPublickey] (Some sample_source) False (\<lambda>_. OpenFails (NotExist ''gone''))) = Some t"
    and t: "p_reloader t = Selecting" "\<not> p_sighupCh t" "p_open t = (\<lambda>_. Contents [0x6B, 0x31] None)" "p_source t = Some src"
    using sample_signal_run by auto
  have "short_lines [0x6B, 0x31]" "listed raw_ak (\<lambda>k. k) [0x6B, 0x31] (Sum256 [0x6B, 0x31])"
    using sample_line by (simp_all add: short_lines_def MaxScanTokenSize_def listed_def dropCR_def raw_ak_def)
  moreover have "list_all (\<lambda>l. \<not> edits l) [Store, Take, Parse, Store]" by (simp add: edits_def)
  ultimately show ?thesis
    using reload_reflects_file [OF run [unfolded sample_labels_def] _ t(1,2)] t(3,4) run by fastforce
qed

text \<open>Own steps only move a due reload forward or report it, and touch nothing of the surroundings.\<close>

lemma reload_step_kept:
  assumes "p_step parseAK marshal fingerprint l s = Some t" and "own l"
  shows "reports t + due t = reports s + due s" and "p_alive t" and "p_ctx_done t = p_ctx_done s"
    and "p_reloader s \<noteq> NotStarted \<Longrightarrow> p_reloader t \<noteq> NotStarted"
    and "p_reloader t = Ended \<Longrightarrow> p_reloader s = Ended \<or> p_ctx_done s" and "\<not> edits l"
proof -
  have a: "p_alive s" using assms(1) by (auto simp: p_step_def split: if_split_asm)
  have "reports t + due t = reports s + due s \<and> p_alive t \<and> p_ctx_done t = p_ctx_done s \<and>
    (p_reloader s \<noteq> NotStarted \<longrightarrow> p_reloader t \<noteq> NotStarted) \<and>
    (p_reloader t = Ended \<longrightarrow> p_reloader s = Ended \<or> p_ctx_done s) \<and> \<not> edits l"
    using assms(1)
  proof (cases rule: p_step_cases)
    case (parse src res evs)
    with a source_parse_reports [OF parse(4)] show ?thesis by (simp add: reports_def due_def edits_def)
  next
    case (store src res err src' e)
    with a reload_store_report [OF store(4)] show ?thesis by (simp add: reports_def due_def edits_def)
  qed (use a assms(2) in \<open>auto simp: reports_def due_def edits_def own_def\<close>)
  then show "reports t + due t = reports s + due s" and "p_alive t" and "p_ctx_done t = p_ctx_done s"
    and "p_reloader s \<noteq> NotStarted \<Longrightarrow> p_reloader t \<noteq> NotStarted"
    and "p_reloader t = Ended \<Longrightarrow> p_reloader s = Ended \<or> p_ctx_done s" and "\<not> edits l" by blast+
qed

lemma reload_run_kept:
  assumes "p_run parseAK marshal fingerprint ls s = Some t" and "list_all own ls" and "p_inv s" and "p_alive s" and "p_reloader s \<noteq> NotStarted"
  shows "reports t + due t = reports s + due s \<and> p_inv t \<and> p_alive t \<and> p_ctx_done t = p_ctx_done s \<and> p_reloader t \<noteq> NotStarted \<and>
    (p_reloader t = Ended \<longrightarrow> p_reloader s = Ended \<or> p_ctx_done s) \<and> list_all (\<lambda>l. \<not> edits l) ls"
  using assms
proof (induction ls arbitrary: s)
  case (Cons l ls)
  then obtain s1 where s1: "p_step parseAK marshal fingerprint l s = Some s1" "p_run parseAK marshal fingerprint ls s1 = Some t"
    by (auto split: option.split_asm)
  from Cons.prems(2) have "own l" "list_all own ls" by simp_all
  note k = reload_step_kept [OF s1(1) this(1)]
  have "p_inv s1" using proc.trans_inv [OF Cons.prems(3), of parseAK marshal fingerprint s1] s1(1) unfolding p_next_def by blast
  from Cons.IH [OF s1(2) \<open>list_all own ls\<close> this k(2) k(4) [OF Cons.prems(5)]] k show ?case by auto
qed simp

text \<open>
  C7: Every SIGHUP is served. Take any reachable state of a live process whose reload goroutine was started, and let the goroutine run by itself. It makes at most six steps, and each of them
  keeps the number of reloads reported and still due together, where one is due for a signal in the channel and one for a reload in progress. When it can make no further step, either
  it waits with an empty channel, all reloads that were due have been reported, and if a signal was pending the source is the result of a reload of the present
  files; or it has returned, which it only does after the context was cancelled.
\<close>

theorem reload_progress:
  assumes "reach p_init (p_next parseAK marshal fingerprint) s" and "p_alive s" and "p_reloader s \<noteq> NotStarted"
    and "p_run parseAK marshal fingerprint ls s = Some t" and "list_all own ls"
  shows "length ls \<le> 6 \<and> reports t + due t = reports s + due s \<and>
    ((\<forall>l. own l \<longrightarrow> p_step parseAK marshal fingerprint l t = None) \<longrightarrow>
       (p_reloader t = Selecting \<and> \<not> p_sighupCh t \<and> reports t = reports s + due s \<and>
          (p_sighupCh s \<longrightarrow> reports s < reports t \<and> reloaded parseAK marshal fingerprint t)) \<or>
       (p_reloader t = Ended \<and> (p_reloader s = Ended \<or> p_ctx_done s)))"
proof (intro conjI impI)
  have inv: "p_inv s" by (rule proc.reach_inv [OF assms(1)])
  note kept = reload_run_kept [OF assms(4,5) inv assms(2,3)]
  show "length ls \<le> 6" using own_run_work [OF assms(4,5)] p_work_le [of s] by simp
  show "reports t + due t = reports s + due s" using kept by simp
  assume stuck: "\<forall>l. own l \<longrightarrow> p_step parseAK marshal fingerprint l t = None"
  have "settled t"
  proof (rule ccontr)
    assume "\<not> settled t"
    then show False using own_step_enabled [of t parseAK marshal fingerprint] kept stuck by fastforce
  qed
  then consider "p_reloader t = Ended" | "p_reloader t = Selecting" "\<not> p_sighupCh t" by (auto simp: settled_def)
  then show "(p_reloader t = Selecting \<and> \<not> p_sighupCh t \<and> reports t = reports s + due s \<and>
          (p_sighupCh s \<longrightarrow> reports s < reports t \<and> reloaded parseAK marshal fingerprint t)) \<or>
       (p_reloader t = Ended \<and> (p_reloader s = Ended \<or> p_ctx_done s))"
  proof cases
    case 2
    then have r: "reports t = reports s + due s" using kept by (simp add: due_def)
    have "reloaded parseAK marshal fingerprint t" if "p_sighupCh s"
      using caught_run [OF assms(4)] kept that 2 by (simp add: caught_def)
    with 2 r show ?thesis by (simp add: due_def)
  qed (use kept in simp)
qed

theorem reload_progress_witness:
  "\<exists>s t. p_step raw_ak (\<lambda>k. k) string_of_bytes (GotSignal SIGHUP)
      (p_start [MethodPublickey] (Some sample_source) False (\<lambda>_. OpenFails (NotExist ''gone''))) = Some s \<and>
     p_run raw_ak (\<lambda>k. k) string_of_bytes [Take, Parse, Store] s = Some t \<and> reports s < reports t \<and>
     reloaded raw_ak (\<lambda>k. k) string_of_bytes t"
proof -
  let ?f = "\<lambda>_. OpenFails (NotExist ''gone'')"
  let ?s0 = "p_start [MethodPublickey] (Some sample_source) False ?f"
  obtain s where s: "p_step raw_ak (\<lambda>k. k) string_of_bytes (GotSignal SIGHUP) ?s0 = Some s"
    and a: "p_alive s" "p_reloader s \<noteq> NotStarted" "p_sighupCh s" "s = ?s0\<lparr>p_sighupCh := True\<rparr>"
    by (simp add: p_step_def deliver_def p_start_def)
  obtain t where t: "p_run raw_ak (\<lambda>k. k) string_of_bytes [Take, Parse, Store] s = Some t" "p_reloader t = Selecting" "\<not> p_sighupCh t" "\<not> p_ctx_done t"
    unfolding a(4) by (simp add: p_start_def p_step_def source_parse_def sample_store)
  have "keyset_inv (cur sample_source)" by (simp add: sample_source_def keyset_inv_def accept_def Let_def)
  then have "p_init ?s0" unfolding p_init_def by blast
  then have r: "reach p_init (p_next raw_ak (\<lambda>k. k) string_of_bytes) s"
    using s by (intro reach_step [OF reach_init]) (auto simp: p_next_def)
  have o: "list_all own [Take, Parse, Store]" by (simp add: own_def)
  have "\<forall>l. own l \<longrightarrow> p_step raw_ak (\<lambda>k. k) string_of_bytes l t = None"
    using t(2-4) by (auto simp: own_def p_step_def)
  with reload_progress [OF r a(1,2) t(1) o] a(3) t(2) have "reports s < reports t" "reloaded raw_ak (\<lambda>k. k) string_of_bytes t" by simp_all
  with s t(1) show ?thesis by blast
qed

text \<open>
  C22: Signals coalesce and never cost a key. In every run there are at most as many reported reloads as SIGHUPs, the path stays
  the same, and a source that started with a key has one at every moment, whatever the file contained at any of the reloads.
\<close>

theorem reload_coalesces:
  assumes "p_run parseAK marshal fingerprint ls (p_start methods (Some src0) nohup files) = Some t"
  shows "reports t \<le> length (filter (\<lambda>l. l = GotSignal SIGHUP) ls) \<and>
    (\<exists>src. p_source t = Some src \<and> path src = path src0 \<and> (0 < Source_Count src0 \<longrightarrow> 0 < Source_Count src))"
proof
  show "\<exists>src. p_source t = Some src \<and> path src = path src0 \<and> (0 < Source_Count src0 \<longrightarrow> 0 < Source_Count src)"
    by (rule p_run_source [OF assms]) (simp add: p_start_def)
  show "reports t \<le> length (filter (\<lambda>l. l = GotSignal SIGHUP) ls)"
    using p_run_reports [OF assms] by (simp add: p_start_def reports_def due_def split: if_splits)
qed

theorem reload_coalesces_witness:
  "\<exists>t. p_run raw_ak (\<lambda>k. k) string_of_bytes sample_labels
      (p_start [MethodPublickey] (Some sample_source) False (\<lambda>_. OpenFails (NotExist ''gone''))) = Some t \<and> reports t \<le> 2"
proof -
  obtain t where t: "p_run raw_ak (\<lambda>k. k) string_of_bytes sample_labels
      (p_start [MethodPublickey] (Some sample_source) False (\<lambda>_. OpenFails (NotExist ''gone''))) = Some t"
    using sample_signal_run by blast
  from reload_coalesces [OF t] have "reports t \<le> 2" by (simp add: sample_labels_def)
  with t show ?thesis by blast
qed

text \<open>
  The program asked for SIGHUP only if the goroutine was started. Otherwise the default action of the signal ends the
  process, and with it every session, unless the program was started with SIGHUP ignored.
\<close>

lemma p_run_alive:
  assumes "p_run parseAK marshal fingerprint ls s = Some t" and "p_alive s"
  shows "p_alive t \<longleftrightarrow> p_nohup s \<or> p_reloader s \<noteq> NotStarted \<or> GotSignal SIGHUP \<notin> set ls"
  using assms
proof (induction ls arbitrary: s)
  case (Cons l ls)
  then obtain s1 where s1: "p_step parseAK marshal fingerprint l s = Some s1" "p_run parseAK marshal fingerprint ls s1 = Some t"
    by (auto split: option.split_asm)
  have same: "p_nohup s1 = p_nohup s" "p_reloader s1 = NotStarted \<longleftrightarrow> p_reloader s = NotStarted"
    and alive: "p_alive s1 \<longleftrightarrow> p_nohup s \<or> p_reloader s \<noteq> NotStarted \<or> l \<noteq> GotSignal SIGHUP"
    using s1(1) Cons.prems(2) by (cases rule: p_step_cases, auto)+
  show ?case
  proof (cases "p_alive s1")
    case True
    with Cons.IH [OF s1(2)] same alive show ?thesis by auto
  next
    case False
    then have "ls = []" "t = s1" using s1(2) by (cases ls, auto simp: p_step_def)+
    with alive show ?thesis by auto
  qed
qed simp

end
