(* ===== verification/GuessRate.thy ===== *)
theory GuessRate
  imports ServerAuth
begin

text \<open>
  How fast passwords can be guessed from one address. The delays of a run of failures add up; an attacker can also
  let the counter expire, which costs the idle period, or make use of the fail counts 56 to 63, whose delay is zero. A potential
  on the fail count covers all of these: what is left of it never gets negative, so every guess costs 56 seconds on average.
  The argument is made once for every rate limiter of the interface and then applied to the callbacks.
\<close>

section \<open>Accumulated delays\<close>

definition total_delay :: "nat \<Rightarrow> nanos" where
  "total_delay m = (\<Sum>i < m. computeDelay (int i))"

definition guess_cost :: nanos where
  "guess_cost = 56 * Second"

text \<open>What an attacker at fail count \<open>m\<close> may be ahead of the average, counted from the last failure.\<close>

definition lead :: "nat \<Rightarrow> nanos" where
  "lead m = IdleExpiry + total_delay m - int m * guess_cost"

lemma total_delay_Suc [simp]: "total_delay (Suc m) = total_delay m + computeDelay (int m)"
  by (simp add: total_delay_def)

lemma lead_Suc: "lead (Suc m) = lead m + computeDelay (int m) - guess_cost"
  by (simp add: lead_def algebra_simps)

lemma lead_0 [simp]: "lead 0 = IdleExpiry"
  by (simp add: lead_def total_delay_def)

text \<open>The delays as numbers, up to the end of the window in which the product wraps.\<close>

lemma computeDelay_ramp:
  "computeDelay (int m) =
     (if m = 0 \<or> (56 \<le> m \<and> m \<le> 63) then 0 else if m \<le> 6 then 2 ^ (m - 1) * Second else MaxDelay)"
proof (cases "m \<le> 6")
  case True
  then have "m \<in> set [0..<7]" by simp
  then show ?thesis
    by (auto simp: computeDelay_char delay_formula_def MaxDelay_def Second_def upt_rec)
next
  case False
  then have "(2 :: int) ^ 6 \<le> 2 ^ nat (int m - 1)" by (intro power_increasing) auto
  with False show ?thesis by (auto simp: computeDelay_char delay_formula_def MaxDelay_def Second_def)
qed

text \<open>
  The ramp up to the cap leaves a lead of 271 seconds, which grows by 4 with every capped delay, shrinks to 19 in the window without delay,
  and grows again after it.
\<close>

lemma lead_ramp: "lead 7 = 271 * Second"
  by (simp add: numeral_eq_Suc lead_Suc computeDelay_ramp del: of_nat_Suc)
    (simp add: guess_cost_def IdleExpiry_def Second_def)

lemma lead_after_ramp:
  assumes "7 \<le> m"
  shows "lead m = (if m \<le> 56 then 271 + 4 * (int m - 7) else if m \<le> 64 then 467 - 56 * (int m - 56) else 19 + 4 * (int m - 64)) * Second"
  using assms
proof (induction m rule: nat_induct_at_least)
  case base
  then show ?case by (simp add: lead_ramp)
next
  case (Suc m)
  then show ?case
    by (auto simp: lead_Suc computeDelay_ramp guess_cost_def MaxDelay_def Second_def)
qed

lemma lead_nonneg: "0 \<le> lead m"
proof (cases "7 \<le> m")
  case True
  then show ?thesis by (auto simp: lead_after_ramp Second_def)
next
  case False
  have "0 \<le> total_delay m"
    using computeDelay_bounds by (simp add: total_delay_def sum_nonneg)
  with False show ?thesis by (simp add: lead_def IdleExpiry_def guess_cost_def Second_def)
qed

section \<open>A schedule of attempts\<close>

text \<open>
  Attempts on one key follow each other, as the mutex of the entry has it: an attempt enters \<^verbatim>\<open>Acquire\<close> after the release of the one before, and it is released no earlier than
  the delay after that. \<open>prev\<close> is the instant of the last release.
\<close>

type_synonym attempt = "IP \<times> nanos \<times> nanos \<times> bool"

fun paced :: "(IP \<Rightarrow> string) \<Rightarrow> string \<Rightarrow> nanos \<Rightarrow> attempt list \<Rightarrow> nanos list \<Rightarrow> bool" where
  "paced key k prev ((ip, t, t', ok) # as) (d # ds) \<longleftrightarrow>
     (if key ip = k then prev \<le> t \<and> t + d \<le> t' \<and> paced key k t' as ds else paced key k prev as ds)"
| "paced key k prev _ _ \<longleftrightarrow> True"

text \<open>The attempts on a key, and when the last of them was released.\<close>

fun guesses :: "(IP \<Rightarrow> string) \<Rightarrow> string \<Rightarrow> attempt list \<Rightarrow> nat" where
  "guesses key k [] = 0"
| "guesses key k ((ip, t, t', ok) # as) = (if key ip = k then 1 else 0) + guesses key k as"

fun last_release :: "(IP \<Rightarrow> string) \<Rightarrow> string \<Rightarrow> nanos \<Rightarrow> attempt list \<Rightarrow> nanos" where
  "last_release key k prev [] = prev"
| "last_release key k prev ((ip, t, t', ok) # as) = last_release key k (if key ip = k then t' else prev) as"

definition all_fail :: "(IP \<Rightarrow> string) \<Rightarrow> string \<Rightarrow> attempt list \<Rightarrow> bool" where
  "all_fail key k as \<longleftrightarrow> list_all (\<lambda>(ip, t, t', ok). key ip = k \<longrightarrow> \<not> ok) as"

section \<open>The bound for every rate limiter\<close>

context rate_limiter
begin

text \<open>\<open>m\<close> failures are counted on the key and the last one was recorded at \<open>prev\<close>.\<close>

definition counted :: "'l \<Rightarrow> string \<Rightarrow> nanos \<Rightarrow> nat \<Rightarrow> bool" where
  "counted l k prev m \<longleftrightarrow> (\<forall>t. fails t l k = (if t - prev > IdleExpiry then 0 else int m))"

lemma guess_bound:
  assumes "invar l" and "counted l k prev m" and "all_fail key k as"
    and "paced key k prev as (fst (run_attempts acquire rel as l))"
  shows "int (guesses key k as) * guess_cost \<le> last_release key k prev as - prev + lead m"
  using assms
proof (induction as arbitrary: l prev m)
  case Nil
  then show ?case using lead_nonneg by simp
next
  case (Cons a as)
  obtain ip t t' ok where a: "a = (ip, t, t', ok)" by (metis prod_cases4)
  obtain d h l1 where acq: "acquire t ip l = (d, h, l1)" by (metis prod_cases3)
  have inv: "invar (rel t' ok h l1)" using cycle_invar [OF Cons.prems(1) acq] .
  have rest: "all_fail key k as" using Cons.prems(3) by (simp add: all_fail_def)
  have "fst (run_attempts acquire rel (a # as) l) = d # fst (run_attempts acquire rel as (rel t' ok h l1))"
    by (simp add: a acq case_prod_beta Let_def)
  with Cons.prems(4) have pace: "paced key k prev ((ip, t, t', ok) # as) (d # fst (run_attempts acquire rel as (rel t' ok h l1)))"
    by (simp only: a)
  show ?case
  proof (cases "key ip = k")
    case False
    with other_keys [OF Cons.prems(1) acq] Cons.prems(2) have "counted (rel t' ok h l1) k prev m"
      by (simp add: counted_def)
    from Cons.IH [OF inv this rest] pace False show ?thesis by (simp add: a)
  next
    case True
    with Cons.prems(3) have nok: "ok = False" by (simp add: all_fail_def a)
    let ?c = "if t - prev > IdleExpiry then 0 else m"
    have f: "fails t l (key ip) = int ?c" using Cons.prems(2) True by (simp add: counted_def)
    have d: "d = computeDelay (int ?c)" using acquire_delay [OF Cons.prems(1) acq] f by simp
    have "counted (rel t' ok h l1) k t' (Suc ?c)"
      using fails_failure [OF Cons.prems(1) acq] f True nok by (simp add: counted_def)
    from Cons.IH [OF inv this rest] pace True
    have "int (guesses key k as) * guess_cost \<le> last_release key k t' as - t' + lead (Suc ?c)"
      and "prev \<le> t" "t + d \<le> t'" by simp_all
    with d lead_nonneg [of m] True show ?thesis
      by (auto simp: a lead_Suc algebra_simps split: if_split_asm)
  qed
qed

end

section \<open>The bound for the callbacks\<close>

text \<open>
  C2: The rate of guesses from one address is bounded. In every sequence of password and public-key attempts on a new limiter,
  from any addresses, in which the attempts on one limiter key are paced by their delays and none of them presents valid credentials, \<open>n\<close> such attempts
  take at least \<open>56 n - 600\<close> seconds, wherever the attacker pauses to let the counter expire and in spite of the eight fail counts whose delay wraps to
  zero. A million guesses, the space of a generated password, take more than 640 days.
\<close>

theorem guess_rate:
  assumes "run_calls marshal fingerprint c as New_Limiter = (rs, ds, evs, l)"
    and "all_fail limiter_key k (map (attempt_of marshal c) as)"
    and "paced limiter_key k start (map (attempt_of marshal c) as) ds"
  shows "int (guesses limiter_key k (map (attempt_of marshal c) as)) * (56 * Second) - 600 * Second
    \<le> last_release limiter_key k start (map (attempt_of marshal c) as) - start"
proof -
  have "lim.counted New_Limiter k start 0"
    by (simp add: lim.counted_def fails_of_def New_Limiter_def)
  moreover have "fst (run_attempts Acquire release (map (attempt_of marshal c) as) New_Limiter) = ds"
    using run_calls_attempts(1) [OF assms(1)] by simp
  ultimately show ?thesis
    using lim.guess_bound [OF lim_inv_New, of k start 0] assms(2,3) by (fastforce simp: guess_cost_def IdleExpiry_def)
qed

text \<open>Attempts that leave the longest delay between \<^verbatim>\<open>Acquire\<close> and \<^verbatim>\<open>release\<close> are paced whatever the delays are.\<close>

fun slow :: "(IP \<Rightarrow> string) \<Rightarrow> string \<Rightarrow> nanos \<Rightarrow> attempt list \<Rightarrow> bool" where
  "slow key k prev [] = True"
| "slow key k prev ((ip, t, t', ok) # as) \<longleftrightarrow>
     (if key ip = k then prev \<le> t \<and> t + MaxDelay \<le> t' \<and> slow key k t' as else slow key k prev as)"

lemma slow_paced:
  "slow key k prev as \<Longrightarrow> list_all (\<lambda>d. d \<le> MaxDelay) ds \<Longrightarrow> paced key k prev as ds"
  by (induction key k prev as ds rule: paced.induct) (auto split: if_split_asm)

lemma run_attempts_MaxDelay:
  "list_all (\<lambda>d. d \<le> MaxDelay) (fst (run_attempts Acquire release as l))"
proof (induction as arbitrary: l)
  case (Cons a as)
  then show ?case
    by (cases a) (simp add: Acquire_def computeDelay_bounds Let_def case_prod_beta)
qed simp

definition sample_guesses :: "unit auth_call list" where
  "sample_guesses = map (\<lambda>i. PasswordCall (i * Second) ((i + 60) * Second) (sample_meta [10, 0, 0, 5]) [])
     [0, 70, 140, 210, 280, 350, 420, 490, 560, 630, 700, 770]"

theorem guess_rate_witness:
  "\<exists>as :: attempt list. as = map (attempt_of (\<lambda>_. []) \<lparr>userHash = [], passwordHash = []\<rparr>) sample_guesses \<and>
     guesses limiter_key (limiter_key [10, 0, 0, 5]) as = 12 \<and>
     12 * (56 * Second) - 600 * Second \<le> last_release limiter_key (limiter_key [10, 0, 0, 5]) 0 as"
proof -
  let ?c = "\<lparr>userHash = [], passwordHash = []\<rparr>" and ?k = "limiter_key [10, 0, 0, 5]"
  let ?as = "map (attempt_of (\<lambda>_. []) ?c) sample_guesses"
  obtain rs ds evs l where r: "run_calls (\<lambda>_. []) (\<lambda>_. '''') ?c sample_guesses New_Limiter = (rs, ds, evs, l)"
    by (metis prod_cases4)
  have ds: "ds = fst (run_attempts Acquire release ?as New_Limiter)"
    using run_calls_attempts(1) [OF r] by simp
  have "Sum256 p \<noteq> []" for p using length_Sum256 [of p] by fastforce
  then have f: "all_fail limiter_key ?k ?as"
    by (simp add: all_fail_def sample_guesses_def)
  have "slow limiter_key ?k 0 ?as"
    by (simp add: sample_guesses_def sample_meta_def extractIP_def MaxDelay_def Second_def)
  then have "paced limiter_key ?k 0 ?as ds"
    unfolding ds by (rule slow_paced [OF _ run_attempts_MaxDelay])
  moreover have "guesses limiter_key ?k ?as = 12"
    by (simp add: sample_guesses_def sample_meta_def extractIP_def)
  ultimately show ?thesis
    using guess_rate [OF r f, of 0] by simp
qed

end
