(* ===== verification/Spec2Isabelle.thy ===== *)
theory Spec2Isabelle
  imports Clock LimiterSteps Sha256Vector LoggingProps Hostkey SftpSteps StartupProps ServeSteps Signals GuessRate
begin

text \<open>
  A verification development for \<^verbatim>\<open>minisshd\<close>, a single-user SSH server in Go. All paths below are under \<^verbatim>\<open>src/\<close>.

  \<^bold>\<open>The program.\<close> \<^verbatim>\<open>cmd/minisshd/main.go\<close> resolves the settings, prepares the host key, binds the listener, chooses a
  password, loads the authorized keys and runs the server. \<^verbatim>\<open>internal/server\<close> accepts connections, installs the authentication callbacks in the
  SSH library, routes channels to sessions and local forwards, and shuts down. The callbacks use \<^verbatim>\<open>internal/ratelimit\<close> (backoff
  per address), \<^verbatim>\<open>internal/auth\<close> (credentials, authorized keys, settings) and \<^verbatim>\<open>internal/logging\<close> (events in logfmt or
  JSON, with the password scrubbed). \<^verbatim>\<open>internal/session\<close> runs a shell, a command or SFTP on a channel. \<^verbatim>\<open>internal/hostkey\<close> keeps the host key.

  \<^bold>\<open>Theories.\<close>
  \<^item> \<open>Prelude\<close>: how Go values, errors and panics are represented, decimal notation, splitting and joining strings, and the interface
    \<open>inv_system\<close> of a transition system with an invariant.
  \<^item> \<open>Clock\<close> (\<^verbatim>\<open>ratelimit/clock.go\<close>): the clock interface as a locale, with \<^verbatim>\<open>FakeClock\<close> as its instance.
  \<^item> \<open>NetIP\<close>, \<open>NetAddr\<close>: the parts of \<^verbatim>\<open>net\<close> the program uses: printing and parsing of addresses, host-port pairs.
  \<^item> \<open>Ratelimit\<close> (\<^verbatim>\<open>ratelimit/ratelimit.go\<close>): the limiter as sequential operations on a map into a heap of entries, its locale
    \<open>rate_limiter\<close>, and the refinement of the abstract backoff. \<open>LimiterSteps\<close>: the same code with its mutexes as a step system; mutual
    exclusion, and the deadlock and the lost serialisation the code admits.
  \<^item> \<open>Sha256\<close>, \<open>Sha256Vector\<close>: SHA-256 as an executable definition, checked on a test vector and against the roots of primes its tables come from.
  \<^item> \<open>Credentials\<close> (\<^verbatim>\<open>auth/credentials.go\<close>, \<^verbatim>\<open>generate.go\<close>), \<open>Resolve\<close> (\<^verbatim>\<open>auth/resolve.go\<close>), \<open>Keyset\<close> (\<^verbatim>\<open>auth/pubkey.go\<close>): who is
    accepted, exactly; which comparisons are made; what a load and a reload do; how settings are resolved. Locales
    \<open>credential_checker\<close> and \<open>key_checker\<close>.
  \<^item> \<open>ServerAuth\<close> (\<^verbatim>\<open>server/auth.go\<close>): the two callbacks, proved once over the three locales (\<open>auth_server\<close>) and interpreted on the definitions above.
  \<^item> \<open>Logging\<close>, \<open>LoggingProps\<close> (\<^verbatim>\<open>logging/\<close>): both encoders, the scrub and every event; round trips, line structure, and when the password cannot occur.
  \<^item> \<open>Forward\<close> (\<^verbatim>\<open>server/dispatch.go\<close>, \<^verbatim>\<open>forward.go\<close>): routing, and all interleavings of the forward handlers of a connection with their cap.
  \<^item> \<open>Hostkey\<close> (\<^verbatim>\<open>hostkey/hostkey.go\<close>): loading and generating over a file system with faults.
  \<^item> \<open>Wire\<close> (\<^verbatim>\<open>session/helpers.go\<close>): payload parsers and writers, over the locale \<open>wire_codec\<close>.
  \<^item> \<open>Session\<close>, \<open>SessionProps\<close> (\<^verbatim>\<open>session/service.go\<close>, \<^verbatim>\<open>pty.go\<close>, \<^verbatim>\<open>sysproc.go\<close>): the life of a session channel as a list of effects; descriptors,
    replies, exit reports, signals, the environment of a child and the file that runs, under every interleaving of its two goroutines. \<open>SessionSteps\<close>, \<open>SftpSteps\<close>: the same
    supervision (\<^verbatim>\<open>runChild\<close>, \<^verbatim>\<open>runSftp\<close>) as step systems with their blocking points; every run that returns has the effects of the sequential description, the handler
    returns once the child and the client have ended, and at a shutdown it waits for a client it has told nothing.
  \<^item> \<open>ServerConfig\<close>, \<open>ServeSteps\<close> (\<^verbatim>\<open>server/config.go\<close>, \<^verbatim>\<open>server.go\<close>): the configuration of the SSH library; the accept loop, the shutdown watcher,
    the waiter and the connections as a step system with its wait groups.
  \<^item> \<open>Flags\<close>, \<open>Startup\<close>, \<open>StartupProps\<close> (\<^verbatim>\<open>cmd/minisshd/main.go\<close>): flag parsing and the start-up sequence with its exit codes; what is printed
    when, and the well-formedness of the configuration that is served.
  \<^item> \<open>Signals\<close> (\<^verbatim>\<open>main\<close> and the reload goroutine of \<^verbatim>\<open>run\<close>): the process as a step system of signals, file changes and the steps of the
    goroutine; no change of the authorized keys is lost, the goroutine reports every reload that is due before it waits again, signals coalesce.
  \<^item> \<open>GuessRate\<close>: the delays of the limiter added up over a schedule of attempts, for every instance of the locale \<open>rate_limiter\<close> and then for the callbacks.
  \<^item> This theory: what holds of a server that \<^verbatim>\<open>run\<close> starts, from its arguments and its surroundings to the callbacks in the SSH library, the children of its
    sessions, its reaction to signals and its end; and what a session is told of the end of its connection.

  \<^bold>\<open>Conventions.\<close> A Go error is \<open>Inl (Error m)\<close> and a panic \<open>Inl (Panic m)\<close>; a fixed-width integer is a word where it can wrap and an \<open>int\<close>
  where it cannot; a duration or an instant is an \<open>int\<close> of nanoseconds; a mutex-protected section is one step of a step
  relation; a handler returns its effects in order. Code outside the repository is an argument: key parsing and signing of \<^verbatim>\<open>x/crypto/ssh\<close>,
  \<^verbatim>\<open>ssh.Unmarshal\<close>, the PTY library, the SFTP server, the decimal form of a float, the operating system's answers. \<^verbatim>\<open>exec.Command\<close> with its
  search of the path is defined (\<open>Session.exec_Command\<close>); which files can be executed and the texts of its errors are arguments.
  Hypotheses on it (a marshalled key parses to its own signer, the random source fills its buffer) are in the statements that need them.

  \<^bold>\<open>Loops and bounds.\<close> All loops are total functions: structural recursion, or a measure where the recursion is on a rest of a string, an argument list
  or the time left to a deadline (\<open>ReplaceAll\<close>, \<open>json_inner\<close>, \<open>flag_Parse\<close>, \<open>kill_wait\<close>). No definition uses fuel. Where goroutines
  wait for each other, progress is a bound on the number of their own steps together with the only states in which none is possible (\<open>supervision_returns\<close>, \<open>reload_progress\<close>). \<open>rand_Int\<close> consumes a finite
  stream and reports its end.

  \<^bold>\<open>Not modelled.\<close> The copying of data between a channel, a child and a socket, which carries no decision; the socket option of \<^verbatim>\<open>listen\<close>, whose
  result the code ignores; the wrappers that hand a PTY file to the session; the wording of messages on standard error; signals before
  the server serves and signals the program does not name; the SSH transport itself; the package documentation and the version constant; tests. Interfaces that exist only so that tests
  can replace an implementation are the locales and the type synonyms of the operations behind them.
\<close>

section \<open>The callbacks of a served configuration\<close>

lemma served_callbacks:
  fixes cfg :: "'s Config" and marshal :: "'k \<Rightarrow> bytes" and fingerprint :: "'k \<Rightarrow> string"
  assumes "cfg_Sleep cfg = None" and "cfg_Methods cfg \<noteq> []"
  defines "sc \<equiv> newServerConfig marshal fingerprint (New_Server cfg)"
  shows "MethodPassword \<in> set (cfg_Methods cfg) \<Longrightarrow> sc_PasswordCallback sc = Some (\<lambda>t t' meta pw l.
      slept time_Sleep (passwordCallback Acquire release Snapshot (Check (cfg_Credentials cfg)) t t' meta pw l))"
    and "MethodPublickey \<in> set (cfg_Methods cfg) \<Longrightarrow> cfg_KeysetSource cfg \<noteq> None \<Longrightarrow> sc_PublicKeyCallback sc = Some (\<lambda>src t t' meta k l.
      slept time_Sleep (publickeyCallback Acquire release Snapshot (CheckUsername (cfg_Credentials cfg))
        (Keyset_Check marshal fingerprint (Current src)) t t' meta k l))"
  using assms by (simp_all add: newServerConfig_def New_Server_def Let_def)

text \<open>A call that is put through the real sleeper: its verdict, and the time it sleeps.\<close>

lemma slept_call:
  assumes "lim_inv l" and "slept time_Sleep (run_call marshal fingerprint c a l) = (r, d, evs, l')"
    and "attempt_of marshal c a = (ip, t, t', ok)"
  shows "r = Inr () \<longleftrightarrow> accepts marshal c a" and "d = computeDelay (fails_of t l (limiter_key ip))" and "lim_inv l'"
proof -
  from assms(2) obtain d0 where call: "run_call marshal fingerprint c a l = (r, d0, evs, l')" and d: "d = max d0 0"
    by (auto simp: slept_def time_Sleep_def split: prod.split_asm)
  note run = run_call_attempt [OF call]
  show "r = Inr () \<longleftrightarrow> accepts marshal c a" using run(2) by simp
  obtain d1 h l1 where acq: "Acquire t ip l = (d1, h, l1)" by (metis prod_cases3)
  with run(1) assms(3) have "d0 = d1" "l' = release t' ok h l1" by simp_all
  with d lim.acquire_delay [OF assms(1) acq] lim.cycle_invar [OF assms(1) acq]
  show "d = computeDelay (fails_of t l (limiter_key ip))" and "lim_inv l'"
    by (simp_all add: max_absorb1 [OF computeDelay_bounds [THEN conjunct1]])
qed

text \<open>
  C3: Who logs in with a password. Whenever the program serves with password authentication on, there are a username and a password: the
  username is the one the flags, the environment and the account give, and the password the one supplied, or else the one printed in the banner. The
  password callback installed in the SSH library accepts a client exactly when the digests of what it presents are those of this
  username and password, and it sleeps the backoff delay of the client's address first.
\<close>

theorem served_password_login:
  fixes w :: "('p, 's, 'k) world"
  assumes "o_config (run w args) = Some cfg" and "MethodPassword \<in> set (cfg_Methods cfg)"
  shows "\<exists>f user pw cb. flag_Parse args default_flags = Inr f \<and>
    ResolveUsername (fl_user f) (Getenv w ''MINISSHD_USER'') (osUser w) = Inr user \<and>
    (if is_set f ''pass'' then pw = fl_pass f \<and> o_banner (run w args) = None
     else if env_isset w ''MINISSHD_PASS'' then pw = Getenv w ''MINISSHD_PASS'' \<and> o_banner (run w args) = None
     else o_banner (run w args) = Some (''Password: '' @ pw @ [CHR 0x0A])) \<and>
    sc_PasswordCallback (newServerConfig (w_marshal w) (w_fingerprint w) (New_Server cfg)) = Some cb \<and>
    (\<forall>t t' meta p l. lim_inv l \<longrightarrow> (case cb t t' meta p l of (r, d, evs, l') \<Rightarrow>
       (r = Inr () \<longleftrightarrow> Sum256 (bytes_of_string (meta_User meta)) = Sum256 (bytes_of_string user) \<and> Sum256 p = Sum256 (bytes_of_string pw)) \<and>
       d = computeDelay (fails_of t l (limiter_key (extractIP (meta_RemoteAddr meta)))) \<and> lim_inv l'))"
proof (cases rule: run_served [OF assms(1)])
  case (1 f se kp src evs pw)
  note vals = resolve_settings_values [OF 1(2)]
  from assms(2) have "cfg_Methods cfg \<noteq> []" by auto
  note cb = served_callbacks(1) [OF 1(11) this assms(2), of "w_marshal w" "w_fingerprint w"]
  have pw: "if is_set f ''pass'' then pw = fl_pass f \<and> o_banner (run w args) = None
     else if env_isset w ''MINISSHD_PASS'' then pw = Getenv w ''MINISSHD_PASS'' \<and> o_banner (run w args) = None
     else o_banner (run w args) = Some (''Password: '' @ pw @ [CHR 0x0A])"
    using vals(2) 1(4) assms(2) unfolding 1(7)
    by (auto simp: ResolvePasswordStrict_def choose_password_def split: if_split_asm sum.split_asm go_fail.split_asm)
  have "case slept time_Sleep (passwordCallback Acquire release Snapshot (Check (cfg_Credentials cfg)) t t' meta p l) of (r, d, evs, l') \<Rightarrow>
       (r = Inr () \<longleftrightarrow> Sum256 (bytes_of_string (meta_User meta)) = Sum256 (bytes_of_string (se_username se)) \<and> Sum256 p = Sum256 (bytes_of_string pw)) \<and>
       d = computeDelay (fails_of t l (limiter_key (extractIP (meta_RemoteAddr meta)))) \<and> lim_inv l'"
    if "lim_inv l" for t t' meta p l
    using slept_call [OF that, of "w_marshal w" "w_fingerprint w" "cfg_Credentials cfg" "PasswordCall t t' meta p"]
    by (simp add: 1(6) NewCredentials_def split: prod.split)
  then show ?thesis
    using 1(1) vals(1) pw cb
    by (intro exI [of _ f] exI [of _ "se_username se"] exI [of _ pw]
        exI [of _ "\<lambda>t t' meta pw l. slept time_Sleep (passwordCallback Acquire release Snapshot (Check (cfg_Credentials cfg)) t t' meta pw l)"]
        conjI allI impI) simp_all
qed

theorem served_password_login_witness:
  "\<exists>cfg f pw. o_config (run sample_world sample_args) = Some cfg \<and> flag_Parse sample_args default_flags = Inr f \<and>
     ResolveUsername (fl_user f) (Getenv sample_world ''MINISSHD_USER'') (osUser sample_world) = Inr ''me'' \<and>
     o_banner (run sample_world sample_args) = Some (''Password: '' @ pw @ [CHR 0x0A])"
proof -
  obtain cfg where c: "o_config (run sample_world sample_args) = Some cfg" "cfg_Methods cfg = [''password'']"
    using sample_serves by blast
  have m: "MethodPassword \<in> set (cfg_Methods cfg)" using c(2) by (simp add: MethodPassword_def)
  have none: "\<not> is_set sample_flags ''pass''" "\<not> env_isset sample_world ''MINISSHD_PASS''" by code_simp+
  have u: "ResolveUsername (fl_user sample_flags) (Getenv sample_world ''MINISSHD_USER'') (osUser sample_world) = Inr ''me''" by code_simp
  from served_password_login [OF c(1) m] none sample_parse
  have "\<exists>pw. o_banner (run sample_world sample_args) = Some (''Password: '' @ pw @ [CHR 0x0A])" by auto
  with c(1) u sample_parse show ?thesis by blast
qed

text \<open>
  C4: Who logs in with a key. Whenever the program serves with public keys on and the authorized-keys file it loaded could be read and has no overlong line, the
  public-key callback installed in the SSH library, called with the source as it was loaded, accepts a client exactly when the
  digest of the presented username is that of the configured one and the file lists a key with the digest of the presented key. The
  file is the one that the flag, the environment or the default name.
\<close>

theorem served_key_login:
  fixes w :: "('p, 's, 'k) world"
  assumes "o_config (run w args) = Some cfg" and "cfg_KeysetSource cfg = Some src"
    and "w_open w (path src) = Contents content None" and "short_lines content"
  shows "\<exists>f user cb. flag_Parse args default_flags = Inr f \<and>
    ResolveUsername (fl_user f) (Getenv w ''MINISSHD_USER'') (osUser w) = Inr user \<and> keys_path w f (cfg_Methods cfg) = Inr (path src) \<and>
    sc_PublicKeyCallback (newServerConfig (w_marshal w) (w_fingerprint w) (New_Server cfg)) = Some cb \<and>
    (\<forall>t t' meta k l. lim_inv l \<longrightarrow> (case cb src t t' meta k l of (r, d, evs, l') \<Rightarrow>
       (r = Inr () \<longleftrightarrow> Sum256 (bytes_of_string (meta_User meta)) = Sum256 (bytes_of_string user) \<and>
          listed (w_parseAK w) (w_marshal w) content (Sum256 (w_marshal w k))) \<and>
       d = computeDelay (fails_of t l (limiter_key (extractIP (meta_RemoteAddr meta)))) \<and> lim_inv l'))"
proof (cases rule: run_served [OF assms(1)])
  case (1 f se kp src' evs pw)
  note vals = resolve_settings_values [OF 1(2)]
  have src': "src' = Some src" using 1(8) assms(2) by simp
  with load_keys_ok(1) [OF 1(5)] have m: "MethodPublickey \<in> set (cfg_Methods cfg)" by (simp add: 1(7))
  then have "cfg_Methods cfg \<noteq> []" by auto
  note cb = served_callbacks(2) [OF 1(11) this m, of "w_marshal w" "w_fingerprint w"]
  from 1(5) src' obtain evs' where load: "Load (w_parseAK w) (w_marshal w) (w_fingerprint w) (w_open w) (NewKeysetSource kp) = (None, src, evs')"
    by (auto simp: load_keys_def split: if_split_asm prod.split_asm option.split_asm)
  have d: "d \<in> Digest ` set (keys ks) \<longleftrightarrow> listed (w_parseAK w) (w_marshal w) content d" if "cur src = Some ks" for ks d
    using load
  proof (cases rule: Load_cases)
    case (missing m)
    with assms(3) show ?thesis by (simp add: NewKeysetSource_def)
  next
    case (ok ks')
    then have p: "path src = path (NewKeysetSource kp)" "ks' = ks" using that by simp_all
    from parsed_digests [of "w_open w" "NewKeysetSource kp" content "w_parseAK w" "w_marshal w" "w_fingerprint w"] assms(3,4) p(1)
    obtain ks2 evs2 where "source_parse (w_parseAK w) (w_marshal w) (w_fingerprint w) (w_open w) (NewKeysetSource kp) = (Inr ks2, evs2)"
      "\<And>d. d \<in> Digest ` set (keys ks2) \<longleftrightarrow> listed (w_parseAK w) (w_marshal w) content d" by metis
    with ok(2) p(2) show ?thesis by simp
  qed simp
  have "cur src \<noteq> None" using load by (cases rule: Load_cases) simp_all
  then obtain ks where ks: "cur src = Some ks" by blast
  have "case slept time_Sleep (publickeyCallback Acquire release Snapshot (CheckUsername (cfg_Credentials cfg))
        (Keyset_Check (w_marshal w) (w_fingerprint w) (Current src)) t t' meta k l) of (r, d, evs, l') \<Rightarrow>
       (r = Inr () \<longleftrightarrow> Sum256 (bytes_of_string (meta_User meta)) = Sum256 (bytes_of_string (se_username se)) \<and>
          listed (w_parseAK w) (w_marshal w) content (Sum256 (w_marshal w k))) \<and>
       d = computeDelay (fails_of t l (limiter_key (extractIP (meta_RemoteAddr meta)))) \<and> lim_inv l'"
    if "lim_inv l" for t t' meta k l
    using slept_call [OF that, of "w_marshal w" "w_fingerprint w" "cfg_Credentials cfg" "PublickeyCall t t' meta k (Current src)"]
    by (simp add: 1(6) NewCredentials_def Current_def ks d [OF ks] split: prod.split)
  moreover have "path src = kp"
    using load by (cases rule: Load_cases) (simp_all add: NewKeysetSource_def)
  ultimately show ?thesis
    using 1(1,3,7) vals(1) cb assms(2)
    by (intro exI [of _ f] exI [of _ "se_username se"]
        exI [of _ "\<lambda>src t t' meta k l. slept time_Sleep (publickeyCallback Acquire release Snapshot (CheckUsername (cfg_Credentials cfg))
          (Keyset_Check (w_marshal w) (w_fingerprint w) (Current src)) t t' meta k l)"]
        conjI allI impI) simp_all
qed

theorem served_key_login_witness:
  "\<exists>cfg src cb. o_config (run sample_key_world sample_key_args) = Some cfg \<and> cfg_KeysetSource cfg = Some src \<and>
     sc_PublicKeyCallback (newServerConfig (w_marshal sample_key_world) (w_fingerprint sample_key_world) (New_Server cfg)) = Some cb \<and>
     fst (cb src 0 0 ((sample_meta [10, 0, 0, 5])\<lparr>meta_User := ''me''\<rparr>) [0x6B, 0x31] New_Limiter) = Inr ()"
proof -
  let ?w = sample_key_world and ?meta = "(sample_meta [10, 0, 0, 5])\<lparr>meta_User := ''me''\<rparr>"
  obtain cfg src where c: "o_config (run ?w sample_key_args) = Some cfg" "cfg_KeysetSource cfg = Some src"
    using sample_key_serves by blast
  have o: "w_open ?w (path src) = Contents [0x6B, 0x31] None" "short_lines [0x6B, 0x31]"
    by (simp_all add: sample_key_world_def short_lines_def MaxScanTokenSize_def)
  have u: "ResolveUsername (fl_user sample_key_flags) (Getenv ?w ''MINISSHD_USER'') (osUser ?w) = Inr ''me''" by code_simp
  from served_key_login [OF c o] sample_key_parse u obtain cb where
    cb: "sc_PublicKeyCallback (newServerConfig (w_marshal ?w) (w_fingerprint ?w) (New_Server cfg)) = Some cb"
    and a: "\<And>t t' meta k l. lim_inv l \<Longrightarrow> case cb src t t' meta k l of (r, d, evs, l') \<Rightarrow>
       (r = Inr () \<longleftrightarrow> Sum256 (bytes_of_string (meta_User meta)) = Sum256 (bytes_of_string ''me'') \<and>
          listed (w_parseAK ?w) (w_marshal ?w) [0x6B, 0x31] (Sum256 (w_marshal ?w k))) \<and>
       d = computeDelay (fails_of t l (limiter_key (extractIP (meta_RemoteAddr meta)))) \<and> lim_inv l'" by auto
  have "listed (w_parseAK ?w) (w_marshal ?w) [0x6B, 0x31] (Sum256 (w_marshal ?w [0x6B, 0x31]))"
    using sample_line by (simp add: sample_key_world_def sample_world_def listed_def dropCR_def raw_ak_def)
  with a [of New_Limiter ?meta "[0x6B, 0x31]" 0 0, OF lim_inv_New]
  have "fst (cb src 0 0 ?meta [0x6B, 0x31] New_Limiter) = Inr ()" by (auto split: prod.split_asm)
  with c cb show ?thesis by blast
qed

section \<open>Signals to a served process\<close>

text \<open>
  C39: What a hangup does to a server. In every run of signals, changes of files and steps of the reload goroutine from the moment the program serves,
  the process is alive at the end exactly if public keys are on, or it was started with SIGHUP ignored, or no SIGHUP came: with password
  authentication alone a SIGHUP is not ignored but ends the server.
\<close>

theorem served_hangup:
  fixes w :: "('p, 's, 'k) world"
  assumes "o_config (run w args) = Some cfg"
    and "p_run (w_parseAK w) (w_marshal w) (w_fingerprint w) ls (p_start (cfg_Methods cfg) (cfg_KeysetSource cfg) nohup files) = Some t"
  shows "p_alive t \<longleftrightarrow> MethodPublickey \<in> set (cfg_Methods cfg) \<or> nohup \<or> GotSignal SIGHUP \<notin> set ls"
proof (cases rule: run_served [OF assms(1)])
  case (1 f se kp src evs pw)
  then have "cfg_KeysetSource cfg \<noteq> None \<longleftrightarrow> MethodPublickey \<in> set (cfg_Methods cfg)"
    using load_keys_ok(1) [OF 1(5)] by simp
  with p_run_alive [OF assms(2)] show ?thesis by (auto simp: p_start_def)
qed

theorem served_hangup_witness:
  "\<exists>cfg t. o_config (run sample_world sample_args) = Some cfg \<and>
     p_run (w_parseAK sample_world) (w_marshal sample_world) (w_fingerprint sample_world) [GotSignal SIGHUP]
       (p_start (cfg_Methods cfg) (cfg_KeysetSource cfg) False (w_open sample_world)) = Some t \<and> \<not> p_alive t"
proof -
  obtain cfg where c: "o_config (run sample_world sample_args) = Some cfg" "cfg_Methods cfg = [''password'']"
    using sample_serves by blast
  obtain t where t: "p_run (w_parseAK sample_world) (w_marshal sample_world) (w_fingerprint sample_world) [GotSignal SIGHUP]
       (p_start (cfg_Methods cfg) (cfg_KeysetSource cfg) False (w_open sample_world)) = Some t"
    by (simp add: p_step_def deliver_def p_start_def)
  from served_hangup [OF c(1) t] have "\<not> p_alive t" by (simp add: c(2) MethodPublickey_def)
  with c(1) t show ?thesis by blast
qed

section \<open>Children of a served process\<close>

text \<open>
  C15: What a child of the server is given. Every command that a session channel of a served configuration decides to run has no entry in its environment that is one of the
  program's own variables, so neither the password nor any other setting is handed on. The shell that the flags, the environment or the default name was found to be an
  executable regular file at the start. If its name has a slash (and is not the root directory), that file is what runs. If it has none, what runs is the first file of this name that can be executed in a directory of
  the search path, which need not be the file that was checked, and nothing runs if there is none or it is not an absolute path. \<open>ex\<close> is what can be
  executed when the command is prepared.
\<close>

theorem served_child_secrets:
  fixes w :: "('p, 's, 'k) world"
  assumes "o_config (run w args) = Some cfg"
    and "pre_loop ((cfg_SessionService cfg)\<lparr>os_executable := ex\<rparr>) remote reqs init_state = Inr (es, Some sp, rest, st)"
    and "sp_cmd sp = Some cmd"
  shows "list_all (\<lambda>e. \<not> prefix ''MINISSHD_'' e) (c_Env cmd) \<and>
    (\<exists>f. flag_Parse args default_flags = Inr f \<and> validateShell (w_eval w) (w_os w) (w_fs w) (shellPath w f) = None \<and>
      (if CHR ''/'' \<in> set (shellPath w f)
       then shellPath w f \<noteq> ''/'' \<longrightarrow> c_Path cmd = shellPath w f \<and> c_Err cmd = None
       else (case find ex (map (\<lambda>d. filepath_Join [if d = '''' then ''.'' else d, shellPath w f]) (filepath_SplitList (Getenv w ''PATH''))) of
               None \<Rightarrow> c_Err cmd \<noteq> None
             | Some p \<Rightarrow> c_Path cmd = p \<and> (c_Err cmd = None \<longleftrightarrow> prefix ''/'' p))))"
proof (cases rule: run_served [OF assms(1)])
  case (1 f se kp src evs pw)
  let ?s = "(cfg_SessionService cfg)\<lparr>os_executable := ex\<rparr>" and ?sh = "shellPath w f"
  note vals = resolve_settings_values(3,4) [OF 1(2)]
  have ok: "session_ok st"
    using pre_loop_phase1 [OF assms(2) session_ok_init] by (auto simp: phase1_def)
  have cmd: "c_Path cmd = fst (exec_Command ?s (Shell ?s))" "c_Err cmd = snd (exec_Command ?s (Shell ?s))" "c_Env cmd = buildEnv ?s st"
    using pre_loop_spawn [OF assms(2,3)] by (auto simp: prepareShell_def prepareExec_def Let_def)
  have "\<not> prefix ''MINISSHD_'' (k @ ''='' @ v)" if "(k, v) \<in> set (picked_env ?s st)" for k v
  proof -
    have "child_env ?s st k \<noteq> None"
      unfolding child_env_picked(1) [OF ok, symmetric] map_of_eq_None_iff using that by force
    from child_env_name [OF ok this]
    have "k \<in> set standard_names \<union> {''LANG''} \<union> {k. prefix ''LC_'' k} \<union> {''TERM''}"
      by (auto split: if_split_asm)
    then show ?thesis
      by (auto simp: standard_names_def prefix_def)
  qed
  then have env: "list_all (\<lambda>e. \<not> prefix ''MINISSHD_'' e) (c_Env cmd)"
    by (auto simp: list_all_iff cmd(3) buildEnv_def)
  have sh: "Shell ?s = ?sh" "os_PATH ?s = Getenv w ''PATH''" "os_executable ?s = ex"
    using 1(10) vals(1) by simp_all
  have ne: "?sh \<noteq> ''''" by (simp add: shellPath_def)
  show ?thesis
  proof (intro conjI env exI [of _ f] 1(1))
    show "validateShell (w_eval w) (w_os w) (w_fs w) ?sh = None" using vals by simp
  qed (use cmd(1,2) ne found_nonempty in
      \<open>simp add: sh exec_Command_def Base_self LookPath_def look_dirs_find case_prod_beta split: option.split\<close>)
qed

definition sample_shell :: request where
  "sample_shell = \<lparr> rq_Type = ''shell'', rq_WantReply = True, rq_Payload = [] \<rparr>"

theorem served_child_secrets_witness:
  "\<exists>cfg st sp cmd. o_config (run sample_world sample_args) = Some cfg \<and>
     pre_loop ((cfg_SessionService cfg)\<lparr>os_executable := \<lambda>_. True\<rparr>) '''' [(sample_shell, Inl '''')] init_state = Inr ([], Some sp, [], st) \<and>
     sp_cmd sp = Some cmd \<and> list_all (\<lambda>e. \<not> prefix ''MINISSHD_'' e) (c_Env cmd)"
proof -
  obtain cfg where c: "o_config (run sample_world sample_args) = Some cfg"
    using sample_serves by blast
  let ?s = "(cfg_SessionService cfg)\<lparr>os_executable := \<lambda>_. True\<rparr>"
  let ?cmd = "prepareShell ?s init_state"
  let ?sp = "\<lparr> sp_kind = ''shell'', sp_cmd = Some ?cmd, sp_req = sample_shell \<rparr>"
  have p: "pre_loop ?s '''' [(sample_shell, Inl '''')] init_state = Inr ([], Some ?sp, [], init_state)"
    by (simp add: preSpawnDispatch_def sample_shell_def)
  have "sp_cmd ?sp = Some ?cmd" by simp
  from served_child_secrets [OF c p this] c p this show ?thesis by blast
qed

section \<open>Sessions of a connection\<close>

text \<open>
  What the connection allows to happen to a session on it: its context is cancelled when that of the connection is. The client may close the channel, send requests, and
  the child may end, at any time.
\<close>

definition session_may :: "serve_state \<Rightarrow> nat \<Rightarrow> sup_label \<Rightarrow> bool" where
  "session_may u c l \<longleftrightarrow> (l = CtxCancelled \<longrightarrow> connCtx_done u c)"

text \<open>
  C40: The reason of a shutdown-signal event does not tell a shutdown from a disconnect. When a client goes away while its child runs, \<^verbatim>\<open>handleConn\<close> returns and cancels the
  context of the session, while the end of the connection ends the request channel too: in a server that nobody shuts down the select of the session finds both cases
  ready, and the same events outside lead to a SIGHUP logged with reason \<^verbatim>\<open>channel-close\<close> or with reason \<^verbatim>\<open>shutdown\<close>.
\<close>

theorem disconnect_reason:
  "\<exists>u ls. reach serve_init (serve_next cap) u \<and> \<not> sv_ctx_done u \<and> \<not> sv_conns_cancelled u \<and> sv_handlers u 0 = Some 0 \<and>
     list_all (session_may u 0) ls \<and>
     (\<exists>s. sup_run e r knd remote (sup_start st) ls s \<and>
        ss_effects s = [KillGroup (r_pgid r) SIGHUP, SLog (Log_ShutdownSignal (r_pgid r) ''HUP'' ''channel-close'')]) \<and>
     (\<exists>s. sup_run e r knd remote (sup_start st) ls s \<and>
        ss_effects s = [KillGroup (r_pgid r) SIGHUP, SLog (Log_ShutdownSignal (r_pgid r) ''HUP'' ''shutdown'')])"
proof -
  have "list_all (session_may sample_gone 0) [ReqsClosed, CtxCancelled, ReqStep, SupStep, SupStep, SupStep]"
    by (simp add: session_may_def connCtx_done_def sample_gone_state)
  moreover have "\<exists>s. sup_run e r knd remote (sup_start st) [ReqsClosed, CtxCancelled, ReqStep, SupStep, SupStep, SupStep] s \<and>
      ss_effects s = [KillGroup (r_pgid r) SIGHUP, SLog (Log_ShutdownSignal (r_pgid r) ''HUP'' why)]"
    if "why \<in> {''shutdown'', ''channel-close''}" for why
    by (rule disconnect_race [OF that, of e r knd remote st]) (rule exI, rule conjI)
  ultimately show ?thesis
    by (intro exI [of _ sample_gone] exI [of _ "[ReqsClosed, CtxCancelled, ReqStep, SupStep, SupStep, SupStep]"] conjI)
      (simp_all only: sample_gone_reach sample_gone_state(2,7,8) insert_iff simp_thms)
qed

section \<open>The end of a served process\<close>

text \<open>
  C38: An error of the listener ends the server, and the exit code hides it. When \<^verbatim>\<open>Accept\<close> fails with anything but the closing of the listener, the event
  stays in the log and no connection is accepted any more, whatever happens; the server's own steps lead \<^verbatim>\<open>Serve\<close> to its return within
  five seconds and a tenth, though nobody cancelled it, and since \<^verbatim>\<open>Serve\<close> returns nil on every path the program then
  exits with code 0, the code of a clean shutdown.
\<close>

theorem accept_error_exits_zero:
  fixes w :: "('p, 's, 'k) world"
  assumes "o_config (run w args) = Some cfg" and "serve_step (drain_cap cfg) (AcceptErr (Some m)) s t"
  shows "(\<exists>u. (own_step (drain_cap cfg))\<^sup>*\<^sup>* t u \<and> sv_pc u = Returned \<and> sv_now u \<le> sv_now s + 5 * Second + watcher_nudge) \<and>
    (\<forall>ls u. serve_run (drain_cap cfg) ls t u \<longrightarrow>
       (\<forall>c remote. AcceptOK c remote \<notin> set ls) \<and> Log_Error (''accept: '' @ m) '''' \<in> set (sv_logs u) \<and>
       (Serve_result u = Some (w_serve w) \<longrightarrow> o_code (run w args) = 0))"
proof (cases rule: run_served [OF assms(1)])
  case (1 f se kp src evs pw)
  then have cap: "drain_cap cfg = 5 * Second" by (simp add: drain_cap_def drainTimeout_def)
  then have "0 \<le> drain_cap cfg" by (simp add: Second_def)
  note run = accept_error_run [OF assms(2) this]
  have "o_code (run w args) = 0" if "Serve_result u = Some (w_serve w)" for u
    using that 1(13) by (simp add: Serve_result_def exit_codes split: if_split_asm)
  with run cap show ?thesis by (auto simp: own_leads_def)
qed

theorem accept_error_exits_zero_witness:
  "\<exists>cfg u. o_config (run sample_world sample_args) = Some cfg \<and> sv_pc u = Returned \<and> sv_now u \<le> 5 * Second + watcher_nudge \<and>
     Serve_result u = Some (w_serve sample_world)"
proof -
  obtain cfg where c: "o_config (run sample_world sample_args) = Some cfg"
    using sample_serves by blast
  have "\<exists>t. serve_step (drain_cap cfg) (AcceptErr (Some ''too many open files'')) (start_state 0) t"
    by (rule exI, rule accept_err) (simp_all add: start_state_def)
  then obtain t where t: "serve_step (drain_cap cfg) (AcceptErr (Some ''too many open files'')) (start_state 0) t" ..
  from accept_error_exits_zero [OF c t] obtain u :: serve_state where "sv_pc u = Returned" "sv_now u \<le> 5 * Second + watcher_nudge"
    by (auto simp: start_state_def)
  moreover from this(1) have "Serve_result u = Some (w_serve sample_world)"
    by (simp add: Serve_result_def sample_world_def)
  ultimately show ?thesis using c by blast
qed

end
